(* ===== verification/Nux_Prelude.thy ===== *)
theory Nux_Prelude imports Main "HOL-Library.Word" "HOL-Library.AList" begin

text \<open>
  Shared vocabulary of the development: the machine types of the Rust code, the few
  integer operations of its standard library that the code calls, byte serialisation of
  unsigned integers, the propagation of errors by the question-mark operator, and the
  collections of facts that the component theories extend.

  A Rust \<^verbatim>\<open>String\<close>/\<^verbatim>\<open>&str\<close> is its UTF-8 byte sequence and is a \<open>string\<close> here (a HOL
  \<open>char\<close> is one byte). A \<^verbatim>\<open>Vec<u8>\<close>/\<^verbatim>\<open>&[u8]\<close> is a list of 8-bit words. Instants and durations of
  the monotonic clock are natural numbers of one unit; Unix timestamps keep their 64 bits.
\<close>

unbundle bit_operations_syntax

type_synonym u8 = "8 word"
type_synonym u16 = "16 word"
type_synonym u32 = "32 word"
type_synonym u64 = "64 word"
type_synonym bytes = "u8 list"
type_synonym instant = nat
type_synonym duration = nat

text \<open>Instants and durations of the monotonic clock are in milliseconds.\<close>

definition from_secs :: "nat \<Rightarrow> duration" where "from_secs n = 1000 * n"
definition as_secs :: "duration \<Rightarrow> nat" where "as_secs d = d div 1000"

lemma as_from_secs [simp]: "as_secs (from_secs n) = n"
  by (simp add: as_secs_def from_secs_def)

lemma from_secs_inject [simp]: "from_secs m = from_secs n \<longleftrightarrow> m = n"
  by (simp add: from_secs_def)

lemma from_secs_pos [simp]: "0 < from_secs n \<longleftrightarrow> 0 < n"
  by (simp add: from_secs_def)

named_theorems wire_simps "facts about byte encodings"
named_theorems inv_intros "an operation keeps the invariant of its component"
named_theorems frame_simps "fields an operation leaves alone"

section \<open>Errors by value\<close>

text \<open>The question-mark operator of Rust: stop at the first error.\<close>

definition and_then :: "'e + 'a \<Rightarrow> ('a \<Rightarrow> 'e + 'b) \<Rightarrow> 'e + 'b" where
  "and_then r f = (case r of Inl e \<Rightarrow> Inl e | Inr a \<Rightarrow> f a)"

definition map_err :: "('e \<Rightarrow> 'f) \<Rightarrow> 'e + 'a \<Rightarrow> 'f + 'a" where
  "map_err g r = (case r of Inl e \<Rightarrow> Inl (g e) | Inr a \<Rightarrow> Inr a)"

definition ok_or :: "'e \<Rightarrow> 'a option \<Rightarrow> 'e + 'a" where
  "ok_or e x = (case x of None \<Rightarrow> Inl e | Some a \<Rightarrow> Inr a)"

definition is_ok :: "'e + 'a \<Rightarrow> bool" where
  "is_ok r = (case r of Inl _ \<Rightarrow> False | Inr _ \<Rightarrow> True)"

lemma and_then_simps [simp]:
  "and_then (Inl e) f = Inl e"
  "and_then (Inr a) f = f a"
  by (simp_all add: and_then_def)

lemma map_err_simps [simp]:
  "map_err g (Inl e) = Inl (g e)"
  "map_err g (Inr a) = Inr a"
  by (simp_all add: map_err_def)

lemma ok_or_simps [simp]:
  "ok_or e None = Inl e"
  "ok_or e (Some a) = Inr a"
  by (simp_all add: ok_or_def)

lemma is_ok_simps [simp]:
  "is_ok (Inl e) = False"
  "is_ok (Inr a) = True"
  by (simp_all add: is_ok_def)

lemma and_then_Inr_iff: "and_then r f = Inr b \<longleftrightarrow> (\<exists>a. r = Inr a \<and> f a = Inr b)"
  by (cases r) auto

lemma and_then_Inl_iff:
  "and_then r f = Inl e \<longleftrightarrow> r = Inl e \<or> (\<exists>a. r = Inr a \<and> f a = Inl e)"
  by (cases r) auto

lemma map_err_Inr_iff [simp]: "map_err g r = Inr a \<longleftrightarrow> r = Inr a"
  by (cases r) auto

lemma map_err_Inl_iff: "map_err g r = Inl e \<longleftrightarrow> (\<exists>d. r = Inl d \<and> e = g d)"
  by (cases r) auto

lemma ok_or_Inr_iff [simp]: "ok_or e x = Inr a \<longleftrightarrow> x = Some a"
  by (cases x) auto

lemma ok_or_Inl_iff: "ok_or e x = Inl d \<longleftrightarrow> x = None \<and> d = e"
  by (cases x) auto

lemma is_ok_iff: "is_ok r \<longleftrightarrow> (\<exists>a. r = Inr a)"
  by (cases r) auto

text \<open>\<^verbatim>\<open>collect::<Result<Vec<_>, _>>()\<close>: the results in order, or the first error.\<close>

fun traverse :: "('a \<Rightarrow> 'e + 'b) \<Rightarrow> 'a list \<Rightarrow> 'e + 'b list" where
  "traverse f [] = Inr []"
| "traverse f (x # xs) = and_then (f x) (\<lambda>y. and_then (traverse f xs) (\<lambda>ys. Inr (y # ys)))"

lemma traverse_Inr_iff: "traverse f xs = Inr ys \<longleftrightarrow> list_all2 (\<lambda>x y. f x = Inr y) xs ys"
  by (induction xs arbitrary: ys) (auto simp: and_then_Inr_iff list_all2_Cons1)

lemma traverse_map: "traverse f (map g xs) = traverse (\<lambda>x. f (g x)) xs"
  by (induction xs) simp_all

lemma traverse_id: "(\<And>x. x \<in> set xs \<Longrightarrow> f x = Inr x) \<Longrightarrow> traverse f xs = Inr xs"
  by (induction xs) simp_all

lemmas result_iffs = and_then_Inr_iff and_then_Inl_iff map_err_Inl_iff ok_or_Inl_iff is_ok_iff

section \<open>Unsigned arithmetic of the standard library\<close>

definition saturating_sub :: "'a::len word \<Rightarrow> 'a word \<Rightarrow> 'a word" where
  "saturating_sub a b = (if a < b then 0 else a - b)"

definition abs_diff :: "'a::len word \<Rightarrow> 'a word \<Rightarrow> 'a word" where
  "abs_diff a b = (if a < b then b - a else a - b)"

lemma unat_saturating_sub: "unat (saturating_sub a b) = unat a - unat b"
  by (simp add: saturating_sub_def unat_sub word_less_nat_alt word_le_nat_alt not_less)

lemma unat_abs_diff:
  "unat (abs_diff a b) = (if unat a < unat b then unat b - unat a else unat a - unat b)"
  by (simp add: abs_diff_def unat_sub word_less_nat_alt word_le_nat_alt not_less)

lemma abs_diff_commute: "abs_diff a b = abs_diff b a"
  by (auto simp: abs_diff_def)

lemma abs_diff_self [simp]: "abs_diff a a = 0"
  by (simp add: abs_diff_def)

lemma saturating_sub_self [simp]: "saturating_sub a a = 0"
  by (simp add: saturating_sub_def)

lemma unat_abs_diff_le_iff:
  "abs_diff a b \<le> c \<longleftrightarrow> unat a \<le> unat b + unat c \<and> unat b \<le> unat a + unat c"
  by (auto simp: word_le_nat_alt unat_abs_diff)

lemma saturating_sub_le_iff: "saturating_sub a b \<le> c \<longleftrightarrow> unat a \<le> unat b + unat c"
  by (auto simp: word_le_nat_alt unat_saturating_sub)

section \<open>Big-endian bytes of an unsigned integer\<close>

text \<open>\<open>to_be_bytes n w\<close>: the \<open>n\<close> low-order bytes of \<open>w\<close>, most significant first.\<close>

primrec to_be_bytes :: "nat \<Rightarrow> 'a::len word \<Rightarrow> bytes" where
  "to_be_bytes 0 w = []"
| "to_be_bytes (Suc n) w = ucast (drop_bit (8 * n) w) # to_be_bytes n w"

primrec from_be_bytes :: "bytes \<Rightarrow> nat" where
  "from_be_bytes [] = 0"
| "from_be_bytes (b # bs) = unat b * 256 ^ length bs + from_be_bytes bs"

lemma length_to_be_bytes [simp, wire_simps]: "length (to_be_bytes n w) = n"
  by (induction n) auto

lemma unat_byte_of_word:
  "unat (ucast (drop_bit k (w :: 'a::len word)) :: u8) = (unat w div 2 ^ k) mod 256"
proof -
  have "unat (drop_bit k w) = unat w div 2 ^ k"
    by (rule unat_drop_bit_eq [THEN trans]) (simp only: drop_bit_eq_div)
  then show ?thesis
    by (simp only: unsigned_ucast_eq take_bit_eq_mod) simp
qed

lemma from_be_to_be_bytes:
  "from_be_bytes (to_be_bytes n (w :: 'a::len word)) = unat w mod 256 ^ n"
proof (induction n)
  case 0
  then show ?case by simp
next
  case (Suc n)
  have p: "(2::nat) ^ (8 * n) = 256 ^ n"
    by (simp add: power_mult)
  have "from_be_bytes (to_be_bytes (Suc n) w)
      = (unat w div 256 ^ n) mod 256 * 256 ^ n + unat w mod 256 ^ n"
    by (simp add: Suc.IH unat_byte_of_word p del: unsigned_ucast_eq)
  also have "\<dots> = unat w mod (256 ^ n * 256)"
    by (simp add: mod_mult2_eq)
  finally show ?case by (simp add: mult.commute)
qed

lemma to_be_bytes_inj:
  fixes v w :: "'a::len word"
  assumes "to_be_bytes n v = to_be_bytes n w" and "LENGTH('a) \<le> 8 * n"
  shows "v = w"
proof -
  have le: "(2::nat) ^ LENGTH('a) \<le> 256 ^ n"
  proof -
    have "(2::nat) ^ LENGTH('a) \<le> 2 ^ (8 * n)"
      using assms(2) by (rule power_increasing) simp
    then show ?thesis by (simp add: power_mult)
  qed
  have small: "unat (x :: 'a word) < 256 ^ n" for x
    using unsigned_less [of x] le by (rule less_le_trans)
  have "unat v mod 256 ^ n = unat w mod 256 ^ n"
    using assms(1) by (metis from_be_to_be_bytes)
  then have "unat v = unat w"
    by (simp add: small)
  then show ?thesis by (simp add: word_unat_eq_iff)
qed

lemma from_be_bytes_bound: "from_be_bytes bs < 256 ^ length bs"
proof (induction bs)
  case Nil
  then show ?case by simp
next
  case (Cons b bs)
  have "unat b \<le> 255"
    using unsigned_less [of b, where 'a = nat] by simp
  then have "unat b * 256 ^ length bs \<le> 255 * 256 ^ length bs"
    by (rule mult_le_mono1)
  then have "unat b * 256 ^ length bs + from_be_bytes bs < 256 * 256 ^ length bs"
    using Cons.IH by linarith
  then show ?case by simp
qed

section \<open>Lists\<close>

lemma filter_length_mono: "(\<And>x. P x \<Longrightarrow> Q x) \<Longrightarrow> length (filter P xs) \<le> length (filter Q xs)"
  by (induction xs) auto

lemma filter_subsumed: "(\<And>x. x \<in> set xs \<Longrightarrow> P x \<Longrightarrow> Q x) \<Longrightarrow> filter P (filter Q xs) = filter P xs"
  by (induction xs) auto

end
