(* ===== verification/Hash_Map.thy ===== *)
theory Hash_Map imports Nux_Prelude begin

text \<open>
  The model of \<^verbatim>\<open>std::collections::HashMap\<close>. The code never depends on iteration order, so a map
  is an association list whose keys are distinct; every operation the code calls is one
  definition. The interface of a finite map is the locale \<open>map_interface\<close>; it is
  interpreted here on the hash map and, in \<open>Whitelist\<close>, on the whitelist, whose
  \<^verbatim>\<open>allow\<close>/\<^verbatim>\<open>revoke\<close>/\<^verbatim>\<open>roles\<close> obey the same laws.
\<close>

section \<open>The interface\<close>

locale map_interface =
  fixes empty :: "'m"
    and insert :: "'k \<Rightarrow> 'v \<Rightarrow> 'm \<Rightarrow> 'm"
    and remove :: "'k \<Rightarrow> 'm \<Rightarrow> 'm"
    and get :: "'m \<Rightarrow> 'k \<Rightarrow> 'v option"
    and wf :: "'m \<Rightarrow> bool"
  assumes get_empty: "get empty k = None"
    and get_insert: "wf m \<Longrightarrow> get (insert k v m) k' = (if k' = k then Some v else get m k')"
    and get_remove: "wf m \<Longrightarrow> get (remove k m) k' = (if k' = k then None else get m k')"
    and wf_empty: "wf empty"
    and wf_insert: "wf m \<Longrightarrow> wf (insert k v m)"
    and wf_remove: "wf m \<Longrightarrow> wf (remove k m)"
begin

lemma get_insert_same: "wf m \<Longrightarrow> get (insert k v m) k = Some v"
  by (simp add: get_insert)

lemma get_insert_other: "wf m \<Longrightarrow> k' \<noteq> k \<Longrightarrow> get (insert k v m) k' = get m k'"
  by (simp add: get_insert)

lemma get_remove_same: "wf m \<Longrightarrow> get (remove k m) k = None"
  by (simp add: get_remove)

lemma get_remove_other: "wf m \<Longrightarrow> k' \<noteq> k \<Longrightarrow> get (remove k m) k' = get m k'"
  by (simp add: get_remove)

lemma wf_fold_insert: "wf m \<Longrightarrow> wf (fold (\<lambda>(k, v). insert k v) kvs m)"
  by (induction kvs arbitrary: m) (auto intro: wf_insert)

text \<open>Inserting a list of pairs in order: for each key the last pair wins.\<close>

lemma get_fold_insert:
  "wf m \<Longrightarrow> get (fold (\<lambda>(k, v). insert k v) kvs m) k =
     (case map_of (rev kvs) k of Some v \<Rightarrow> Some v | None \<Rightarrow> get m k)"
proof (induction kvs arbitrary: m)
  case Nil
  then show ?case by simp
next
  case (Cons kv kvs)
  obtain a b where kv: "kv = (a, b)" by (cases kv)
  from Cons.prems have "wf (insert a b m)" by (rule wf_insert)
  then show ?case
    by (simp add: kv Cons.IH Cons.prems get_insert map_add_def split: option.splits)
qed

lemma get_fold_insert_empty:
  "get (fold (\<lambda>(k, v). insert k v) kvs empty) k = map_of (rev kvs) k"
  by (simp add: get_fold_insert wf_empty get_empty split: option.splits)

lemma wf_fold_remove: "wf m \<Longrightarrow> wf (fold remove ks m)"
  by (induction ks arbitrary: m) (auto intro: wf_remove)

lemma get_fold_remove:
  "wf m \<Longrightarrow> get (fold remove ks m) k = (if k \<in> set ks then None else get m k)"
  by (induction ks arbitrary: m) (auto simp: get_remove wf_remove)

end

section \<open>The hash map\<close>

type_synonym ('k, 'v) hash_map = "('k \<times> 'v) list"

definition hm_empty :: "('k, 'v) hash_map" where
  "hm_empty = []"

definition hm_get :: "('k, 'v) hash_map \<Rightarrow> 'k \<Rightarrow> 'v option" where
  "hm_get m k = map_of m k"

definition hm_insert :: "'k \<Rightarrow> 'v \<Rightarrow> ('k, 'v) hash_map \<Rightarrow> ('k, 'v) hash_map" where
  "hm_insert k v m = AList.update k v m"

definition hm_remove :: "'k \<Rightarrow> ('k, 'v) hash_map \<Rightarrow> ('k, 'v) hash_map" where
  "hm_remove k m = filter (\<lambda>(k', _). k' \<noteq> k) m"

definition hm_contains_key :: "('k, 'v) hash_map \<Rightarrow> 'k \<Rightarrow> bool" where
  "hm_contains_key m k = (case hm_get m k of None \<Rightarrow> False | Some _ \<Rightarrow> True)"

definition hm_len :: "('k, 'v) hash_map \<Rightarrow> nat" where
  "hm_len m = length m"

definition hm_keys :: "('k, 'v) hash_map \<Rightarrow> 'k list" where
  "hm_keys m = map fst m"

text \<open>\<^verbatim>\<open>retain\<close> with a closure that may also update the value it inspects.\<close>

definition hm_retain :: "('k \<Rightarrow> 'v \<Rightarrow> 'v \<times> bool) \<Rightarrow> ('k, 'v) hash_map \<Rightarrow> ('k, 'v) hash_map" where
  "hm_retain f m =
     List.map_filter (\<lambda>(k, v). case f k v of (v', keep) \<Rightarrow> if keep then Some (k, v') else None) m"

definition hm_wf :: "('k, 'v) hash_map \<Rightarrow> bool" where
  "hm_wf m = distinct (map fst m)"

lemma hm_get_remove: "hm_get (hm_remove k m) k' = (if k' = k then None else hm_get m k')"
  by (induction m) (auto simp: hm_get_def hm_remove_def)

lemma hm_wf_remove: "hm_wf m \<Longrightarrow> hm_wf (hm_remove k m)"
  by (induction m) (auto simp: hm_wf_def hm_remove_def)

interpretation hm: map_interface hm_empty hm_insert hm_remove hm_get hm_wf
  by unfold_locales
    (auto simp: hm_get_remove hm_wf_remove, auto simp: hm_get_def hm_insert_def hm_empty_def hm_wf_def
      update_conv' distinct_update)

declare hm.get_empty [simp] hm.wf_empty [simp] hm_get_remove [simp]

lemma hm_get_insert [simp]: "hm_get (hm_insert k v m) k' = (if k' = k then Some v else hm_get m k')"
  by (simp add: hm_get_def hm_insert_def update_conv')

lemma hm_wf_insert [simp, intro]: "hm_wf m \<Longrightarrow> hm_wf (hm_insert k v m)"
  by (rule hm.wf_insert)

lemma hm_wf_remove' [simp, intro]: "hm_wf m \<Longrightarrow> hm_wf (hm_remove k m)"
  by (rule hm.wf_remove)

lemma hm_contains_key_iff [simp]: "hm_contains_key m k \<longleftrightarrow> hm_get m k \<noteq> None"
  by (cases "hm_get m k") (simp_all add: hm_contains_key_def)

lemma set_hm_keys: "set (hm_keys m) = {k. hm_get m k \<noteq> None}"
  by (auto simp: hm_keys_def hm_get_def map_of_eq_None_iff)

lemma hm_keys_iff: "k \<in> set (hm_keys m) \<longleftrightarrow> hm_get m k \<noteq> None"
  by (simp add: set_hm_keys)

lemma hm_len_insert:
  "hm_len (hm_insert k v m) = (if hm_get m k = None then Suc (hm_len m) else hm_len m)"
  by (induction m) (auto simp: hm_len_def hm_insert_def hm_get_def)

lemma hm_len_empty [simp]: "hm_len hm_empty = 0"
  by (simp add: hm_len_def hm_empty_def)

lemma hm_len_remove_le: "hm_len (hm_remove k m) \<le> hm_len m"
  by (simp add: hm_len_def hm_remove_def)

lemma hm_len_retain_le: "hm_len (hm_retain f m) \<le> hm_len m"
  by (induction m) (auto simp: hm_len_def hm_retain_def map_filter_simps split: prod.splits)

lemma hm_keys_retain_subset: "fst ` set (hm_retain f m) \<subseteq> fst ` set m"
  by (induction m) (auto simp: hm_retain_def map_filter_simps split: prod.splits if_splits)

lemma hm_retain_Nil [simp]: "hm_retain f [] = []"
  by (simp add: hm_retain_def map_filter_simps)

lemma hm_retain_Cons [simp]:
  "hm_retain f ((k, v) # m) =
     (case f k v of (v', keep) \<Rightarrow> if keep then (k, v') # hm_retain f m else hm_retain f m)"
  by (auto simp: hm_retain_def map_filter_simps split: prod.splits)

lemma hm_wf_retain [simp, intro]: "hm_wf m \<Longrightarrow> hm_wf (hm_retain f m)"
proof (induction m)
  case Nil
  then show ?case by simp
next
  case (Cons a m)
  obtain k v where a: "a = (k, v)" by (cases a)
  from Cons.prems have "k \<notin> fst ` set (hm_retain f m)"
    using hm_keys_retain_subset [of f m] by (auto simp: hm_wf_def a)
  with Cons show ?case
    by (simp add: a hm_wf_def split: prod.splits)
qed

lemma hm_get_retain:
  "hm_wf m \<Longrightarrow> hm_get (hm_retain f m) k =
     (case hm_get m k of
        None \<Rightarrow> None
      | Some v \<Rightarrow> (case f k v of (v', keep) \<Rightarrow> if keep then Some v' else None))"
proof (induction m)
  case Nil
  then show ?case by (simp add: hm_get_def)
next
  case (Cons a m)
  have none: "map_of (hm_retain f m) x = None" if "x \<notin> fst ` set m" for x
    using that hm_keys_retain_subset [of f m] by (auto simp: map_of_eq_None_iff)
  show ?case
  proof (cases a)
    case (Pair x y)
    with Cons none [of x] show ?thesis
      by (auto simp: hm_get_def hm_wf_def split: prod.splits option.splits)
  qed
qed

lemma hm_len_keys: "hm_len m = length (hm_keys m)"
  by (simp add: hm_len_def hm_keys_def)

lemma hm_card_keys: "hm_wf m \<Longrightarrow> card {k. hm_get m k \<noteq> None} = hm_len m"
  by (metis distinct_card hm_keys_def hm_len_keys hm_wf_def set_hm_keys)

text \<open>A map whose keys all lie in another map is no larger than that map.\<close>

lemma hm_len_mono:
  assumes "hm_wf m" "hm_wf n" "\<And>k. hm_get m k \<noteq> None \<Longrightarrow> hm_get n k \<noteq> None"
  shows "hm_len m \<le> hm_len n"
proof -
  have "finite {k. hm_get n k \<noteq> None}"
    by (metis List.finite_set set_hm_keys)
  then have "card {k. hm_get m k \<noteq> None} \<le> card {k. hm_get n k \<noteq> None}"
    using assms(3) by (intro card_mono) auto
  with assms(1,2) show ?thesis by (simp only: hm_card_keys)
qed

end
