(* ===== verification/Messages.thy ===== *)
theory Messages imports Hash_Map begin

text \<open>
  The identities and the wire messages: \<^verbatim>\<open>crates/nux-core/src/protocol/mod.rs\<close> (message types,
  sizes, \<open>challenge_payload\<close>) and \<^verbatim>\<open>crates/nux-core/src/error.rs\<close> (the unified error).

  A libp2p \<^verbatim>\<open>PeerId\<close> is a multihash and two of them are equal when their byte forms are; the
  type \<open>peer_id\<close> is that byte form and \<open>to_bytes\<close> reads it. Arrays \<^verbatim>\<open>[u8; N]\<close> are byte lists
  whose length is stated where it matters.
\<close>

section \<open>Identities and addresses\<close>

datatype peer_id = PeerId (to_bytes: bytes)

datatype ip_addr = V4 u32 | V6 "128 word"

type_synonym socket_addr = "ip_addr \<times> u16"
type_synonym role = string

definition localhost :: ip_addr where
  "localhost = V4 0x7F000001"

section \<open>Messages of the two protocols\<close>

definition NONCE_LEN :: nat where
  "NONCE_LEN = 32"

definition SHA256_LEN :: nat where
  "SHA256_LEN = 32"

definition MAX_TUNNEL_HEADER_SIZE :: nat where
  "MAX_TUNNEL_HEADER_SIZE = 1024"

definition TUNNEL_ACK :: u8 where
  "TUNNEL_ACK = 0x01"

record tunnel_header =
  service :: string
  binary_sha256 :: bytes

datatype nux_request =
    HandshakeInit
  | ChallengeAnswer (ca_signature: bytes) (ca_timestamp: u64)

datatype nux_response =
    Challenge (ch_nonce: bytes) (ch_timestamp: u64)
  | AccessGranted (ag_roles: "role list")
  | Denied

text \<open>\<^verbatim>\<open>nonce || timestamp\<close>, the timestamp on 8 bytes, most significant first.\<close>

definition challenge_payload :: "bytes \<Rightarrow> u64 \<Rightarrow> bytes" where
  "challenge_payload nonce timestamp = nonce @ to_be_bytes 8 timestamp"

lemma length_challenge_payload [wire_simps]:
  "length nonce = NONCE_LEN \<Longrightarrow> length (challenge_payload nonce ts) = NONCE_LEN + 8"
  by (simp add: challenge_payload_def)

text \<open>A payload determines the nonce and the timestamp it was built from.\<close>

lemma challenge_payload_inj:
  assumes "challenge_payload n t = challenge_payload n' t'"
  shows "n = n' \<and> t = t'"
proof -
  have split: "n = n'" "to_be_bytes 8 t = to_be_bytes 8 t'"
    using assms by (auto simp: challenge_payload_def append_eq_append_conv)
  from split(2) have "t = t'" by (rule to_be_bytes_inj) simp
  with split(1) show ?thesis by simp
qed

section \<open>Errors\<close>

datatype io_error_kind = InvalidData | UnexpectedEof | BrokenPipe | NotFound
  | PermissionDenied | AlreadyExists | AddrInUse | ConnectionRefused | WouldBlock | OtherIo

datatype io_error = IoError (kind: io_error_kind) (reason: string)

text \<open>
  The constructors of \<^verbatim>\<open>NuxError\<close>. Where the source formats a message, the payload keeps
  the values the message interpolates; \<open>LibError\<close> is a library's own error text.
\<close>

datatype diagnostic =
    LibError string
  | KeyLength nat
  | KeyVariableMissing string
  | KeyHexInvalid
  | KeyFileInvalid string diagnostic
  | KeyVariableInvalid string diagnostic
  | OnlyEd25519
  | HeaderTooLong nat
  | UnexpectedAck u8
  | UnexpectedResponse nux_response
  | RelayLostBeforeReservation
  | RegistrationRefused string
  | DiscoveryFailed string
  | NoPeerRegistered string
  | NoPeerReachable string
  | FieldInvalid string string diagnostic
  | WindowSecsZero
  | DuplicateService string
  | NamespaceTooLong string
  | NamespaceNeedsRelay

datatype nux_error =
    Identity diagnostic
  | InsecureKeyPermissions string u32
  | Io io_error
  | Network diagnostic
  | Transport diagnostic
  | Dial diagnostic
  | AccessDenied
  | Protocol diagnostic
  | Tunnel diagnostic
  | Config diagnostic

end
