(* ===== verification/Whitelist.thy ===== *)
theory Whitelist imports Messages begin

text \<open>
  \<^verbatim>\<open>crates/nux-core/src/auth/whitelist.rs\<close>: the list of authorised peers and their roles. The
  entries stay a list, in insertion order, as in the code. \<open>roles\<close> keeps the shape of
  the constant-time loop: an index accumulator and no early exit; \<^verbatim>\<open>constant_time_eq\<close> answers
  byte equality. The three operations obey the laws of \<open>map_interface\<close>, and the clients
  of the whitelist rest on that interpretation, not on the list.
\<close>

record whitelist =
  entries :: "(peer_id \<times> role list) list"

definition whitelist_new :: whitelist where
  "whitelist_new = \<lparr>entries = []\<rparr>"

text \<open>\<^verbatim>\<open>iter_mut().find\<close>, then assignment: the first entry of the peer gets the new roles.\<close>

fun replace_first :: "peer_id \<Rightarrow> role list \<Rightarrow> (peer_id \<times> role list) list \<Rightarrow> (peer_id \<times> role list) list option" where
  "replace_first peer rs [] = None"
| "replace_first peer rs ((p, old) # es) =
     (if p = peer then Some ((p, rs) # es)
      else map_option (\<lambda>es'. (p, old) # es') (replace_first peer rs es))"

definition allow :: "peer_id \<Rightarrow> role list \<Rightarrow> whitelist \<Rightarrow> whitelist" where
  "allow peer rs w = (case replace_first peer rs (entries w) of
       Some es \<Rightarrow> w\<lparr>entries := es\<rparr>
     | None \<Rightarrow> w\<lparr>entries := entries w @ [(peer, rs)]\<rparr>)"

definition revoke :: "peer_id \<Rightarrow> whitelist \<Rightarrow> whitelist" where
  "revoke peer w = w\<lparr>entries := filter (\<lambda>(p, _). p \<noteq> peer) (entries w)\<rparr>"

text \<open>The loop of \<open>roles\<close>: every entry is visited, a match overwrites the found index.\<close>

fun roles_loop :: "bytes \<Rightarrow> nat \<Rightarrow> (peer_id \<times> role list) list \<Rightarrow> nat option \<Rightarrow> nat option" where
  "roles_loop needle index [] found = found"
| "roles_loop needle index ((candidate, _) # es) found =
     (let bs = to_bytes candidate;
          matches = (length bs = length needle \<and> bs = needle)
      in roles_loop needle (Suc index) es (if matches then Some index else found))"

definition roles :: "whitelist \<Rightarrow> peer_id \<Rightarrow> role list option" where
  "roles w peer =
     map_option (\<lambda>index. snd (entries w ! index)) (roles_loop (to_bytes peer) 0 (entries w) None)"

definition whitelist_len :: "whitelist \<Rightarrow> nat" where
  "whitelist_len w = length (entries w)"

definition whitelist_is_empty :: "whitelist \<Rightarrow> bool" where
  "whitelist_is_empty w = (entries w = [])"

definition whitelist_wf :: "whitelist \<Rightarrow> bool" where
  "whitelist_wf w = distinct (map fst (entries w))"

section \<open>Correctness of the lookup\<close>

lemma to_bytes_eq_iff: "to_bytes p = to_bytes q \<longleftrightarrow> p = q"
  by (metis peer_id.expand)

text \<open>The loop computes the last index whose candidate is the peer.\<close>

lemma roles_loop_snoc:
  "roles_loop needle i (es @ [(c, rs)]) found =
     (if to_bytes c = needle then Some (i + length es) else roles_loop needle i es found)"
  by (induction es arbitrary: i found) auto

lemma roles_loop_index:
  "roles_loop (to_bytes peer) i es found = Some k \<Longrightarrow> found = None \<Longrightarrow>
     i \<le> k \<and> k < i + length es \<and> fst (es ! (k - i)) = peer"
proof (induction es arbitrary: k rule: rev_induct)
  case Nil
  then show ?case by simp
next
  case (snoc e es)
  obtain c rs where e: "e = (c, rs)" by (cases e)
  show ?case
  proof (cases "c = peer")
    case True
    with snoc.prems show ?thesis by (auto simp: e roles_loop_snoc)
  next
    case False
    with snoc.prems have "roles_loop (to_bytes peer) i es found = Some k"
      by (simp add: e roles_loop_snoc to_bytes_eq_iff)
    from snoc.IH [OF this snoc.prems(2)] show ?thesis
      by (auto simp: nth_append)
  qed
qed

lemma roles_map_of_rev: "roles w peer = map_of (rev (entries w)) peer"
proof -
  have "map_option (\<lambda>k. snd (es ! k)) (roles_loop (to_bytes peer) 0 es None) = map_of (rev es) peer" for es
  proof (induction es rule: rev_induct)
    case Nil
    then show ?case by simp
  next
    case (snoc e es)
    obtain c rs where e: "e = (c, rs)" by (cases e)
    show ?case
    proof (cases "c = peer")
      case True
      then show ?thesis by (simp add: e roles_loop_snoc)
    next
      case False
      then have same: "roles_loop (to_bytes peer) 0 (es @ [e]) None = roles_loop (to_bytes peer) 0 es None"
        by (simp add: e roles_loop_snoc to_bytes_eq_iff)
      have "map_option (\<lambda>k. snd ((es @ [e]) ! k)) (roles_loop (to_bytes peer) 0 es None)
          = map_option (\<lambda>k. snd (es ! k)) (roles_loop (to_bytes peer) 0 es None)"
        using roles_loop_index [of peer 0 es None]
        by (cases "roles_loop (to_bytes peer) 0 es None") (auto simp: nth_append)
      with same have "map_option (\<lambda>k. snd ((es @ [e]) ! k)) (roles_loop (to_bytes peer) 0 (es @ [e]) None)
          = map_option (\<lambda>k. snd (es ! k)) (roles_loop (to_bytes peer) 0 es None)"
        by simp
      with False snoc.IH show ?thesis by (simp add: e)
    qed
  qed
  then show ?thesis by (simp add: roles_def)
qed

lemma map_of_rev_distinct:
  assumes "distinct (map fst es)"
  shows "map_of (rev es) k = map_of es k"
proof -
  have "map_of (rev es) k = Some v \<longleftrightarrow> map_of es k = Some v" for v
    using assms map_of_eq_Some_iff [of "rev es" k v] by (simp add: rev_map [symmetric])
  then show ?thesis by (metis not_Some_eq)
qed

lemma roles_eq_map_of: "whitelist_wf w \<Longrightarrow> roles w peer = map_of (entries w) peer"
  by (simp add: roles_map_of_rev whitelist_wf_def map_of_rev_distinct)

section \<open>The whitelist as a map from peers to roles\<close>

lemma replace_first_map_of:
  "replace_first peer rs es = Some es' \<Longrightarrow>
     map_of es' p = (if p = peer then Some rs else map_of es p) \<and> map fst es' = map fst es"
  by (induction es arbitrary: es') (auto split: if_splits)

lemma replace_first_None: "replace_first peer rs es = None \<longleftrightarrow> peer \<notin> fst ` set es"
  by (induction es) (auto split: if_splits)

lemma whitelist_wf_allow: "whitelist_wf w \<Longrightarrow> whitelist_wf (allow peer rs w)"
  using replace_first_None [of peer rs "entries w"] replace_first_map_of [of peer rs "entries w"]
  by (auto simp: allow_def whitelist_wf_def split: option.splits)

lemma whitelist_wf_revoke: "whitelist_wf w \<Longrightarrow> whitelist_wf (revoke peer w)"
  by (simp add: revoke_def whitelist_wf_def distinct_map_filter)

lemma map_of_filter_key:
  "map_of (filter (\<lambda>(p, _). p \<noteq> peer) es) q = (if q = peer then None else map_of es q)"
  by (induction es) auto

lemma roles_allow:
  assumes "whitelist_wf w"
  shows "roles (allow peer rs w) q = (if q = peer then Some rs else roles w q)"
proof (cases "replace_first peer rs (entries w)")
  case None
  then have "map_of (entries w) peer = None"
    by (simp add: replace_first_None map_of_eq_None_iff)
  with None assms show ?thesis
    by (simp add: roles_eq_map_of whitelist_wf_allow) (auto simp: allow_def map_add_def split: option.splits)
next
  case (Some es)
  with assms replace_first_map_of [OF Some, of q] show ?thesis
    by (simp add: roles_eq_map_of whitelist_wf_allow) (auto simp: allow_def)
qed

lemma roles_revoke:
  assumes "whitelist_wf w"
  shows "roles (revoke peer w) q = (if q = peer then None else roles w q)"
  using assms
  by (simp add: roles_eq_map_of whitelist_wf_revoke) (simp add: revoke_def map_of_filter_key)

interpretation wl: map_interface whitelist_new allow revoke roles whitelist_wf
  by unfold_locales
    (simp_all add: roles_allow roles_revoke whitelist_wf_allow whitelist_wf_revoke,
      simp_all add: roles_def whitelist_new_def whitelist_wf_def)

declare wl.wf_empty [simp, inv_intros] wl.wf_insert [simp, inv_intros] wl.wf_remove [simp, inv_intros]

text \<open>A peer that was never listed does not show up by revoking others.\<close>

lemma roles_revoke_le: "whitelist_wf w \<Longrightarrow> roles (revoke peer w) q \<noteq> None \<Longrightarrow> roles w q \<noteq> None"
  by (auto simp: roles_revoke split: if_splits)

end
