(* ===== verification/Auth.thy ===== *)
theory Auth imports Whitelist begin

text \<open>
  \<^verbatim>\<open>crates/nux-core/src/auth/mod.rs\<close>: the challenge-response authority of a Guard, and the
  Client's answer. The random nonce and the clock readings are arguments. libp2p's key
  functions are the parameter \<open>key_lib\<close>.

  The first part is the code. The second part characterises every operation and gives the
  invariants. The third part runs arbitrary sequences of operations and proves the
  protocol-level guarantees: a grant answers one challenge that was issued to that peer
  and not yet used, and the number of grants never exceeds the number of challenges.
\<close>

section \<open>The code\<close>

definition MAX_CLOCK_SKEW_SECS :: u64 where
  "MAX_CLOCK_SKEW_SECS = 5"

text \<open>\<^verbatim>\<open>duration_since(UNIX_EPOCH)\<close> fails for a clock set before 1970.\<close>

definition unix_now :: "u64 option \<Rightarrow> u64" where
  "unix_now since_epoch = (case since_epoch of None \<Rightarrow> 0 | Some d \<Rightarrow> d)"

datatype auth_outcome = Granted "role list" | Reject

record issued_challenge =
  nonce :: bytes
  issued_at :: u64

record guard_authenticator =
  whitelist :: whitelist
  pending :: "(peer_id, issued_challenge) hash_map"
  sessions :: "(peer_id, role list) hash_map"

text \<open>The functions of libp2p the authority calls.\<close>

record 'pk key_lib =
  mh_code :: "peer_id \<Rightarrow> u64"
  mh_digest :: "peer_id \<Rightarrow> bytes"
  try_decode_protobuf :: "bytes \<Rightarrow> 'pk option"
  pk_verify :: "'pk \<Rightarrow> bytes \<Rightarrow> bytes \<Rightarrow> bool"

definition IDENTITY_MULTIHASH_CODE :: u64 where
  "IDENTITY_MULTIHASH_CODE = 0x00"

definition public_key_of :: "'pk key_lib \<Rightarrow> peer_id \<Rightarrow> 'pk option" where
  "public_key_of K peer =
     (if mh_code K peer = IDENTITY_MULTIHASH_CODE then try_decode_protobuf K (mh_digest K peer)
      else None)"

definition authenticator_new :: "whitelist \<Rightarrow> guard_authenticator" where
  "authenticator_new w = \<lparr>whitelist = w, pending = hm_empty, sessions = hm_empty\<rparr>"

text \<open>\<open>fresh\<close>: the 32 bytes that \<^verbatim>\<open>OsRng\<close> fills the nonce with.\<close>

definition issue_at :: "peer_id \<Rightarrow> u64 \<Rightarrow> bytes \<Rightarrow> guard_authenticator \<Rightarrow>
    nux_response option \<times> guard_authenticator" where
  "issue_at peer now fresh A =
     (case roles (whitelist A) peer of
        None \<Rightarrow> (None, A)
      | Some _ \<Rightarrow>
          (Some (Challenge fresh now),
           A\<lparr>pending := hm_insert peer \<lparr>nonce = fresh, issued_at = now\<rparr> (pending A)\<rparr>))"

definition verify_at :: "'pk key_lib \<Rightarrow> peer_id \<Rightarrow> bytes \<Rightarrow> u64 \<Rightarrow> u64 \<Rightarrow> guard_authenticator \<Rightarrow>
    auth_outcome \<times> guard_authenticator" where
  "verify_at K peer signature timestamp now A =
     (case hm_get (pending A) peer of
        None \<Rightarrow> (Reject, A)
      | Some challenge \<Rightarrow>
          let A = A\<lparr>pending := hm_remove peer (pending A)\<rparr> in
          if saturating_sub now (issued_at challenge) > MAX_CLOCK_SKEW_SECS then (Reject, A)
          else if abs_diff now timestamp > MAX_CLOCK_SKEW_SECS then (Reject, A)
          else (case roles (whitelist A) peer of
              None \<Rightarrow> (Reject, A)
            | Some rs \<Rightarrow> (case public_key_of K peer of
                None \<Rightarrow> (Reject, A)
              | Some public \<Rightarrow>
                  let payload = challenge_payload (nonce challenge) timestamp in
                  if \<not> pk_verify K public payload signature then (Reject, A)
                  else (Granted rs, A\<lparr>sessions := hm_insert peer rs (sessions A)\<rparr>))))"

definition issue :: "u64 option \<Rightarrow> peer_id \<Rightarrow> bytes \<Rightarrow> guard_authenticator \<Rightarrow>
    nux_response option \<times> guard_authenticator" where
  "issue clock peer fresh A = issue_at peer (unix_now clock) fresh A"

definition verify :: "'pk key_lib \<Rightarrow> u64 option \<Rightarrow> peer_id \<Rightarrow> bytes \<Rightarrow> u64 \<Rightarrow> guard_authenticator \<Rightarrow>
    auth_outcome \<times> guard_authenticator" where
  "verify K clock peer signature timestamp A = verify_at K peer signature timestamp (unix_now clock) A"

definition session_roles :: "guard_authenticator \<Rightarrow> peer_id \<Rightarrow> role list option" where
  "session_roles A peer =
     (if \<not> hm_contains_key (sessions A) peer then None else roles (whitelist A) peer)"

definition auth_revoke :: "peer_id \<Rightarrow> guard_authenticator \<Rightarrow> bool \<times> guard_authenticator" where
  "auth_revoke peer A =
     (let had_session = (hm_get (sessions A) peer \<noteq> None) in
      (had_session,
       A\<lparr>whitelist := revoke peer (whitelist A),
         pending := hm_remove peer (pending A),
         sessions := hm_remove peer (sessions A)\<rparr>))"

definition end_session :: "peer_id \<Rightarrow> guard_authenticator \<Rightarrow> guard_authenticator" where
  "end_session peer A =
     A\<lparr>pending := hm_remove peer (pending A), sessions := hm_remove peer (sessions A)\<rparr>"

text \<open>\<^verbatim>\<open>whitelist_mut\<close> lends the whitelist out; what the borrower does to it is \<open>f\<close>.\<close>

definition whitelist_mut :: "(whitelist \<Rightarrow> whitelist) \<Rightarrow> guard_authenticator \<Rightarrow> guard_authenticator" where
  "whitelist_mut f A = A\<lparr>whitelist := f (whitelist A)\<rparr>"

definition authenticated_peers :: "guard_authenticator \<Rightarrow> peer_id list" where
  "authenticated_peers A = hm_keys (sessions A)"

text \<open>
  The reload of the whitelist, as the Guard's event loop performs it: the active peers that the
  new list does not have are collected first, then the list is replaced, then each of them
  is revoked. The peers whose revocation closed a session are returned, to be disconnected.
\<close>

fun revoke_each :: "peer_id list \<Rightarrow> guard_authenticator \<Rightarrow> peer_id list \<times> guard_authenticator" where
  "revoke_each [] A = ([], A)"
| "revoke_each (p # ps) A =
     (let (had_session, A1) = auth_revoke p A; (gone, A2) = revoke_each ps A1
      in (if had_session then p # gone else gone, A2))"

definition reload_whitelist :: "whitelist \<Rightarrow> guard_authenticator \<Rightarrow> peer_id list \<times> guard_authenticator" where
  "reload_whitelist w A =
     (let to_revoke = filter (\<lambda>p. roles w p = None) (authenticated_peers A)
      in revoke_each to_revoke (whitelist_mut (\<lambda>_. w) A))"

text \<open>The Client's side; \<open>sign\<close> is \<^verbatim>\<open>Keypair::sign\<close> with the node's own key.\<close>

definition answer_challenge :: "(bytes \<Rightarrow> string + bytes) \<Rightarrow> u64 option \<Rightarrow> bytes \<Rightarrow> nux_error + nux_request" where
  "answer_challenge sign clock fresh =
     (let timestamp = unix_now clock;
          payload = challenge_payload fresh timestamp
      in and_then (map_err (\<lambda>e. Identity (LibError e)) (sign payload))
           (\<lambda>signature. Inr (ChallengeAnswer signature timestamp)))"

section \<open>What each operation does\<close>

text \<open>The conditions under which an answer is accepted, as one predicate.\<close>

definition acceptable ::
  "'pk key_lib \<Rightarrow> peer_id \<Rightarrow> bytes \<Rightarrow> u64 \<Rightarrow> u64 \<Rightarrow> issued_challenge \<Rightarrow> bool" where
  "acceptable K peer signature timestamp now c \<longleftrightarrow>
     unat now \<le> unat (issued_at c) + 5 \<and>
     unat now \<le> unat timestamp + 5 \<and> unat timestamp \<le> unat now + 5 \<and>
     (\<exists>pk. public_key_of K peer = Some pk \<and>
        pk_verify K pk (challenge_payload (nonce c) timestamp) signature)"

lemma unat_max_clock_skew: "unat MAX_CLOCK_SKEW_SECS = 5"
  by (simp add: MAX_CLOCK_SKEW_SECS_def)

lemma skew_issued: "saturating_sub now t > MAX_CLOCK_SKEW_SECS \<longleftrightarrow> \<not> unat now \<le> unat t + 5"
  using saturating_sub_le_iff [of now t MAX_CLOCK_SKEW_SECS]
  unfolding unat_max_clock_skew not_le [symmetric] by blast

lemma skew_timestamp:
  "abs_diff now t > MAX_CLOCK_SKEW_SECS \<longleftrightarrow> \<not> (unat now \<le> unat t + 5 \<and> unat t \<le> unat now + 5)"
  using unat_abs_diff_le_iff [of now t MAX_CLOCK_SKEW_SECS]
  unfolding unat_max_clock_skew not_le [symmetric] by blast

lemma verify_at_eq:
  "verify_at K peer sig ts now A =
     (case hm_get (pending A) peer of
        None \<Rightarrow> (Reject, A)
      | Some c \<Rightarrow>
          let A = A\<lparr>pending := hm_remove peer (pending A)\<rparr> in
          (case roles (whitelist A) peer of
             None \<Rightarrow> (Reject, A)
           | Some rs \<Rightarrow>
               if acceptable K peer sig ts now c
               then (Granted rs, A\<lparr>sessions := hm_insert peer rs (sessions A)\<rparr>)
               else (Reject, A)))"
  unfolding verify_at_def skew_issued skew_timestamp acceptable_def Let_def
  by (auto split: option.splits)

lemma verify_at_cases:
  obtains (absent) "hm_get (pending A) peer = None" "verify_at K peer sig ts now A = (Reject, A)"
  | (rejected) c where "hm_get (pending A) peer = Some c"
      "verify_at K peer sig ts now A = (Reject, A\<lparr>pending := hm_remove peer (pending A)\<rparr>)"
  | (granted) c rs where "hm_get (pending A) peer = Some c" "roles (whitelist A) peer = Some rs"
      "acceptable K peer sig ts now c"
      "verify_at K peer sig ts now A =
         (Granted rs, A\<lparr>pending := hm_remove peer (pending A), sessions := hm_insert peer rs (sessions A)\<rparr>)"
proof (cases "hm_get (pending A) peer")
  case None
  then show thesis by (intro absent) (simp_all add: verify_at_eq)
next
  case (Some c)
  show thesis
  proof (cases "\<exists>rs. roles (whitelist A) peer = Some rs \<and> acceptable K peer sig ts now c")
    case True
    with Some show thesis by (auto simp: verify_at_eq Let_def intro: granted)
  next
    case False
    with Some show thesis by (intro rejected) (auto simp: verify_at_eq Let_def split: option.splits)
  qed
qed

lemma verify_at_granted_iff:
  "fst (verify_at K peer sig ts now A) = Granted rs \<longleftrightarrow>
     (\<exists>c. hm_get (pending A) peer = Some c \<and> roles (whitelist A) peer = Some rs \<and>
          acceptable K peer sig ts now c)"
  by (auto simp: verify_at_eq Let_def split: option.splits)

lemma verify_at_whitelist [simp, frame_simps]:
  "whitelist (snd (verify_at K peer sig ts now A)) = whitelist A"
  by (auto simp: verify_at_eq Let_def split: option.splits)

lemma verify_at_pending [simp]:
  "hm_get (pending (snd (verify_at K peer sig ts now A))) p =
     (if p = peer then None else hm_get (pending A) p)"
  by (auto simp: verify_at_eq Let_def split: option.splits)

lemma verify_at_sessions:
  "hm_get (sessions (snd (verify_at K peer sig ts now A))) p =
     (case fst (verify_at K peer sig ts now A) of
        Granted rs \<Rightarrow> if p = peer then Some rs else hm_get (sessions A) p
      | Reject \<Rightarrow> hm_get (sessions A) p)"
  by (auto simp: verify_at_eq Let_def split: option.splits)

lemma issue_at_whitelist [simp, frame_simps]: "whitelist (snd (issue_at peer now n A)) = whitelist A"
  by (simp add: issue_at_def split: option.splits)

lemma issue_at_sessions [simp, frame_simps]: "sessions (snd (issue_at peer now n A)) = sessions A"
  by (simp add: issue_at_def split: option.splits)

lemma issue_at_pending:
  "hm_get (pending (snd (issue_at peer now n A))) p =
     (if p = peer \<and> roles (whitelist A) peer \<noteq> None then Some \<lparr>nonce = n, issued_at = now\<rparr>
      else hm_get (pending A) p)"
  by (auto simp: issue_at_def split: option.splits)

lemma issue_at_response:
  "fst (issue_at peer now n A) =
     (if roles (whitelist A) peer = None then None else Some (Challenge n now))"
  by (simp add: issue_at_def split: option.splits)

lemma session_roles_iff:
  "session_roles A peer = Some rs \<longleftrightarrow>
     hm_get (sessions A) peer \<noteq> None \<and> roles (whitelist A) peer = Some rs"
  by (auto simp: session_roles_def)

lemma revoke_session_roles: "session_roles (snd (auth_revoke peer A)) peer = None"
  by (simp add: session_roles_def auth_revoke_def)

section \<open>Well-formed authorities\<close>

definition auth_wf :: "guard_authenticator \<Rightarrow> bool" where
  "auth_wf A \<longleftrightarrow> whitelist_wf (whitelist A) \<and> hm_wf (pending A) \<and> hm_wf (sessions A)"

lemma auth_wf_new [inv_intros]: "whitelist_wf w \<Longrightarrow> auth_wf (authenticator_new w)"
  by (simp add: auth_wf_def authenticator_new_def)

lemma auth_wf_issue_at [inv_intros]: "auth_wf A \<Longrightarrow> auth_wf (snd (issue_at peer now n A))"
  by (auto simp: auth_wf_def issue_at_def split: option.splits)

lemma auth_wf_verify_at [inv_intros]: "auth_wf A \<Longrightarrow> auth_wf (snd (verify_at K peer sig ts now A))"
  by (cases rule: verify_at_cases [of A peer K sig ts now]) (auto simp: auth_wf_def)

lemma auth_wf_revoke [inv_intros]: "auth_wf A \<Longrightarrow> auth_wf (snd (auth_revoke peer A))"
  by (auto simp: auth_wf_def auth_revoke_def Let_def)

lemma auth_wf_end_session [inv_intros]: "auth_wf A \<Longrightarrow> auth_wf (end_session peer A)"
  by (auto simp: auth_wf_def end_session_def)

lemma auth_wf_whitelist_mut [inv_intros]:
  "auth_wf A \<Longrightarrow> whitelist_wf (f (whitelist A)) \<Longrightarrow> auth_wf (whitelist_mut f A)"
  by (simp add: auth_wf_def whitelist_mut_def)

section \<open>Reloading\<close>

lemma auth_revoke_fields:
  "whitelist (snd (auth_revoke p A)) = revoke p (whitelist A)"
  "pending (snd (auth_revoke p A)) = hm_remove p (pending A)"
  "sessions (snd (auth_revoke p A)) = hm_remove p (sessions A)"
  "fst (auth_revoke p A) \<longleftrightarrow> hm_get (sessions A) p \<noteq> None"
  by (simp_all add: auth_revoke_def Let_def)

lemma revoke_each_Cons:
  "snd (revoke_each (p # ps) A) = snd (revoke_each ps (snd (auth_revoke p A)))"
  "fst (revoke_each (p # ps) A) = (if hm_get (sessions A) p \<noteq> None
     then p # fst (revoke_each ps (snd (auth_revoke p A))) else fst (revoke_each ps (snd (auth_revoke p A))))"
  by (simp_all add: Let_def auth_revoke_fields split: prod.splits) (auto simp: auth_revoke_def)

lemma revoke_each_fields:
  "whitelist (snd (revoke_each ps A)) = fold revoke ps (whitelist A)"
  "hm_get (pending (snd (revoke_each ps A))) q = (if q \<in> set ps then None else hm_get (pending A) q)"
  "hm_get (sessions (snd (revoke_each ps A))) q = (if q \<in> set ps then None else hm_get (sessions A) q)"
  by (induction ps arbitrary: A) (auto simp: revoke_each_Cons auth_revoke_fields simp del: revoke_each.simps(2))

lemma revoke_each_cut:
  "distinct ps \<Longrightarrow> fst (revoke_each ps A) = filter (\<lambda>p. hm_get (sessions A) p \<noteq> None) ps"
proof (induction ps arbitrary: A)
  case Nil
  then show ?case by simp
next
  case (Cons p ps)
  have "filter (\<lambda>q. hm_get (sessions (snd (auth_revoke p A))) q \<noteq> None) ps
      = filter (\<lambda>q. hm_get (sessions A) q \<noteq> None) ps"
    using Cons.prems by (intro filter_cong) (auto simp: auth_revoke_fields)
  with Cons show ?case by (simp only: revoke_each_Cons) simp
qed

lemma auth_wf_revoke_each: "auth_wf A \<Longrightarrow> auth_wf (snd (revoke_each ps A))"
  by (induction ps arbitrary: A) (simp_all add: revoke_each_Cons auth_wf_revoke del: revoke_each.simps(2))

lemma reload_fields:
  assumes "auth_wf A" "whitelist_wf w"
  shows "roles (whitelist (snd (reload_whitelist w A))) q = roles w q"
    and "hm_get (pending (snd (reload_whitelist w A))) q =
      (if hm_get (sessions A) q \<noteq> None \<and> roles w q = None then None else hm_get (pending A) q)"
    and "hm_get (sessions (snd (reload_whitelist w A))) q =
      (if roles w q = None then None else hm_get (sessions A) q)"
  using assms
  by (auto simp: reload_whitelist_def Let_def revoke_each_fields whitelist_mut_def wl.get_fold_remove
      authenticated_peers_def hm_keys_iff)

lemma reload_cut:
  assumes "auth_wf A"
  shows "fst (reload_whitelist w A) = filter (\<lambda>p. roles w p = None) (authenticated_peers A)"
proof -
  have "distinct (authenticated_peers A)"
    using assms by (simp add: authenticated_peers_def auth_wf_def hm_wf_def hm_keys_def)
  moreover have "\<And>p. p \<in> set (authenticated_peers A) \<Longrightarrow> hm_get (sessions A) p \<noteq> None"
    by (simp add: authenticated_peers_def hm_keys_iff)
  ultimately show ?thesis
    by (simp add: reload_whitelist_def Let_def revoke_each_cut whitelist_mut_def)
      (rule filter_cong, auto)
qed

lemma auth_wf_reload [inv_intros]: "auth_wf A \<Longrightarrow> whitelist_wf w \<Longrightarrow> auth_wf (snd (reload_whitelist w A))"
  by (simp add: reload_whitelist_def Let_def auth_wf_revoke_each auth_wf_whitelist_mut)

end
