(* ===== verification/Machine.thy ===== *)
theory Machine imports Nux_Prelude begin

text \<open>
  Sequences of operations on a component. A component with a state and operations on it is
  run over a list of operations with \<open>fold\<close>. The locale \<open>machine\<close> is the contract "every
  admissible operation keeps the invariant"; each stateful component of the development
  interprets it on its own step function. The locale \<open>implementation\<close> is the contract "every step is a step
  of the specification". \<open>last_change\<close> finds, in a run, the operation that
  last gave an observable its present value.
\<close>

section \<open>Machines and their invariants\<close>

locale machine =
  fixes step :: "'op \<Rightarrow> 's \<Rightarrow> 's"
    and inv :: "'s \<Rightarrow> bool"
    and admissible :: "'op \<Rightarrow> bool"
  assumes inv_step: "inv s \<Longrightarrow> admissible op \<Longrightarrow> inv (step op s)"
begin

lemma inv_run: "inv s \<Longrightarrow> (\<And>op. op \<in> set ops \<Longrightarrow> admissible op) \<Longrightarrow> inv (fold step ops s)"
  by (induction ops arbitrary: s) (simp_all add: inv_step)

lemma inv_prefix:
  "inv s \<Longrightarrow> (\<And>op. op \<in> set ops \<Longrightarrow> admissible op) \<Longrightarrow> inv (fold step (take n ops) s)"
  by (rule inv_run) (auto dest: in_set_takeD)

text \<open>What every admissible operation keeps, given the invariant, a run keeps.\<close>

lemma run_keeps:
  assumes keeps: "\<And>s op. inv s \<Longrightarrow> admissible op \<Longrightarrow> P s \<Longrightarrow> P (step op s)"
  shows "inv s \<Longrightarrow> (\<And>op. op \<in> set ops \<Longrightarrow> admissible op) \<Longrightarrow> P s \<Longrightarrow> P (fold step ops s)"
  by (induction ops arbitrary: s) (simp_all add: inv_step keeps)

end

section \<open>Machines that implement a specification\<close>

text \<open>The runs of a labelled step relation.\<close>

fun steps :: "('s \<Rightarrow> 'l \<Rightarrow> 's \<Rightarrow> bool) \<Rightarrow> 's \<Rightarrow> 'l list \<Rightarrow> 's \<Rightarrow> bool" where
  "steps R s [] t \<longleftrightarrow> t = s"
| "steps R s (l # ls) t \<longleftrightarrow> (\<exists>u. R s l u \<and> steps R u ls t)"

lemma steps_append: "steps R s (ls @ ms) t \<longleftrightarrow> (\<exists>u. steps R s ls u \<and> steps R u ms t)"
  by (induction ls arbitrary: s) auto

text \<open>An invariant that speaks of the labels so far.\<close>

lemma steps_log:
  assumes "steps R s0 log s" "P [] s0" "\<And>log s l s'. R s l s' \<Longrightarrow> P log s \<Longrightarrow> P (log @ [l]) s'"
  shows "P log s"
  using assms(1)
proof (induction log arbitrary: s rule: rev_induct)
  case Nil
  with assms(2) show ?case by simp
next
  case (snoc l log)
  with assms(3) show ?case by (auto simp: steps_append)
qed

text \<open>What every step keeps, and what it shows of its label.\<close>

lemma steps_keep:
  assumes "steps R s ls t" "P s" "\<And>s l t. R s l t \<Longrightarrow> P s \<Longrightarrow> P t \<and> Q l"
  shows "P t \<and> list_all Q ls"
  using assms(1,2)
proof (induction ls arbitrary: s)
  case (Cons l ls)
  then obtain u where "R s l u" "steps R u ls t" by auto
  with Cons.IH [of u] Cons.prems(2) assms(3) [of s l u] show ?case by simp
qed simp

text \<open>
  The contract of an implementation: its steps keep the invariant and, seen through the abstraction
  function, are steps of the specification with the same label. What the specification keeps, the implementation
  then keeps.
\<close>

locale implementation =
  fixes conc :: "'c \<Rightarrow> 'l \<Rightarrow> 'c \<Rightarrow> bool"
    and spec :: "'a \<Rightarrow> 'l \<Rightarrow> 'a \<Rightarrow> bool"
    and abst :: "'c \<Rightarrow> 'a"
    and inv :: "'c \<Rightarrow> bool"
    and admissible :: "'l \<Rightarrow> bool"
  assumes inv_step: "inv c \<Longrightarrow> admissible l \<Longrightarrow> conc c l c' \<Longrightarrow> inv c'"
    and simulates: "inv c \<Longrightarrow> admissible l \<Longrightarrow> conc c l c' \<Longrightarrow> spec (abst c) l (abst c')"
begin

lemma inv_steps: "inv c \<Longrightarrow> list_all admissible ls \<Longrightarrow> steps conc c ls c' \<Longrightarrow> inv c'"
  by (induction ls arbitrary: c) (auto intro: inv_step)

lemma steps_simulate:
  "inv c \<Longrightarrow> list_all admissible ls \<Longrightarrow> steps conc c ls c' \<Longrightarrow> steps spec (abst c) ls (abst c')"
  by (induction ls arbitrary: c) (auto intro: inv_step simulates)

lemma spec_invariant:
  assumes keeps: "\<And>a l a'. P a \<Longrightarrow> admissible l \<Longrightarrow> spec a l a' \<Longrightarrow> P a'"
  shows "inv c \<Longrightarrow> P (abst c) \<Longrightarrow> list_all admissible ls \<Longrightarrow> steps conc c ls c' \<Longrightarrow> P (abst c')"
  by (induction ls arbitrary: c) (auto intro: inv_step simulates keeps)

end

section \<open>Where a value comes from\<close>

lemma last_change:
  assumes "view (fold step ops s) = v" "view s \<noteq> v"
  shows "\<exists>pre op mid. ops = pre @ op # mid \<and> view (fold step pre s) \<noteq> v \<and>
    (\<forall>m1 m2. mid = m1 @ m2 \<longrightarrow> view (fold step (pre @ op # m1) s) = v)"
  using assms
proof (induction ops rule: rev_induct)
  case Nil
  then show ?case by simp
next
  case (snoc x xs)
  show ?case
  proof (cases "view (fold step xs s) = v")
    case True
    then obtain pre op mid where IH: "xs = pre @ op # mid" "view (fold step pre s) \<noteq> v"
        "\<forall>m1 m2. mid = m1 @ m2 \<longrightarrow> view (fold step (pre @ op # m1) s) = v"
      using snoc by blast
    have "view (fold step (pre @ op # m1) s) = v" if "mid @ [x] = m1 @ m2" for m1 m2
    proof (cases m2 rule: rev_cases)
      case Nil
      with that snoc.prems(1) IH(1) show ?thesis by auto
    next
      case (snoc ys y)
      with that IH(3) show ?thesis by simp
    qed
    with IH show ?thesis by (intro exI [of _ pre] exI [of _ op] exI [of _ "mid @ [x]"]) simp
  next
    case False
    with snoc.prems show ?thesis by (intro exI [of _ xs] exI [of _ x] exI [of _ "[]"]) simp
  qed
qed

end
