(* ===== verification/Auth_Trace.thy ===== *)
theory Auth_Trace imports Auth Machine begin

text \<open>
  Runs of the authority of \<open>Auth\<close>: any sequence of the operations that the Guard's event loop
  performs on its \<^verbatim>\<open>GuardAuthenticator\<close>, in any order and for any peers. The peers and the
  network choose the sequence, so a theorem about every sequence is a theorem about every
  attacker who can send, replay, drop and reorder requests. What an attacker cannot do is in
  the key functions, which stay a parameter.
\<close>

datatype auth_op =
    OpIssue peer_id u64 bytes
  | OpVerify peer_id bytes u64 u64
  | OpRevoke peer_id
  | OpEndSession peer_id
  | OpAllow peer_id "role list"
  | OpReload whitelist

fun auth_step :: "'pk key_lib \<Rightarrow> auth_op \<Rightarrow> guard_authenticator \<Rightarrow> guard_authenticator" where
  "auth_step K (OpIssue peer now fresh) A = snd (issue_at peer now fresh A)"
| "auth_step K (OpVerify peer signature timestamp now) A = snd (verify_at K peer signature timestamp now A)"
| "auth_step K (OpRevoke peer) A = snd (auth_revoke peer A)"
| "auth_step K (OpEndSession peer) A = end_session peer A"
| "auth_step K (OpAllow peer rs) A = whitelist_mut (allow peer rs) A"
| "auth_step K (OpReload w) A = snd (reload_whitelist w A)"

text \<open>What an operation answers: a challenge sent to a peer, or access granted to one.\<close>

fun challenged :: "auth_op \<Rightarrow> guard_authenticator \<Rightarrow> (peer_id \<times> bytes) option" where
  "challenged (OpIssue peer now fresh) A =
     (if fst (issue_at peer now fresh A) = None then None else Some (peer, fresh))"
| "challenged _ A = None"

fun granted :: "'pk key_lib \<Rightarrow> auth_op \<Rightarrow> guard_authenticator \<Rightarrow> (peer_id \<times> role list) option" where
  "granted K (OpVerify peer signature timestamp now) A =
     (case fst (verify_at K peer signature timestamp now A) of Granted rs \<Rightarrow> Some (peer, rs) | Reject \<Rightarrow> None)"
| "granted K _ A = None"

abbreviation auth_run :: "'pk key_lib \<Rightarrow> auth_op list \<Rightarrow> guard_authenticator \<Rightarrow> guard_authenticator" where
  "auth_run K ops A \<equiv> fold (auth_step K) ops A"

text \<open>The number of challenges sent to \<open>p\<close>, and of grants to \<open>p\<close>, over a run.\<close>

fun challenges :: "'pk key_lib \<Rightarrow> peer_id \<Rightarrow> auth_op list \<Rightarrow> guard_authenticator \<Rightarrow> nat" where
  "challenges K p [] A = 0"
| "challenges K p (op # ops) A =
     (if map_option fst (challenged op A) = Some p then 1 else 0) + challenges K p ops (auth_step K op A)"

fun grants :: "'pk key_lib \<Rightarrow> peer_id \<Rightarrow> auth_op list \<Rightarrow> guard_authenticator \<Rightarrow> nat" where
  "grants K p [] A = 0"
| "grants K p (op # ops) A =
     (if map_option fst (granted K op A) = Some p then 1 else 0) + grants K p ops (auth_step K op A)"

section \<open>The invariant\<close>

text \<open>
  Sessions are only open for listed peers: \<^verbatim>\<open>revoke\<close> and the reload close them with the entry,
  and the whitelist loses a peer no other way.
\<close>

definition auth_inv :: "guard_authenticator \<Rightarrow> bool" where
  "auth_inv A \<longleftrightarrow> auth_wf A \<and>
     (\<forall>p. hm_get (sessions A) p \<noteq> None \<longrightarrow> roles (whitelist A) p \<noteq> None)"

text \<open>A whitelist built with its own operations has one entry per peer.\<close>

fun built :: "auth_op \<Rightarrow> bool" where
  "built (OpReload w) = whitelist_wf w"
| "built _ = True"

lemma auth_wf_step: "auth_wf A \<Longrightarrow> built op \<Longrightarrow> auth_wf (auth_step K op A)"
  by (cases op) (simp_all add: auth_wf_issue_at auth_wf_verify_at auth_wf_revoke auth_wf_end_session
      auth_wf_whitelist_mut wl.wf_insert auth_wf_reload auth_wf_def [of A, THEN iffD1, THEN conjunct1])

lemma auth_step_roles:
  assumes "auth_wf A" "built op"
  shows "roles (whitelist (auth_step K op A)) p =
    (case op of OpRevoke q \<Rightarrow> if p = q then None else roles (whitelist A) p
     | OpAllow q rs \<Rightarrow> if p = q then Some rs else roles (whitelist A) p
     | OpReload w \<Rightarrow> roles w p
     | _ \<Rightarrow> roles (whitelist A) p)"
  using assms
  by (cases op) (auto simp: auth_wf_def auth_revoke_def Let_def whitelist_mut_def end_session_def
      wl.get_insert wl.get_remove reload_fields)

lemma reload_pending_le: "hm_get (pending (snd (reload_whitelist w A))) q = Some c \<Longrightarrow> hm_get (pending A) q = Some c"
  by (auto simp: reload_whitelist_def Let_def revoke_each_fields whitelist_mut_def split: if_splits)

lemma auth_step_pending:
  "hm_get (pending (auth_step K op A)) p =
    (case op of
       OpIssue q now n \<Rightarrow> if p = q \<and> roles (whitelist A) q \<noteq> None
         then Some \<lparr>nonce = n, issued_at = now\<rparr> else hm_get (pending A) p
     | OpVerify q _ _ _ \<Rightarrow> if p = q then None else hm_get (pending A) p
     | OpRevoke q \<Rightarrow> if p = q then None else hm_get (pending A) p
     | OpEndSession q \<Rightarrow> if p = q then None else hm_get (pending A) p
     | OpAllow _ _ \<Rightarrow> hm_get (pending A) p
     | OpReload w \<Rightarrow> hm_get (pending (snd (reload_whitelist w A))) p)"
  by (cases op) (auto simp: issue_at_pending auth_revoke_def Let_def whitelist_mut_def end_session_def)

lemma auth_step_sessions:
  "hm_get (sessions (auth_step K op A)) p =
    (case op of
       OpRevoke q \<Rightarrow> if p = q then None else hm_get (sessions A) p
     | OpEndSession q \<Rightarrow> if p = q then None else hm_get (sessions A) p
     | OpReload w \<Rightarrow> hm_get (sessions (snd (reload_whitelist w A))) p
     | _ \<Rightarrow> (case granted K op A of
         Some (q, rs) \<Rightarrow> if p = q then Some rs else hm_get (sessions A) p
       | None \<Rightarrow> hm_get (sessions A) p))"
  by (cases op) (auto simp: verify_at_sessions auth_revoke_def Let_def whitelist_mut_def end_session_def
      split: auth_outcome.splits)

lemma granted_iff:
  "granted K op A = Some (p, rs) \<longleftrightarrow>
     (\<exists>sig ts now c. op = OpVerify p sig ts now \<and> hm_get (pending A) p = Some c \<and>
        roles (whitelist A) p = Some rs \<and> acceptable K p sig ts now c)"
  by (cases op) (auto simp: verify_at_granted_iff [symmetric] split: auth_outcome.splits)

lemma challenged_iff:
  "challenged op A = Some (p, n) \<longleftrightarrow> (\<exists>now. op = OpIssue p now n \<and> roles (whitelist A) p \<noteq> None)"
  by (cases op) (auto simp: issue_at_response)

lemma auth_inv_step: "auth_inv A \<Longrightarrow> built op \<Longrightarrow> auth_inv (auth_step K op A)"
  unfolding auth_inv_def
  by (auto simp: auth_wf_step auth_step_roles auth_step_sessions granted_iff reload_fields
      simp del: granted.simps split: auth_op.splits option.splits if_splits)

interpretation auth: machine "auth_step K" auth_inv built for K :: "'pk key_lib"
  by unfold_locales (rule auth_inv_step)

lemma auth_inv_new: "whitelist_wf w \<Longrightarrow> auth_inv (authenticator_new w)"
  by (simp add: auth_inv_def auth_wf_new) (simp add: authenticator_new_def)

lemma auth_inv_run: "whitelist_wf w \<Longrightarrow> list_all built ops \<Longrightarrow> auth_inv (auth_run K ops (authenticator_new w))"
  by (rule auth.inv_run) (simp_all add: auth_inv_new list_all_iff)

section \<open>Every grant answers one challenge\<close>

text \<open>The operations that take the outstanding challenge of \<open>p\<close> away without replacing it.\<close>

fun consumes :: "peer_id \<Rightarrow> auth_op \<Rightarrow> bool" where
  "consumes p (OpVerify q _ _ _) = (p = q)"
| "consumes p (OpRevoke q) = (p = q)"
| "consumes p (OpEndSession q) = (p = q)"
| "consumes p _ = False"

lemma consumes_pending: "consumes p op \<Longrightarrow> hm_get (pending (auth_step K op A)) p = None"
  by (cases op) (simp_all add: auth_step_pending end_session_def auth_revoke_def Let_def)

lemma pending_source:
  assumes "hm_get (pending (auth_run K ops A)) p = Some c" "hm_get (pending A) p = None"
  shows "\<exists>pre mid. ops = pre @ OpIssue p (issued_at c) (nonce c) # mid \<and>
    roles (whitelist (auth_run K pre A)) p \<noteq> None \<and> (\<forall>op \<in> set mid. \<not> consumes p op)"
proof -
  obtain pre op mid where split: "ops = pre @ op # mid"
    and before: "hm_get (pending (auth_run K pre A)) p \<noteq> Some c"
    and after: "\<forall>m1 m2. mid = m1 @ m2 \<longrightarrow> hm_get (pending (auth_run K (pre @ op # m1) A)) p = Some c"
    using last_change [of "\<lambda>A. hm_get (pending A) p" "auth_step K" ops A "Some c"] assms by auto
  have set_here: "hm_get (pending (auth_step K op (auth_run K pre A))) p = Some c"
    using after [THEN spec, of "[]"] by simp
  with before have "op = OpIssue p (issued_at c) (nonce c) \<and> roles (whitelist (auth_run K pre A)) p \<noteq> None"
    by (cases op) (auto simp: auth_step_pending issue_at_pending end_session_def auth_revoke_def
        whitelist_mut_def Let_def dest: reload_pending_le split: if_splits)
  moreover have "\<not> consumes p x" if "x \<in> set mid" for x
  proof
    assume "consumes p x"
    from that obtain m1 m2 where "mid = m1 @ x # m2" by (meson split_list)
    then have "hm_get (pending (auth_run K (pre @ op # m1 @ [x]) A)) p = Some c"
      using after by (metis append.assoc append_Cons append_Nil)
    with consumes_pending [OF \<open>consumes p x\<close>, of K] show False by simp
  qed
  ultimately show ?thesis using split by blast
qed

lemma new_pending [simp]: "hm_get (pending (authenticator_new w)) p = None"
  by (simp add: authenticator_new_def)

lemma grant_source:
  assumes "granted K op (auth_run K ops (authenticator_new w)) = Some (p, rs)"
  shows "\<exists>pre t n mid sig ts now. ops = pre @ OpIssue p t n # mid \<and> op = OpVerify p sig ts now \<and>
    roles (whitelist (auth_run K pre (authenticator_new w))) p \<noteq> None \<and>
    roles (whitelist (auth_run K ops (authenticator_new w))) p = Some rs \<and>
    (\<forall>op \<in> set mid. \<not> consumes p op) \<and>
    acceptable K p sig ts now \<lparr>nonce = n, issued_at = t\<rparr>"
proof -
  let ?A = "authenticator_new w"
  obtain sig ts now c where op: "op = OpVerify p sig ts now" "hm_get (pending (auth_run K ops ?A)) p = Some c"
      "roles (whitelist (auth_run K ops ?A)) p = Some rs" "acceptable K p sig ts now c"
    using assms unfolding granted_iff by blast
  from pending_source [OF op(2) new_pending] obtain pre mid where
    "ops = pre @ OpIssue p (issued_at c) (nonce c) # mid"
    "roles (whitelist (auth_run K pre ?A)) p \<noteq> None" "\<forall>op \<in> set mid. \<not> consumes p op"
    by blast
  moreover have "c = \<lparr>nonce = nonce c, issued_at = issued_at c\<rparr>" by simp
  ultimately show ?thesis using op by metis
qed

section \<open>Counting\<close>

text \<open>A challenge is worth one grant: it is paid for when issued and spent when answered.\<close>

definition outstanding :: "peer_id \<Rightarrow> guard_authenticator \<Rightarrow> nat" where
  "outstanding p A = (if hm_get (pending A) p = None then 0 else 1)"

lemma outstanding_step:
  "(if map_option fst (granted K op A) = Some p then 1 else 0) + outstanding p (auth_step K op A) \<le>
     (if map_option fst (challenged op A) = Some p then 1 else 0) + outstanding p A"
  by (cases op) (auto simp: outstanding_def auth_step_pending issue_at_pending issue_at_response
      verify_at_granted_iff end_session_def auth_revoke_def whitelist_mut_def Let_def
      dest: reload_pending_le split: if_splits auth_outcome.splits)

lemma grants_le: "grants K p ops A \<le> challenges K p ops A + outstanding p A"
proof (induction ops arbitrary: A)
  case Nil
  then show ?case by simp
next
  case (Cons op ops)
  from Cons.IH [of "auth_step K op A"] outstanding_step [of K op A p] show ?case by simp
qed

section \<open>Revocation\<close>

text \<open>The operations that may list \<open>p\<close>.\<close>

fun lists :: "peer_id \<Rightarrow> auth_op \<Rightarrow> bool" where
  "lists p (OpAllow q _) = (p = q)"
| "lists p (OpReload w) = (roles w p \<noteq> None)"
| "lists p _ = False"

lemma unlisted_run:
  assumes "auth_inv A" "roles (whitelist A) p = None" "list_all (\<lambda>op. built op \<and> \<not> lists p op) ops"
  shows "auth_inv (auth_run K ops A) \<and> roles (whitelist (auth_run K ops A)) p = None"
  using assms
proof (induction ops arbitrary: A)
  case Nil
  then show ?case by simp
next
  case (Cons op ops)
  have "roles (whitelist (auth_step K op A)) p = None"
    using Cons.prems by (auto simp: auth_inv_def auth_step_roles split: auth_op.split)
  with Cons.prems auth_inv_step [of A op K] Cons.IH [of "auth_step K op A"] show ?case by simp
qed

lemma unlisted_powerless:
  assumes "auth_inv A" "roles (whitelist A) p = None"
  shows "challenged op A \<noteq> Some (p, n)" "granted K op A \<noteq> Some (p, rs)" "session_roles A p = None"
  using assms by (auto simp: challenged_iff granted_iff session_roles_def)

section \<open>Signed payloads\<close>

text \<open>The bytes whose signature the Guard checked when it granted access.\<close>

fun granted_payload :: "'pk key_lib \<Rightarrow> auth_op \<Rightarrow> guard_authenticator \<Rightarrow> bytes option" where
  "granted_payload K (OpVerify peer signature timestamp now) A =
     (case granted K (OpVerify peer signature timestamp now) A of
        None \<Rightarrow> None
      | Some _ \<Rightarrow> map_option (\<lambda>c. challenge_payload (nonce c) timestamp) (hm_get (pending A) peer))"
| "granted_payload K _ A = None"

fun issued_nonce :: "auth_op \<Rightarrow> bytes option" where
  "issued_nonce (OpIssue _ _ n) = Some n"
| "issued_nonce _ = None"

definition nonces :: "auth_op list \<Rightarrow> bytes list" where
  "nonces ops = List.map_filter issued_nonce ops"

lemma nonces_simps [simp]:
  "nonces [] = []"
  "nonces (op # ops) = (case issued_nonce op of Some n \<Rightarrow> n # nonces ops | None \<Rightarrow> nonces ops)"
  "nonces (ops @ ops') = nonces ops @ nonces ops'"
  by (simp_all add: nonces_def map_filter_simps map_filter_def split: option.splits)

lemma nonces_memI: "OpIssue p t n \<in> set ops \<Longrightarrow> n \<in> set (nonces ops)"
  by (induction ops) (auto split: option.splits)

lemma granted_payload_source:
  assumes "granted_payload K v (auth_run K ops (authenticator_new w)) = Some m"
  shows "\<exists>p pre t n mid ts. ops = pre @ OpIssue p t n # mid \<and> consumes p v \<and>
    (\<forall>op \<in> set mid. \<not> consumes p op) \<and> m = challenge_payload n ts"
proof -
  let ?A = "auth_run K ops (authenticator_new w)"
  obtain p sig ts now c where v: "v = OpVerify p sig ts now" and c: "hm_get (pending ?A) p = Some c"
      and m: "m = challenge_payload (nonce c) ts"
    using assms by (cases v) (auto simp del: granted.simps split: option.splits)
  from pending_source [OF c new_pending] m v show ?thesis
    by (metis consumes.simps(1))
qed

text \<open>With pairwise distinct nonces, an issue operation occurs at one place only.\<close>

lemma issue_position_unique:
  assumes "distinct (nonces ops)"
    and ops1: "ops = pre @ OpIssue p t n # mid" and ops2: "ops = pre' @ OpIssue p' t' n # mid'"
  shows "pre = pre' \<and> mid = mid' \<and> p = p'"
proof -
  have away: "n \<notin> set (nonces pre')" "n \<notin> set (nonces mid')"
    using assms(1) by (auto simp: ops2)
  have here: "OpIssue p t n \<in> set (pre' @ OpIssue p' t' n # mid')"
    using ops1 ops2 by (metis in_set_conv_decomp)
  have same: "OpIssue p t n = OpIssue p' t' n"
  proof (rule ccontr)
    assume "OpIssue p t n \<noteq> OpIssue p' t' n"
    with here have "OpIssue p t n \<in> set pre' \<union> set mid'" by auto
    with away show False by (auto dest: nonces_memI)
  qed
  have "OpIssue p' t' n \<notin> set pre'" "OpIssue p' t' n \<notin> set mid'"
    using away by (auto dest: nonces_memI)
  with ops1 ops2 same have "pre' = pre \<and> mid' = mid"
    by (metis append_Cons_eq_iff)
  with same show ?thesis by simp
qed

section \<open>A sample run\<close>

text \<open>
  A concrete instance of the key functions (a key is its own peer id, a signature is the key
  followed by the message) and a run in which one peer authenticates twice.
\<close>

definition sample_keys :: "bytes key_lib" where
  "sample_keys = \<lparr>mh_code = (\<lambda>_. 0), mh_digest = to_bytes, try_decode_protobuf = Some,
     pk_verify = (\<lambda>pk msg sig. sig = pk @ msg)\<rparr>"

definition sample_whitelist :: whitelist where
  "sample_whitelist = allow (PeerId [1]) [''admin''] whitelist_new"

definition sample_answer :: "bytes \<Rightarrow> bytes \<Rightarrow> u64 \<Rightarrow> u64 \<Rightarrow> auth_op" where
  "sample_answer pk n ts now = OpVerify (PeerId pk) (pk @ challenge_payload n ts) ts now"

lemma sample_whitelist_wf: "whitelist_wf sample_whitelist"
  by (simp add: sample_whitelist_def)

lemma sample_first_grant:
  "granted sample_keys (sample_answer [1] [7] 101 103)
     (auth_run sample_keys [OpIssue (PeerId [1]) 100 [7]] (authenticator_new sample_whitelist))
   = Some (PeerId [1], [''admin''])"
  by code_simp

lemma sample_first_payload:
  "granted_payload sample_keys (sample_answer [1] [7] 101 103)
     (auth_run sample_keys [OpIssue (PeerId [1]) 100 [7]] (authenticator_new sample_whitelist))
   = Some (challenge_payload [7] 101)"
  by code_simp

lemma sample_second_payload:
  "granted_payload sample_keys (sample_answer [1] [8] 104 104)
     (auth_run sample_keys ([OpIssue (PeerId [1]) 100 [7]] @ sample_answer [1] [7] 101 103 #
       [OpIssue (PeerId [1]) 104 [8]]) (authenticator_new sample_whitelist))
   = Some (challenge_payload [8] 104)"
  by code_simp

section \<open>Properties\<close>

text \<open>Agreement. Whatever sequence of operations led to the present state of a Guard's
  authority, if an answer of a peer is now accepted with some roles, then the run contains an
  earlier challenge issued to that same peer while it was listed, no answer, revocation or
  disconnection of that peer came in between, the challenge is at most five seconds old, the
  timestamp of the answer is within five seconds of the Guard's clock, the roles are those of
  the current whitelist, and the signature verifies, under the key that the PeerId itself
  contains, over exactly the nonce of that challenge and the timestamp.\<close>

theorem grant_agreement:
  assumes "granted K op (auth_run K ops (authenticator_new w)) = Some (peer, rs)"
  shows "\<exists>pre t n mid sig ts now pk.
    ops = pre @ OpIssue peer t n # mid \<and> op = OpVerify peer sig ts now \<and>
    roles (whitelist (auth_run K pre (authenticator_new w))) peer \<noteq> None \<and>
    (\<forall>x \<in> set mid. \<not> consumes peer x) \<and>
    roles (whitelist (auth_run K ops (authenticator_new w))) peer = Some rs \<and>
    unat now \<le> unat t + 5 \<and> unat now \<le> unat ts + 5 \<and> unat ts \<le> unat now + 5 \<and>
    public_key_of K peer = Some pk \<and> pk_verify K pk (challenge_payload n ts) sig"
  using grant_source [OF assms] by (fastforce simp: acceptable_def)

theorem grant_agreement_witness:
  "\<exists>pre t n mid sig ts now pk.
    [OpIssue (PeerId [1]) 100 [7]] = pre @ OpIssue (PeerId [1]) t n # mid \<and>
    sample_answer [1] [7] 101 103 = OpVerify (PeerId [1]) sig ts now \<and>
    unat now \<le> unat t + 5 \<and> public_key_of sample_keys (PeerId [1]) = Some pk \<and>
    pk_verify sample_keys pk (challenge_payload n ts) sig"
  using grant_agreement [OF sample_first_grant] by blast

text \<open>Injectivity. Over any run of a fresh authority, the number of times access is granted
  to a peer is at most the number of challenges that were sent to it: a challenge admits at
  most once.\<close>

theorem grants_at_most_challenges:
  "grants K p ops (authenticator_new w) \<le> challenges K p ops (authenticator_new w)"
  using grants_le [of K p ops "authenticator_new w"] by (simp add: outstanding_def)

text \<open>Replay. If the nonces drawn in a run are pairwise distinct, two different grants of that
  run, to the same peer or to two peers, checked signatures over different bytes: no signed
  payload ever opens a session twice.\<close>

theorem no_payload_granted_twice:
  assumes "distinct (nonces (ops1 @ v1 # ops2))"
    and "granted_payload K v1 (auth_run K ops1 (authenticator_new w)) = Some m1"
    and "granted_payload K v2 (auth_run K (ops1 @ v1 # ops2) (authenticator_new w)) = Some m2"
  shows "m1 \<noteq> m2"
proof
  assume "m1 = m2"
  from granted_payload_source [OF assms(2)] obtain p pre t n mid ts where
    one: "ops1 = pre @ OpIssue p t n # mid" "consumes p v1" "m1 = challenge_payload n ts" by blast
  from granted_payload_source [OF assms(3)] obtain p' pre' t' n' mid' ts' where
    two: "ops1 @ v1 # ops2 = pre' @ OpIssue p' t' n' # mid'" "\<forall>op \<in> set mid'. \<not> consumes p' op"
      "m2 = challenge_payload n' ts'" by blast
  have "n = n'" using \<open>m1 = m2\<close> one(3) two(3) challenge_payload_inj by blast
  with one(1) two(1) assms(1) have "p = p' \<and> mid' = mid @ v1 # ops2"
    using issue_position_unique [of "ops1 @ v1 # ops2" pre p t n "mid @ v1 # ops2" pre' p' t' mid'] by auto
  with one(2) two(2) show False by simp
qed

theorem no_payload_granted_twice_witness:
  "challenge_payload [7] 101 \<noteq> challenge_payload [8] 104"
  by (rule no_payload_granted_twice [OF _ sample_first_payload sample_second_payload])
    (simp add: sample_answer_def)

text \<open>C11 (revocation). Once a peer has been revoked in a well-formed authority, and until it is
  listed again, no operation of any later run sends it a challenge or grants it access, it has
  no session roles, and an open session of it is gone.\<close>

theorem revoked_stays_out:
  assumes "auth_inv A" "list_all (\<lambda>op. built op \<and> \<not> lists p op) ops"
    and A': "A' = auth_run K ops (auth_step K (OpRevoke p) A)"
  shows "session_roles A' p = None \<and> challenged op A' \<noteq> Some (p, n) \<and>
    granted K op A' \<noteq> Some (p, rs) \<and> p \<notin> set (authenticated_peers A')"
proof -
  have inv: "auth_inv (auth_step K (OpRevoke p) A)" using assms(1) by (rule auth_inv_step) simp
  have "roles (whitelist (auth_step K (OpRevoke p) A)) p = None"
    using assms(1) by (simp only: auth_inv_def auth_step_roles built.simps) simp
  from unlisted_run [OF inv this assms(2)] have out: "roles (whitelist A') p = None" and inv': "auth_inv A'"
    unfolding A' by blast+
  have "p \<notin> set (authenticated_peers A')"
    using inv' out by (auto simp: authenticated_peers_def hm_keys_iff auth_inv_def)
  with unlisted_powerless [OF inv' out] show ?thesis by blast
qed

theorem revoked_stays_out_witness:
  "session_roles (auth_run sample_keys [OpIssue (PeerId [1]) 5 [9]]
     (auth_step sample_keys (OpRevoke (PeerId [1])) (authenticator_new sample_whitelist))) (PeerId [1]) = None"
  using revoked_stays_out [OF auth_inv_new [OF sample_whitelist_wf], of "PeerId [1]"
      "[OpIssue (PeerId [1]) 5 [9]]" _ sample_keys]
  by simp

text \<open>Live roles. After any run, every open session belongs to a listed peer, the roles it gives
  are those of the whitelist as it is now, a role change takes effect on a session that is
  already open, and a reload ends exactly the sessions of the peers it does not list and
  reports exactly those peers for disconnection.\<close>

theorem sessions_are_listed:
  assumes "whitelist_wf w" "list_all built ops" "A = auth_run K ops (authenticator_new w)" "whitelist_wf w'"
  shows "(hm_get (sessions A) p \<noteq> None \<longrightarrow>
      session_roles A p = roles (whitelist A) p \<and> roles (whitelist A) p \<noteq> None \<and>
      session_roles (auth_step K (OpAllow p rs) A) p = Some rs) \<and>
    session_roles (auth_step K (OpReload w') A) p =
      (if hm_get (sessions A) p = None then None else roles w' p) \<and>
    (p \<in> set (fst (reload_whitelist w' A)) \<longleftrightarrow> hm_get (sessions A) p \<noteq> None \<and> roles w' p = None)"
proof -
  have inv: "auth_inv A" using auth_inv_run [OF assms(1,2)] assms(3) by simp
  then have wf: "auth_wf A" by (simp add: auth_inv_def)
  have "roles (allow p rs (whitelist A)) p = Some rs"
    using wf by (simp add: auth_wf_def wl.get_insert_same)
  moreover have "p \<in> set (authenticated_peers A) \<longleftrightarrow> hm_get (sessions A) p \<noteq> None"
    by (simp add: authenticated_peers_def hm_keys_iff)
  ultimately show ?thesis
    using inv wf assms(4)
    by (auto simp: auth_inv_def session_roles_def whitelist_mut_def reload_fields reload_cut)
qed

theorem sessions_are_listed_witness:
  "session_roles (auth_step sample_keys (OpAllow (PeerId [1]) [''ops'']) (auth_run sample_keys
     [OpIssue (PeerId [1]) 100 [7], sample_answer [1] [7] 101 103] (authenticator_new sample_whitelist))) (PeerId [1])
   = Some [''ops'']"
proof -
  have "hm_get (sessions (auth_run sample_keys [OpIssue (PeerId [1]) 100 [7], sample_answer [1] [7] 101 103]
      (authenticator_new sample_whitelist))) (PeerId [1]) = Some [''admin'']"
    by code_simp
  with sessions_are_listed [OF sample_whitelist_wf _ refl sample_whitelist_wf, where p = "PeerId [1]" and rs = "[''ops'']"
      and K = sample_keys and ops = "[OpIssue (PeerId [1]) 100 [7], sample_answer [1] [7] 101 103]"]
  show ?thesis by (simp add: sample_answer_def)
qed

end
