(* ===== verification/Codec.thy ===== *)
theory Codec imports Messages begin

text \<open>
  \<^verbatim>\<open>crates/nux-core/src/protocol/codec.rs\<close>: the bounded codec of the authentication protocol.

  The bincode crate is a parameter: a record of its two functions, with the options the
  code sets. \<open>bincode_ok\<close> is what the code relies on: what is serialised under a size
  limit stays under it and reads back as the same value. A byte stream to be read is what
  it delivers and how it then ends; a reader that would have to wait for more is given the
  error \<open>WouldBlock\<close>. A stream to be written records what got out and may fail after some
  more bytes.
\<close>

section \<open>Byte streams\<close>

datatype stream_end = Eof | Broken io_error | Idle

record in_stream =
  avail :: bytes
  ending :: stream_end

record out_stream =
  written :: bytes
  fail_after :: "(nat \<times> io_error) option"

definition end_error :: "stream_end \<Rightarrow> io_error" where
  "end_error e = (case e of Eof \<Rightarrow> IoError UnexpectedEof ''early eof'' | Broken x \<Rightarrow> x
     | Idle \<Rightarrow> IoError WouldBlock ''waiting'')"

text \<open>\<^verbatim>\<open>read_exact\<close>: all \<open>n\<close> bytes, or the error that ended the stream before them.\<close>

definition read_exact :: "nat \<Rightarrow> in_stream \<Rightarrow> io_error + (bytes \<times> in_stream)" where
  "read_exact n s =
     (if n \<le> length (avail s) then Inr (take n (avail s), s\<lparr>avail := drop n (avail s)\<rparr>)
      else Inl (end_error (ending s)))"

text \<open>\<^verbatim>\<open>take(n).read_to_end\<close>: the stream is not read past \<open>n\<close> bytes.\<close>

definition take_read_to_end :: "nat \<Rightarrow> in_stream \<Rightarrow> io_error + bytes" where
  "take_read_to_end n s =
     (if n \<le> length (avail s) then Inr (take n (avail s))
      else (case ending s of Eof \<Rightarrow> Inr (avail s) | e \<Rightarrow> Inl (end_error e)))"

definition write_all :: "bytes \<Rightarrow> out_stream \<Rightarrow> (io_error option) \<times> out_stream" where
  "write_all bs s = (case fail_after s of
       None \<Rightarrow> (None, s\<lparr>written := written s @ bs\<rparr>)
     | Some (n, e) \<Rightarrow>
         if n < length bs then (Some e, s\<lparr>written := written s @ take n bs, fail_after := Some (0, e)\<rparr>)
         else (None, s\<lparr>written := written s @ bs, fail_after := Some (n - length bs, e)\<rparr>))"

text \<open>\<^verbatim>\<open>flush\<close> fails when the stream broke exactly after the last byte written.\<close>

definition flush :: "out_stream \<Rightarrow> io_error option" where
  "flush s = (case fail_after s of Some (0, e) \<Rightarrow> Some e | _ \<Rightarrow> None)"

lemma write_all_sound [simp]:
  "fail_after s = None \<Longrightarrow> write_all bs s = (None, s\<lparr>written := written s @ bs\<rparr>)"
  by (simp add: write_all_def)

lemma write_all_prefix: "write_all bs s = (r, s') \<Longrightarrow> \<exists>k. written s' = written s @ take k bs"
  by (auto simp: write_all_def split: option.splits prod.splits if_splits
      intro: exI [of _ "length bs"])

lemma write_all_ok: "write_all bs s = (None, s') \<Longrightarrow> written s' = written s @ bs"
  by (auto simp: write_all_def split: option.splits prod.splits if_splits)

section \<open>Serialisation\<close>

definition MAX_MESSAGE_SIZE :: nat where
  "MAX_MESSAGE_SIZE = 64 * 1024"

record bincode_opts =
  limit :: nat
  reject_trailing :: bool

record 'm bincode =
  serialize :: "bincode_opts \<Rightarrow> 'm \<Rightarrow> bytes option"
  deserialize :: "bincode_opts \<Rightarrow> bytes \<Rightarrow> 'm option"

definition bincode_ok :: "'m bincode \<Rightarrow> bool" where
  "bincode_ok B \<longleftrightarrow> (\<forall>opts m bs. serialize B opts m = Some bs \<longrightarrow>
     length bs \<le> limit opts \<and> deserialize B opts bs = Some m)"

definition bincode_options :: bincode_opts where
  "bincode_options = \<lparr>limit = MAX_MESSAGE_SIZE, reject_trailing = True\<rparr>"

definition encode :: "'m bincode \<Rightarrow> 'm \<Rightarrow> io_error + bytes" where
  "encode B v = ok_or (IoError InvalidData ''bincode'') (serialize B bincode_options v)"

definition decode :: "'m bincode \<Rightarrow> bytes \<Rightarrow> io_error + 'm" where
  "decode B bs = ok_or (IoError InvalidData ''bincode'') (deserialize B bincode_options bs)"

definition read_bounded :: "in_stream \<Rightarrow> io_error + bytes" where
  "read_bounded io =
     and_then (take_read_to_end (MAX_MESSAGE_SIZE + 1) io) (\<lambda>buf.
       if length buf > MAX_MESSAGE_SIZE then Inl (IoError InvalidData ''message too large'')
       else Inr buf)"

definition read_request :: "nux_request bincode \<Rightarrow> in_stream \<Rightarrow> io_error + nux_request" where
  "read_request B io = and_then (read_bounded io) (decode B)"

definition read_response :: "nux_response bincode \<Rightarrow> in_stream \<Rightarrow> io_error + nux_response" where
  "read_response B io = and_then (read_bounded io) (decode B)"

definition write_request ::
  "nux_request bincode \<Rightarrow> nux_request \<Rightarrow> out_stream \<Rightarrow> (io_error option) \<times> out_stream" where
  "write_request B req io =
     (case encode B req of Inl e \<Rightarrow> (Some e, io) | Inr bs \<Rightarrow> write_all bs io)"

definition write_response ::
  "nux_response bincode \<Rightarrow> nux_response \<Rightarrow> out_stream \<Rightarrow> (io_error option) \<times> out_stream" where
  "write_response B resp io =
     (case encode B resp of Inl e \<Rightarrow> (Some e, io) | Inr bs \<Rightarrow> write_all bs io)"

lemma encode_Inr: "encode B v = Inr bs \<longleftrightarrow> serialize B bincode_options v = Some bs"
  by (simp add: encode_def)

lemma bincode_okD:
  assumes "bincode_ok B" "encode B v = Inr bs"
  shows "length bs \<le> MAX_MESSAGE_SIZE" "decode B bs = Inr v"
proof -
  have "length bs \<le> limit bincode_options \<and> deserialize B bincode_options bs = Some v"
    using assms by (simp add: bincode_ok_def encode_Inr)
  then show "length bs \<le> MAX_MESSAGE_SIZE" "decode B bs = Inr v"
    by (simp_all add: decode_def bincode_options_def)
qed

lemma read_bounded_iff:
  "read_bounded io = Inr buf \<longleftrightarrow>
     ending io = Eof \<and> length (avail io) \<le> MAX_MESSAGE_SIZE \<and> buf = avail io"
  by (cases "ending io")
    (auto simp: read_bounded_def take_read_to_end_def not_le less_Suc_eq_le split: if_splits)

lemma read_bounded_whole:
  "length bs \<le> MAX_MESSAGE_SIZE \<Longrightarrow> read_bounded \<lparr>avail = bs, ending = Eof\<rparr> = Inr bs"
  by (simp add: read_bounded_iff)

text \<open>No more than one byte past the limit is ever held in memory.\<close>

lemma take_read_to_end_bound: "take_read_to_end n s = Inr bs \<Longrightarrow> length bs \<le> n"
  by (auto simp: take_read_to_end_def split: if_splits stream_end.splits)

text \<open>One exchange, whichever of the two message types it carries.\<close>

lemma exchange:
  assumes "bincode_ok B" and "encode B m = Inr bs"
  shows "and_then (read_bounded \<lparr>avail = bs, ending = Eof\<rparr>) (decode B) = Inr m"
  using bincode_okD [OF assms] by (simp add: read_bounded_whole)

section \<open>A sample serialiser\<close>

text \<open>
  An instance of the parameter, to show that \<open>bincode_ok\<close> can hold: a tag, then the fields.
\<close>

fun sample_request_bytes :: "nux_request \<Rightarrow> bytes" where
  "sample_request_bytes HandshakeInit = [0]"
| "sample_request_bytes (ChallengeAnswer sig ts) = 1 # to_be_bytes 8 ts @ sig"

fun sample_request_parse :: "bytes \<Rightarrow> nux_request option" where
  "sample_request_parse [] = None"
| "sample_request_parse (t # bs) =
     (if t = 0 then (if bs = [] then Some HandshakeInit else None)
      else if t = 1 \<and> 8 \<le> length bs
      then Some (ChallengeAnswer (drop 8 bs) (word_of_nat (from_be_bytes (take 8 bs))))
      else None)"

definition sample_request_bincode :: "nux_request bincode" where
  "sample_request_bincode = \<lparr>
     serialize = (\<lambda>opts m. let bs = sample_request_bytes m in
       if length bs \<le> limit opts then Some bs else None),
     deserialize = (\<lambda>opts bs. sample_request_parse bs)\<rparr>"

lemma word_of_be_bytes: "word_of_nat (from_be_bytes (to_be_bytes 8 (w :: u64))) = w"
proof -
  have "unat w < 256 ^ 8"
    using unsigned_less [of w, where 'a = nat] by simp
  then show ?thesis by (simp add: from_be_to_be_bytes)
qed

lemma sample_request_bincode_ok: "bincode_ok sample_request_bincode"
proof -
  have "sample_request_parse (sample_request_bytes m) = Some m" for m
    by (cases m) (simp_all add: word_of_be_bytes)
  then show ?thesis
    by (simp add: bincode_ok_def sample_request_bincode_def Let_def split: if_splits)
qed

end
