(* ===== verification/Tunnel.thy ===== *)
theory Tunnel imports Codec begin

text \<open>
  \<^verbatim>\<open>crates/nux-core/src/tunnel/mod.rs\<close> and \<^verbatim>\<open>crates/nux-core/src/attestation.rs\<close>: the registry of
  exposed services, the framed tunnel header, the Client's \<^verbatim>\<open>open\<close> and accept loops, and the
  Guard's \<^verbatim>\<open>serve_io\<close> with its refusals by silence.

  tokio's \<^verbatim>\<open>TcpStream::connect\<close> and \<^verbatim>\<open>copy_bidirectional\<close> are the parameter \<open>net\<close>. A stream from a
  peer carries arrival times, counted from the opening of the stream, because the header
  is read under a timeout.
\<close>

section \<open>The registry\<close>

definition HEADER_TIMEOUT :: duration where
  "HEADER_TIMEOUT = 5000"

record exposed_service =
  target :: socket_addr
  required_role :: "role option"

definition DEFAULT_MAX_STREAMS_PER_PEER :: nat where
  "DEFAULT_MAX_STREAMS_PER_PEER = 64"

definition DEFAULT_MAX_STREAMS_TOTAL :: nat where
  "DEFAULT_MAX_STREAMS_TOTAL = 1024"

record tunnel_registry =
  services :: "(string, exposed_service) hash_map"
  max_streams_per_peer :: nat
  max_streams_total :: nat
  attested_binaries :: "(peer_id, bytes) hash_map"

definition registry_new :: tunnel_registry where
  "registry_new = \<lparr>services = hm_empty, max_streams_per_peer = DEFAULT_MAX_STREAMS_PER_PEER,
     max_streams_total = DEFAULT_MAX_STREAMS_TOTAL, attested_binaries = hm_empty\<rparr>"

definition max_concurrent_streams :: "nat \<Rightarrow> nat \<Rightarrow> tunnel_registry \<Rightarrow> tunnel_registry" where
  "max_concurrent_streams per_peer overall G = G\<lparr>max_streams_per_peer := per_peer, max_streams_total := overall\<rparr>"

definition expose :: "string \<Rightarrow> socket_addr \<Rightarrow> role option \<Rightarrow> tunnel_registry \<Rightarrow> tunnel_registry" where
  "expose name addr req G =
     G\<lparr>services := hm_insert name \<lparr>target = addr, required_role = req\<rparr> (services G)\<rparr>"

definition registry_len :: "tunnel_registry \<Rightarrow> nat" where
  "registry_len G = hm_len (services G)"

definition registry_is_empty :: "tunnel_registry \<Rightarrow> bool" where
  "registry_is_empty G = (hm_len (services G) = 0)"

definition registry_get :: "tunnel_registry \<Rightarrow> string \<Rightarrow> exposed_service option" where
  "registry_get G name = hm_get (services G) name"

definition require_binary_sha256 :: "peer_id \<Rightarrow> bytes \<Rightarrow> tunnel_registry \<Rightarrow> tunnel_registry" where
  "require_binary_sha256 peer sha256 G = G\<lparr>attested_binaries := hm_insert peer sha256 (attested_binaries G)\<rparr>"

definition expected_binary_sha256 :: "tunnel_registry \<Rightarrow> peer_id \<Rightarrow> bytes option" where
  "expected_binary_sha256 G peer = hm_get (attested_binaries G) peer"

text \<open>The loop of \<open>role_granted\<close>: every role is compared, a match sets the flag.\<close>

fun role_loop :: "string \<Rightarrow> role list \<Rightarrow> bool \<Rightarrow> bool" where
  "role_loop required [] authorized = authorized"
| "role_loop required (r # rs) authorized =
     (let matches = (length r = length required \<and> r = required)
      in role_loop required rs (if matches then True else authorized))"

definition role_granted :: "role list \<Rightarrow> role option \<Rightarrow> bool" where
  "role_granted granted required =
     (case required of None \<Rightarrow> True | Some r \<Rightarrow> role_loop r granted False)"

lemma role_loop_iff: "role_loop r rs b \<longleftrightarrow> b \<or> r \<in> set rs"
  by (induction rs arbitrary: b) auto

lemma role_granted_iff: "role_granted granted required \<longleftrightarrow> (\<forall>r. required = Some r \<longrightarrow> r \<in> set granted)"
  by (simp add: role_granted_def role_loop_iff split: option.split)

section \<open>Framing\<close>

text \<open>
  \<^verbatim>\<open>u16::try_from(len)\<close> then the filter on the limit; \<^verbatim>\<open>write_u16\<close>, \<^verbatim>\<open>write_all\<close> and \<^verbatim>\<open>flush\<close> in
  turn, the first failure ends the function.
\<close>

definition write_header :: "tunnel_header bincode \<Rightarrow> tunnel_header \<Rightarrow> out_stream \<Rightarrow>
    (nux_error + unit) \<times> out_stream" where
  "write_header B header s =
     (case encode B header of
        Inl e \<Rightarrow> (Inl (Io e), s)
      | Inr bs \<Rightarrow>
          if length bs < 2 ^ 16 \<and> length bs \<le> MAX_TUNNEL_HEADER_SIZE then
            (case write_all (to_be_bytes 2 (word_of_nat (length bs) :: u16)) s of
               (Some e, s) \<Rightarrow> (Inl (Io e), s)
             | (None, s) \<Rightarrow> (case write_all bs s of
                 (Some e, s) \<Rightarrow> (Inl (Io e), s)
               | (None, s) \<Rightarrow> (case flush s of Some e \<Rightarrow> (Inl (Io e), s) | None \<Rightarrow> (Inr (), s))))
          else (Inl (Tunnel (HeaderTooLong (length bs))), s))"

definition read_header :: "tunnel_header bincode \<Rightarrow> in_stream \<Rightarrow> io_error + (tunnel_header \<times> in_stream)" where
  "read_header B s =
     and_then (read_exact 2 s) (\<lambda>(l, s).
       let len = from_be_bytes l in
       if len > MAX_TUNNEL_HEADER_SIZE then Inl (IoError InvalidData ''header too long'')
       else and_then (read_exact len s) (\<lambda>(buf, s).
         map_err id (and_then (decode B buf) (\<lambda>header. Inr (header, s)))))"

section \<open>The Client: opening a tunnel\<close>

text \<open>
  \<^verbatim>\<open>current_binary_sha256\<close>: the cached digest, or the digest of the executable read from disk,
  which is then cached. \<open>exe\<close> is \<^verbatim>\<open>current_exe\<close> followed by \<^verbatim>\<open>fs::read\<close>; \<open>sha256\<close> is the hash.
\<close>

definition current_binary_sha256 :: "(bytes \<Rightarrow> bytes) \<Rightarrow> io_error + bytes \<Rightarrow> bytes option \<Rightarrow>
    (nux_error + bytes) \<times> bytes option" where
  "current_binary_sha256 sha256 exe cache =
     (case cache of
        Some h \<Rightarrow> (Inr h, cache)
      | None \<Rightarrow> (case exe of
            Inl e \<Rightarrow> (Inl (Io e), None)
          | Inr bs \<Rightarrow> (Inr (sha256 bs), Some (sha256 bs))))"

record duplex =
  rd :: in_stream
  wr :: out_stream

text \<open>\<open>opened\<close>: the outcome of \<^verbatim>\<open>open_stream\<close>; \<open>sha\<close>: the outcome of \<^verbatim>\<open>current_binary_sha256\<close>.\<close>

definition open_tunnel :: "tunnel_header bincode \<Rightarrow> nux_error + bytes \<Rightarrow> string + duplex \<Rightarrow> string \<Rightarrow>
    nux_error + duplex" where
  "open_tunnel B sha opened srv =
     and_then (map_err (\<lambda>e. Tunnel (LibError e)) opened) (\<lambda>stream.
     and_then sha (\<lambda>h.
       case write_header B \<lparr>service = srv, binary_sha256 = h\<rparr> (wr stream) of
         (Inl e, _) \<Rightarrow> Inl e
       | (Inr _, w) \<Rightarrow>
           and_then (map_err (\<lambda>_. AccessDenied) (read_exact 1 (rd stream))) (\<lambda>(ack, r).
             if ack \<noteq> [TUNNEL_ACK] then Inl (Protocol (UnexpectedAck (ack ! 0)))
             else Inr \<lparr>rd = r, wr = w\<rparr>)))"

text \<open>\<open>copy\<close> is \<^verbatim>\<open>copy_bidirectional\<close> between the local socket and the tunnel.\<close>

datatype relay_result = OpenFailed nux_error | Relayed "io_error + (u64 \<times> u64)"

definition relay_local :: "tunnel_header bincode \<Rightarrow> nux_error + bytes \<Rightarrow> string + duplex \<Rightarrow> string \<Rightarrow>
    (duplex \<Rightarrow> io_error + (u64 \<times> u64)) \<Rightarrow> relay_result" where
  "relay_local B sha opened srv copy =
     (case open_tunnel B sha opened srv of
        Inl e \<Rightarrow> OpenFailed e
      | Inr tunnel \<Rightarrow> Relayed (copy tunnel))"

section \<open>The Client: accept loops\<close>

text \<open>
  What \<^verbatim>\<open>select!\<close> sees, in the order it sees it. A loop over the events so far returns the relays
  it has spawned, the connections it has closed unread, and whether it has stopped.
\<close>

datatype 'c accept_event = Cancelled | Accepted 'c | AcceptFailed io_error

fun forward_listener :: "'c accept_event list \<Rightarrow> 'c list \<Rightarrow> 'c list \<times> bool" where
  "forward_listener [] relays = (relays, False)"
| "forward_listener (Cancelled # _) relays = (relays, True)"
| "forward_listener (Accepted c # evs) relays = forward_listener evs (relays @ [c])"
| "forward_listener (AcceptFailed _ # evs) relays = forward_listener evs relays"

text \<open>\<open>cred\<close>: what \<^verbatim>\<open>SO_PEERCRED\<close> says of the process at the other end.\<close>

definition peer_uid_authorized :: "io_error + u32 \<Rightarrow> u32 list \<Rightarrow> bool" where
  "peer_uid_authorized cred allowed_uids =
     (case cred of Inr uid \<Rightarrow> uid \<in> set allowed_uids | Inl _ \<Rightarrow> False)"

fun forward_unix_listener :: "u32 list \<Rightarrow> ('c \<times> (io_error + u32)) accept_event list \<Rightarrow> 'c list \<Rightarrow> 'c list \<Rightarrow>
    'c list \<times> 'c list \<times> bool" where
  "forward_unix_listener uids [] relays closed = (relays, closed, False)"
| "forward_unix_listener uids (Cancelled # _) relays closed = (relays, closed, True)"
| "forward_unix_listener uids (Accepted (c, cred) # evs) relays closed =
     (if \<not> peer_uid_authorized cred uids then forward_unix_listener uids evs relays (closed @ [c])
      else forward_unix_listener uids evs (relays @ [c]) closed)"
| "forward_unix_listener uids (AcceptFailed _ # evs) relays closed = forward_unix_listener uids evs relays closed"

text \<open>
  The drain: relays that end within the grace period end by themselves; dropping the join
  set aborts the others. \<open>remaining\<close> pairs a relay with the time it still needs.
\<close>

definition drain_relays :: "duration \<Rightarrow> ('c \<times> duration option) list \<Rightarrow> 'c list \<times> 'c list" where
  "drain_relays grace remaining =
     (let finished = (\<lambda>(_, d). case d of None \<Rightarrow> False | Some t \<Rightarrow> t \<le> grace) in
      (map fst (filter finished remaining), map fst (filter (\<lambda>x. \<not> finished x) remaining)))"

section \<open>The Guard: serving a stream\<close>

datatype tunnel_outcome = TunnelDenied | Served (bytes_from_peer: u64) (bytes_to_peer: u64)

record peer_stream =
  arrivals :: "(duration \<times> u8) list"
  ends :: "(duration \<times> stream_end) option"
  outgoing :: out_stream

definition arrived_by :: "duration \<Rightarrow> peer_stream \<Rightarrow> in_stream" where
  "arrived_by d s =
     (let here = takeWhile (\<lambda>(t, _). t \<le> d) (arrivals s) in
      \<lparr>avail = map snd here,
       ending = (if length here < length (arrivals s) then Idle
                 else case ends s of None \<Rightarrow> Idle | Some (t, e) \<Rightarrow> if t \<le> d then e else Idle)\<rparr>)"

text \<open>\<^verbatim>\<open>tokio::time::timeout\<close> around \<open>read_header\<close>: \<open>None\<close> when it is still waiting at the deadline.\<close>

definition header_in_time :: "tunnel_header bincode \<Rightarrow> peer_stream \<Rightarrow> (io_error + (tunnel_header \<times> in_stream)) option" where
  "header_in_time B s = (case read_header B (arrived_by HEADER_TIMEOUT s) of
       Inl e \<Rightarrow> if kind e = WouldBlock then None else Some (Inl e)
     | Inr x \<Rightarrow> Some (Inr x))"

text \<open>
  tokio's \<^verbatim>\<open>connect\<close>, and \<^verbatim>\<open>copy_bidirectional\<close> on a connection: given what is left of the peer's
  stream, the bytes it sends to the peer and the two counts or an error.
\<close>

record 'conn net =
  tcp_connect :: "socket_addr \<Rightarrow> io_error + 'conn"
  copy_bidirectional :: "'conn \<Rightarrow> peer_stream \<Rightarrow> bytes \<times> (io_error + (u64 \<times> u64))"

definition after_header :: "peer_stream \<Rightarrow> in_stream \<Rightarrow> peer_stream" where
  "after_header s rest =
     s\<lparr>arrivals := drop (length (avail (arrived_by HEADER_TIMEOUT s)) - length (avail rest)) (arrivals s)\<rparr>"

definition serve_io :: "tunnel_header bincode \<Rightarrow> 'conn net \<Rightarrow> peer_id \<Rightarrow> peer_stream \<Rightarrow> role list \<Rightarrow>
    tunnel_registry \<Rightarrow> tunnel_outcome \<times> out_stream" where
  "serve_io B N peer stream rs registry =
     (let out = outgoing stream in
      case header_in_time B stream of
        Some (Inr (header, rest)) \<Rightarrow>
          (case registry_get registry (service header) of
             None \<Rightarrow> (TunnelDenied, out)
           | Some srv \<Rightarrow>
               if \<not> role_granted rs (required_role srv) then (TunnelDenied, out)
               else if (case expected_binary_sha256 registry peer of
                          Some expected \<Rightarrow> binary_sha256 header \<noteq> expected
                        | None \<Rightarrow> False) then (TunnelDenied, out)
               else (case tcp_connect N (target srv) of
                   Inl _ \<Rightarrow> (TunnelDenied, out)
                 | Inr local \<Rightarrow>
                     (case write_all [TUNNEL_ACK] out of
                        (Some _, out) \<Rightarrow> (TunnelDenied, out)
                      | (None, out) \<Rightarrow>
                          if flush out \<noteq> None then (TunnelDenied, out)
                          else (case copy_bidirectional N local ((after_header stream rest)\<lparr>outgoing := out\<rparr>) of
                              (sent, Inr (from_peer, to_peer)) \<Rightarrow>
                                (Served from_peer to_peer, snd (write_all sent out))
                            | (sent, Inl _) \<Rightarrow> (Served 0 0, snd (write_all sent out))))))
      | _ \<Rightarrow> (TunnelDenied, out))"

definition serve_stream :: "tunnel_header bincode \<Rightarrow> 'conn net \<Rightarrow> peer_id \<Rightarrow> peer_stream \<Rightarrow> role list \<Rightarrow>
    tunnel_registry \<Rightarrow> tunnel_outcome \<times> out_stream" where
  "serve_stream B N peer stream rs registry = serve_io B N peer stream rs registry"

section \<open>Framing is exact\<close>

lemma length_u16_bytes: "n < 2 ^ 16 \<Longrightarrow> from_be_bytes (to_be_bytes 2 (word_of_nat n :: u16)) = n"
  by (simp add: from_be_to_be_bytes unsigned_of_nat take_bit_nat_eq_self)

lemma to_be_bytes_2_length [simp]: "length (to_be_bytes 2 w) = 2"
  by (rule length_to_be_bytes)

text \<open>What a header looks like on the wire.\<close>

definition header_frame :: "tunnel_header bincode \<Rightarrow> tunnel_header \<Rightarrow> bytes option" where
  "header_frame B header = (case encode B header of
       Inl _ \<Rightarrow> None
     | Inr bs \<Rightarrow> if length bs \<le> MAX_TUNNEL_HEADER_SIZE
         then Some (to_be_bytes 2 (word_of_nat (length bs) :: u16) @ bs) else None)"

lemma small_header: "n \<le> MAX_TUNNEL_HEADER_SIZE \<Longrightarrow> n < 2 ^ 16"
  by (simp add: MAX_TUNNEL_HEADER_SIZE_def)

lemma write_header_sound:
  assumes "fail_after s = None"
  shows "write_header B h s = (case header_frame B h of
      Some f \<Rightarrow> (Inr (), s\<lparr>written := written s @ f\<rparr>)
    | None \<Rightarrow> (case encode B h of Inl e \<Rightarrow> (Inl (Io e), s)
        | Inr bs \<Rightarrow> (Inl (Tunnel (HeaderTooLong (length bs))), s)))"
proof (cases "encode B h")
  case (Inl e)
  then show ?thesis by (simp add: write_header_def header_frame_def)
next
  case (Inr bs)
  with assms show ?thesis
    by (auto simp: write_header_def header_frame_def flush_def dest: small_header)
qed

lemma read_header_frame:
  assumes "bincode_ok B" "header_frame B h = Some f"
  shows "read_header B \<lparr>avail = f @ bs', ending = e\<rparr> = Inr (h, \<lparr>avail = bs', ending = e\<rparr>)"
proof -
  from assms(2) obtain bs where bs: "encode B h = Inr bs" "length bs \<le> MAX_TUNNEL_HEADER_SIZE"
      and f: "f = to_be_bytes 2 (word_of_nat (length bs) :: u16) @ bs"
    by (auto simp: header_frame_def split: sum.splits if_splits)
  from bs(2) have len: "from_be_bytes (to_be_bytes 2 (word_of_nat (length bs) :: u16)) = length bs"
    by (intro length_u16_bytes small_header)
  show ?thesis
    using bs(2) bincode_okD(2) [OF assms(1) bs(1)]
    by (simp add: read_header_def read_exact_def f len Let_def)
qed

text \<open>A header is read from the first 1026 bytes at most, and nothing after it is consumed.\<close>

lemma read_header_consumes:
  assumes "read_header B s = Inr (h, r)"
  shows "\<exists>k \<le> 2 + MAX_TUNNEL_HEADER_SIZE. avail r = drop k (avail s) \<and> ending r = ending s"
  using assms
  by (auto simp: read_header_def read_exact_def and_then_Inr_iff Let_def split: if_splits prod.splits
      intro!: exI [of _ "2 + from_be_bytes (take 2 (avail s))"])

section \<open>The verdict of the Guard\<close>

text \<open>The four checks of \<open>serve_io\<close> on a header, in one predicate.\<close>

definition tunnel_allowed :: "tunnel_registry \<Rightarrow> peer_id \<Rightarrow> role list \<Rightarrow> tunnel_header \<Rightarrow> exposed_service \<Rightarrow> bool" where
  "tunnel_allowed registry peer rs header srv \<longleftrightarrow>
     hm_get (services registry) (service header) = Some srv \<and>
     (\<forall>r. required_role srv = Some r \<longrightarrow> r \<in> set rs) \<and>
     (\<forall>h. hm_get (attested_binaries registry) peer = Some h \<longrightarrow> binary_sha256 header = h)"

lemma serve_io_allowed:
  assumes "header_in_time B stream = Some (Inr (header, rest))" "tunnel_allowed registry peer rs header srv"
    "tcp_connect N (target srv) = Inr local"
  shows "serve_io B N peer stream rs registry =
    (case write_all [TUNNEL_ACK] (outgoing stream) of
       (Some _, out) \<Rightarrow> (TunnelDenied, out)
     | (None, out) \<Rightarrow> if flush out \<noteq> None then (TunnelDenied, out)
         else (case copy_bidirectional N local ((after_header stream rest)\<lparr>outgoing := out\<rparr>) of
             (sent, Inr (from_peer, to_peer)) \<Rightarrow> (Served from_peer to_peer, snd (write_all sent out))
           | (sent, Inl _) \<Rightarrow> (Served 0 0, snd (write_all sent out))))"
  using assms
  by (simp add: serve_io_def tunnel_allowed_def registry_get_def role_granted_iff
      expected_binary_sha256_def Let_def split: option.splits)

lemma serve_io_refused:
  assumes no: "\<not> (\<exists>header rest srv local. header_in_time B stream = Some (Inr (header, rest)) \<and>
      tunnel_allowed registry peer rs header srv \<and> tcp_connect N (target srv) = Inr local)"
  shows "serve_io B N peer stream rs registry = (TunnelDenied, outgoing stream)"
proof (cases "\<exists>header rest. header_in_time B stream = Some (Inr (header, rest))")
  case False
  then show ?thesis
    by (auto simp: serve_io_def Let_def split: option.split sum.split)
next
  case True
  then obtain header rest where head: "header_in_time B stream = Some (Inr (header, rest))" by blast
  show ?thesis
  proof (cases "\<exists>srv. tunnel_allowed registry peer rs header srv")
    case True
    then obtain srv where srv: "tunnel_allowed registry peer rs header srv" by blast
    with no head obtain e where "tcp_connect N (target srv) = Inl e"
      by (cases "tcp_connect N (target srv)") auto
    with head srv show ?thesis
      by (simp add: serve_io_def tunnel_allowed_def registry_get_def Let_def)
  next
    case False
    with head show ?thesis
      by (auto simp: serve_io_def tunnel_allowed_def registry_get_def role_granted_iff
          expected_binary_sha256_def Let_def split: option.split)
  qed
qed

lemma header_in_time_Some:
  "header_in_time B s = Some (Inr x) \<longleftrightarrow> read_header B (arrived_by HEADER_TIMEOUT s) = Inr x"
  by (auto simp: header_in_time_def split: sum.splits if_splits)

section \<open>A complete opening\<close>

text \<open>
  A Client's \<open>open\<close> against a Guard's \<open>serve_io\<close>: the frame the Client writes is what arrives at the
  Guard, and what the Guard writes before the stream closes is what the Client reads.
\<close>

definition instantly :: "bytes \<Rightarrow> peer_stream" where
  "instantly bs = \<lparr>arrivals = map (\<lambda>b. (0, b)) bs, ends = None, outgoing = \<lparr>written = [], fail_after = None\<rparr>\<rparr>"

definition full_opening :: "tunnel_header bincode \<Rightarrow> 'conn net \<Rightarrow> peer_id \<Rightarrow> bytes \<Rightarrow> string \<Rightarrow> role list \<Rightarrow>
    tunnel_registry \<Rightarrow> tunnel_outcome \<times> (nux_error + duplex)" where
  "full_opening B N peer sha srv rs registry =
     (let (_, w) = write_header B \<lparr>service = srv, binary_sha256 = sha\<rparr> \<lparr>written = [], fail_after = None\<rparr>;
          (outcome, out) = serve_io B N peer (instantly (written w)) rs registry
      in (outcome, open_tunnel B (Inr sha)
            (Inr \<lparr>rd = \<lparr>avail = written out, ending = Eof\<rparr>, wr = \<lparr>written = [], fail_after = None\<rparr>\<rparr>) srv))"

lemma takeWhile_instantly: "takeWhile (\<lambda>(t, _). t \<le> d) (map (\<lambda>b. (0 :: nat, b)) bs) = map (\<lambda>b. (0, b)) bs"
  by (induction bs) auto

lemma arrived_instantly: "arrived_by d (instantly bs) = \<lparr>avail = bs, ending = Idle\<rparr>"
  unfolding arrived_by_def instantly_def Let_def
  by (simp only: peer_stream.select_convs takeWhile_instantly) (simp add: comp_def)

lemma header_instantly:
  assumes "bincode_ok B" "header_frame B h = Some f"
  shows "header_in_time B (instantly f) = Some (Inr (h, \<lparr>avail = [], ending = Idle\<rparr>))"
  using read_header_frame [OF assms, of "[]" Idle]
  by (simp add: header_in_time_Some arrived_instantly)

section \<open>A sample network and serialiser\<close>

definition sample_header_bincode :: "tunnel_header bincode" where
  "sample_header_bincode = \<lparr>
     serialize = (\<lambda>opts h. let s = map (\<lambda>c. word_of_nat (of_char c)) (service h) :: bytes;
         bs = to_be_bytes 8 (word_of_nat (length s) :: u64) @ s @ binary_sha256 h
       in if length bs \<le> limit opts \<and> length s < 2 ^ 64 then Some bs else None),
     deserialize = (\<lambda>opts bs. let n = from_be_bytes (take 8 bs) in
       Some \<lparr>service = map (\<lambda>b. char_of (unat b)) (take n (drop 8 bs)), binary_sha256 = drop n (drop 8 bs)\<rparr>)\<rparr>"

definition sample_net :: "socket_addr net" where
  "sample_net = \<lparr>tcp_connect = Inr, copy_bidirectional = (\<lambda>_ s. ([0x2A], Inr (word_of_nat (length (arrivals s)), 1)))\<rparr>"

definition sample_registry :: tunnel_registry where
  "sample_registry = require_binary_sha256 (PeerId [1]) [5]
     (expose ''db'' (localhost, 5432) (Some ''admin'') registry_new)"

lemma char_of_byte: "char_of (unat (word_of_nat (of_char c) :: u8)) = c"
  using nat_of_char_less_256 [of c] by (simp add: unsigned_of_nat take_bit_nat_eq_self)

lemma sample_header_bincode_ok: "bincode_ok sample_header_bincode"
proof -
  have len: "from_be_bytes (to_be_bytes 8 (word_of_nat n :: u64)) = n" if "n < 2 ^ 64" for n
    using that by (simp add: from_be_to_be_bytes unsigned_of_nat take_bit_nat_eq_self)
  show ?thesis
    by (auto simp: bincode_ok_def sample_header_bincode_def Let_def len comp_def char_of_byte split: if_splits)
qed

lemma sample_header_frame: "\<exists>f. header_frame sample_header_bincode \<lparr>service = ''db'', binary_sha256 = [h]\<rparr> = Some f"
  by (simp add: header_frame_def encode_def sample_header_bincode_def bincode_options_def
      MAX_MESSAGE_SIZE_def MAX_TUNNEL_HEADER_SIZE_def Let_def)

section \<open>Properties\<close>

text \<open>Tunnel framing. A header the Client writes is read back by the Guard as the same header
  whatever bytes follow it, all of those bytes are left for the relay, and a header that is
  written is at most 1024 bytes long after its two-byte length.\<close>

theorem header_roundtrip:
  assumes "bincode_ok B" and "write_header B h \<lparr>written = pre, fail_after = None\<rparr> = (Inr (), s)"
  shows "\<exists>f. written s = pre @ f \<and> length f \<le> 2 + 1024 \<and>
    read_header B \<lparr>avail = f @ rest, ending = e\<rparr> = Inr (h, \<lparr>avail = rest, ending = e\<rparr>)"
proof -
  from assms(2) obtain f where f: "header_frame B h = Some f" "written s = pre @ f"
    by (auto simp: write_header_sound split: option.splits sum.splits)
  moreover from f(1) have "length f \<le> 2 + 1024"
    by (auto simp: header_frame_def MAX_TUNNEL_HEADER_SIZE_def split: sum.splits if_splits)
  ultimately show ?thesis using read_header_frame [OF assms(1) f(1), of rest e] by blast
qed

theorem header_roundtrip_witness:
  "\<exists>f s. write_header sample_header_bincode \<lparr>service = ''db'', binary_sha256 = [5]\<rparr>
       \<lparr>written = [], fail_after = None\<rparr> = (Inr (), s) \<and> written s = [] @ f \<and> length f \<le> 2 + 1024"
proof -
  obtain s where ok: "write_header sample_header_bincode \<lparr>service = ''db'', binary_sha256 = [5]\<rparr>
       \<lparr>written = [], fail_after = None\<rparr> = (Inr (), s)"
    using sample_header_frame [of 5] by (auto simp: write_header_sound)
  from header_roundtrip [OF sample_header_bincode_ok ok] ok show ?thesis by blast
qed

text \<open>C5 (who gets a tunnel). If the Guard serves a stream, then a complete header of at most 1024
  bytes arrived within five seconds, it names an exposed service, the roles passed for the
  session contain the role the service requires, the declared binary hash is the one
  registered for this peer when there is one, the connection made is to the address
  registered for that service, and the first byte sent to the peer is the acknowledgement.\<close>

theorem served_only_if_allowed:
  assumes "serve_io B N peer stream rs registry = (Served n m, out)"
  shows "\<exists>header rest srv local sent. read_header B (arrived_by 5000 stream) = Inr (header, rest) \<and>
    tunnel_allowed registry peer rs header srv \<and> tcp_connect N (target srv) = Inr local \<and>
    written out = written (outgoing stream) @ [TUNNEL_ACK] @ sent"
proof -
  obtain header rest srv local where ok: "header_in_time B stream = Some (Inr (header, rest))"
      "tunnel_allowed registry peer rs header srv" "tcp_connect N (target srv) = Inr local"
    using assms serve_io_refused [of B stream registry peer rs N] by (metis Pair_inject tunnel_outcome.distinct(1))
  moreover from assms serve_io_allowed [OF ok] obtain out1 sent
    where "write_all [TUNNEL_ACK] (outgoing stream) = (None, out1)" "out = snd (write_all sent out1)"
    by (auto split: prod.splits option.splits if_splits sum.splits)
  moreover from this obtain k where "written out = written out1 @ take k sent"
    using write_all_prefix [of sent out1] by (metis prod.collapse)
  ultimately show ?thesis
    using write_all_ok [of "[TUNNEL_ACK]" "outgoing stream" out1]
    by (auto simp: header_in_time_Some HEADER_TIMEOUT_def)
qed

theorem served_only_if_allowed_witness:
  "\<exists>f header rest srv local sent. read_header sample_header_bincode (arrived_by 5000 (instantly f)) = Inr (header, rest) \<and>
    tunnel_allowed sample_registry (PeerId [1]) [''admin''] header srv \<and> tcp_connect sample_net (target srv) = Inr local \<and>
    [TUNNEL_ACK, 0x2A] = [] @ [TUNNEL_ACK] @ sent"
proof -
  obtain f where f: "header_frame sample_header_bincode \<lparr>service = ''db'', binary_sha256 = [5]\<rparr> = Some f"
    using sample_header_frame by blast
  have ok: "tunnel_allowed sample_registry (PeerId [1]) [''admin''] \<lparr>service = ''db'', binary_sha256 = [5]\<rparr>
      \<lparr>target = (localhost, 5432), required_role = Some ''admin''\<rparr>"
    by (simp add: tunnel_allowed_def sample_registry_def require_binary_sha256_def expose_def)
  obtain n where "serve_io sample_header_bincode sample_net (PeerId [1]) (instantly f) [''admin''] sample_registry =
      (Served n 1, \<lparr>written = [TUNNEL_ACK, 0x2A], fail_after = None\<rparr>)"
    using serve_io_allowed [OF header_instantly [OF sample_header_bincode_ok f] ok, of sample_net]
    by (simp add: sample_net_def instantly_def flush_def)
  from served_only_if_allowed [OF this] have "\<exists>header rest srv local sent.
      read_header sample_header_bincode (arrived_by 5000 (instantly f)) = Inr (header, rest) \<and>
      tunnel_allowed sample_registry (PeerId [1]) [''admin''] header srv \<and> tcp_connect sample_net (target srv) = Inr local \<and>
      [TUNNEL_ACK, 0x2A] = [] @ [TUNNEL_ACK] @ sent"
    by (simp add: instantly_def [of f, THEN arg_cong [of _ _ outgoing]])
  then show ?thesis by blast
qed

text \<open>C7 (radio silence). Unless the header arrives in time and is well formed, the service is
  exposed, the role and the binary hash fit and the local service accepts the connection, the
  stream is given up exactly as it was: not a byte is written, whichever check failed.\<close>

theorem refusal_is_silent:
  assumes "\<not> (\<exists>header rest srv local. read_header B (arrived_by HEADER_TIMEOUT stream) = Inr (header, rest) \<and>
      tunnel_allowed registry peer rs header srv \<and> tcp_connect N (target srv) = Inr local)"
  shows "serve_stream B N peer stream rs registry = (TunnelDenied, outgoing stream)"
  unfolding serve_stream_def using assms by (intro serve_io_refused) (simp add: header_in_time_Some)

theorem refusal_is_silent_witness:
  "serve_stream sample_header_bincode sample_net (PeerId [1]) (instantly [0xFF, 0xFF, 1, 2]) [''admin''] sample_registry
     = (TunnelDenied, \<lparr>written = [], fail_after = None\<rparr>)"
proof -
  have "read_header sample_header_bincode (arrived_by HEADER_TIMEOUT (instantly [0xFF, 0xFF, 1, 2]))
      = Inl (IoError InvalidData ''header too long'')"
    by (simp add: arrived_instantly read_header_def read_exact_def MAX_TUNNEL_HEADER_SIZE_def)
  then have "serve_stream sample_header_bincode sample_net (PeerId [1]) (instantly [0xFF, 0xFF, 1, 2]) [''admin''] sample_registry
     = (TunnelDenied, outgoing (instantly [0xFF, 0xFF, 1, 2]))"
    by (intro refusal_is_silent) simp
  then show ?thesis by (simp add: instantly_def)
qed

text \<open>A complete opening. For a header that fits its frame, the Client's \<open>open\<close> succeeds exactly
  when the Guard exposes the service, the session has the required role, the hash fits and
  the service accepts the connection; in every other case the Client gets the same
  \<open>AccessDenied\<close>, which says nothing of the reason.\<close>

theorem opening_succeeds_iff_allowed:
  assumes "bincode_ok B" "header_frame B h = Some f" "h = \<lparr>service = name, binary_sha256 = sha\<rparr>"
  shows "(if \<exists>srv local. tunnel_allowed registry peer rs h srv \<and> tcp_connect N (target srv) = Inr local
     then (\<exists>tunnel. snd (full_opening B N peer sha name rs registry) = Inr tunnel)
     else full_opening B N peer sha name rs registry = (TunnelDenied, Inl AccessDenied))"
proof -
  let ?s = "\<lparr>written = [], fail_after = None\<rparr>" and ?in = "instantly f"
  have w: "write_header B h ?s = (Inr (), \<lparr>written = f, fail_after = None\<rparr>)"
    using assms(2) by (simp add: write_header_sound)
  note head = header_instantly [OF assms(1,2)]
  have opens: "full_opening B N peer sha name rs registry =
      (let (outcome, out) = serve_io B N peer ?in rs registry in (outcome,
         (case written out of [] \<Rightarrow> Inl AccessDenied | b # bs \<Rightarrow>
            if [b] \<noteq> [TUNNEL_ACK] then Inl (Protocol (UnexpectedAck b))
            else Inr \<lparr>rd = \<lparr>avail = bs, ending = Eof\<rparr>, wr = \<lparr>written = f, fail_after = None\<rparr>\<rparr>)))"
    using w by (auto simp: full_opening_def open_tunnel_def assms(3) read_exact_def split: prod.splits list.splits)
  show ?thesis
  proof (cases "\<exists>srv local. tunnel_allowed registry peer rs h srv \<and> tcp_connect N (target srv) = Inr local")
    case True
    then obtain srv local where "tunnel_allowed registry peer rs h srv" "tcp_connect N (target srv) = Inr local"
      by blast
    from serve_io_allowed [OF head this] have "\<exists>n m sent. serve_io B N peer ?in rs registry =
        (Served n m, \<lparr>written = TUNNEL_ACK # sent, fail_after = None\<rparr>)"
      by (simp add: instantly_def flush_def split: prod.splits sum.splits)
    then show ?thesis using True by (auto simp: opens)
  next
    case False
    then have "serve_io B N peer ?in rs registry = (TunnelDenied, outgoing ?in)"
      using head by (intro serve_io_refused) auto
    with False show ?thesis by (simp add: opens instantly_def)
  qed
qed

theorem opening_succeeds_iff_allowed_witness:
  "full_opening sample_header_bincode sample_net (PeerId [1]) [6] ''db'' [''admin''] sample_registry = (TunnelDenied, Inl AccessDenied)"
proof -
  let ?h = "\<lparr>service = ''db'', binary_sha256 = [6]\<rparr>"
  obtain f where f: "header_frame sample_header_bincode ?h = Some f"
    using sample_header_frame by blast
  have no: "\<not> tunnel_allowed sample_registry (PeerId [1]) [''admin''] ?h srv" for srv
    by (simp add: tunnel_allowed_def sample_registry_def require_binary_sha256_def)
  show ?thesis
    using opening_succeeds_iff_allowed [OF sample_header_bincode_ok f refl, of sample_registry "PeerId [1]"
        "[''admin'']" sample_net] no
    by simp
qed

section \<open>The accept loops\<close>

text \<open>The connections accepted before shutdown was requested.\<close>

fun accepted_before_stop :: "'c accept_event list \<Rightarrow> 'c list" where
  "accepted_before_stop [] = []"
| "accepted_before_stop (Cancelled # _) = []"
| "accepted_before_stop (Accepted c # evs) = c # accepted_before_stop evs"
| "accepted_before_stop (AcceptFailed _ # evs) = accepted_before_stop evs"

lemma forward_listener_eq: "fst (forward_listener evs relays) = relays @ accepted_before_stop evs"
  by (induction evs relays rule: forward_listener.induct) auto

lemma forward_unix_eq:
  "forward_unix_listener uids evs relays closed =
     (relays @ map fst (filter (\<lambda>(_, cred). peer_uid_authorized cred uids) (accepted_before_stop evs)),
      closed @ map fst (filter (\<lambda>(_, cred). \<not> peer_uid_authorized cred uids) (accepted_before_stop evs)),
      Cancelled \<in> set evs)"
  by (induction uids evs relays closed rule: forward_unix_listener.induct) auto

text \<open>Local access control. On a Unix socket the Client relays, in order, exactly the connections
  accepted before shutdown whose process the kernel reports with an allowed user id, and
  closes all the others unread; with an empty list of ids it relays nothing.\<close>

theorem unix_relays_authorised_only:
  "fst (forward_unix_listener uids evs [] []) =
     map fst (filter (\<lambda>(_, cred). \<exists>uid. cred = Inr uid \<and> uid \<in> set uids) (accepted_before_stop evs)) \<and>
   fst (snd (forward_unix_listener uids evs [] [])) =
     map fst (filter (\<lambda>(_, cred). \<not> (\<exists>uid. cred = Inr uid \<and> uid \<in> set uids)) (accepted_before_stop evs)) \<and>
   fst (forward_unix_listener [] evs [] []) = []"
proof -
  have cred: "peer_uid_authorized c us \<longleftrightarrow> (\<exists>uid. c = Inr uid \<and> uid \<in> set us)" for c us
    by (auto simp: peer_uid_authorized_def split: sum.splits)
  show ?thesis by (simp add: forward_unix_eq cred)
qed

end
