(* ===== verification/Text.thy ===== *)
theory Text imports Nux_Prelude "HOL-Library.Sublist" begin

text \<open>
  The operations on strings of the Rust standard library that the code calls: decimal
  printing and \<^verbatim>\<open>FromStr\<close> of unsigned integers, \<^verbatim>\<open>trim\<close>, \<^verbatim>\<open>split_once\<close> and \<^verbatim>\<open>lines\<close>. Strings are
  their UTF-8 bytes.
\<close>

section \<open>Decimal numbers\<close>

definition digit :: "nat \<Rightarrow> char" where
  "digit d = char_of (48 + d)"

definition is_digit :: "char \<Rightarrow> bool" where
  "is_digit c \<longleftrightarrow> 48 \<le> (of_char c :: nat) \<and> (of_char c :: nat) \<le> 57"

fun decimal :: "nat \<Rightarrow> string" where
  "decimal n = (if n < 10 then [digit n] else decimal (n div 10) @ [digit (n mod 10)])"

declare decimal.simps [simp del]

definition digits_value :: "string \<Rightarrow> nat" where
  "digits_value cs = foldl (\<lambda>v c. 10 * v + (of_char c - 48)) 0 cs"

text \<open>
  \<^verbatim>\<open>uN::from_str\<close>: an optional plus sign, then at least one digit and nothing else, with no
  overflow of the type whose largest value is \<open>largest\<close>.
\<close>

definition parse_unsigned :: "nat \<Rightarrow> string \<Rightarrow> nat option" where
  "parse_unsigned largest s =
     (let ds = (case s of c # cs \<Rightarrow> if c = CHR ''+'' then cs else s | [] \<Rightarrow> []) in
      if ds = [] \<or> \<not> list_all is_digit ds \<or> digits_value ds > largest then None
      else Some (digits_value ds))"

lemma of_char_digit [simp]: "d < 10 \<Longrightarrow> (of_char (digit d) :: nat) = 48 + d"
  by (simp add: digit_def)

lemma is_digit_digit [simp]: "d < 10 \<Longrightarrow> is_digit (digit d)"
  by (simp add: is_digit_def)

lemma digits_value_snoc: "digits_value (cs @ [c]) = 10 * digits_value cs + (of_char c - 48)"
  by (simp add: digits_value_def)

lemma decimal_nonempty [simp]: "decimal n \<noteq> []"
  by (subst decimal.simps) simp

lemma decimal_digits: "list_all is_digit (decimal n)"
proof (induction n rule: decimal.induct)
  case (1 n)
  then show ?case by (subst decimal.simps) simp
qed

lemma digits_value_decimal: "digits_value (decimal n) = n"
proof (induction n rule: decimal.induct)
  case (1 n)
  show ?case
  proof (cases "n < 10")
    case True
    then show ?thesis by (subst decimal.simps) (simp add: digits_value_def)
  next
    case False
    with 1 show ?thesis by (subst decimal.simps) (simp add: digits_value_snoc)
  qed
qed

lemma decimal_inj: "decimal m = decimal n \<Longrightarrow> m = n"
  by (metis digits_value_decimal)

lemma parse_decimal: "n \<le> largest \<Longrightarrow> parse_unsigned largest (decimal n) = Some n"
proof (cases "decimal n")
  case Nil
  then show ?thesis by simp
next
  case (Cons c cs)
  from decimal_digits [of n] Cons have "c \<noteq> CHR ''+''"
    by (auto simp: is_digit_def)
  moreover assume "n \<le> largest"
  ultimately show ?thesis
    using Cons decimal_digits [of n] digits_value_decimal [of n]
    by (simp add: parse_unsigned_def Let_def)
qed

lemma parse_unsigned_bound: "parse_unsigned largest s = Some n \<Longrightarrow> n \<le> largest"
  by (auto simp: parse_unsigned_def Let_def split: if_splits)

section \<open>White space\<close>

text \<open>The UTF-8 encodings of the characters with the Unicode property \<^verbatim>\<open>White_Space\<close>.\<close>

definition white_space :: "string list" where
  "white_space =
     map (\<lambda>c. [char_of (c :: nat)]) [0x09, 0x0A, 0x0B, 0x0C, 0x0D, 0x20] @
     map (\<lambda>c. [char_of (0xC2 :: nat), char_of (c :: nat)]) [0x85, 0xA0] @
     [map char_of [0xE1 :: nat, 0x9A, 0x80]] @
     map (\<lambda>c. map char_of [0xE2 :: nat, 0x80, c])
       [0x80, 0x81, 0x82, 0x83, 0x84, 0x85, 0x86, 0x87, 0x88, 0x89, 0x8A, 0xA8, 0xA9, 0xAF] @
     [map char_of [0xE2 :: nat, 0x81, 0x9F], map char_of [0xE3 :: nat, 0x80, 0x80]]"

definition starting :: "string list \<Rightarrow> string \<Rightarrow> string option" where
  "starting pats s = List.find (\<lambda>p. p \<noteq> [] \<and> prefix p s) pats"

function strip :: "string list \<Rightarrow> string \<Rightarrow> string" where
  "strip pats s = (case starting pats s of None \<Rightarrow> s | Some p \<Rightarrow> strip pats (drop (length p) s))"
  by auto

lemma starting_Some: "starting pats s = Some p \<Longrightarrow> p \<noteq> [] \<and> prefix p s"
  by (auto simp: starting_def find_Some_iff)

termination strip
  by (relation "measure (length \<circ> snd)")
    (auto dest!: starting_Some simp: prefix_def neq_Nil_conv)

declare strip.simps [simp del]

definition trim :: "string \<Rightarrow> string" where
  "trim s = rev (strip (map rev white_space) (rev (strip white_space s)))"

lemma strip_fixed: "starting pats s = None \<Longrightarrow> strip pats s = s"
  by (subst strip.simps) simp

lemma starting_strip: "starting pats (strip pats s) = None"
proof (induction pats s rule: strip.induct)
  case (1 pats s)
  then show ?case by (subst strip.simps) (simp split: option.splits)
qed

lemma strip_suffix: "suffix (strip pats s) s"
proof (induction pats s rule: strip.induct)
  case (1 pats s)
  show ?case
  proof (cases "starting pats s")
    case None
    then show ?thesis by (simp add: strip_fixed)
  next
    case (Some p)
    with 1 have "suffix (strip pats (drop (length p) s)) (drop (length p) s)" by simp
    with Some show ?thesis
      by (subst strip.simps) (simp, meson suffix_drop suffix_order.trans)
  qed
qed

section \<open>Splitting\<close>

text \<open>\<^verbatim>\<open>split_once(c)\<close>: the parts before and after the first \<open>c\<close>.\<close>

definition split_once :: "char \<Rightarrow> string \<Rightarrow> (string \<times> string) option" where
  "split_once c s = (case dropWhile (\<lambda>x. x \<noteq> c) s of
       [] \<Rightarrow> None
     | _ # rest \<Rightarrow> Some (takeWhile (\<lambda>x. x \<noteq> c) s, rest))"

lemma split_once_Some: "split_once c s = Some (a, b) \<longleftrightarrow> s = a @ c # b \<and> c \<notin> set a"
proof
  assume "split_once c s = Some (a, b)"
  then obtain x where drop: "dropWhile (\<lambda>x. x \<noteq> c) s = x # b" and a: "a = takeWhile (\<lambda>x. x \<noteq> c) s"
    by (auto simp: split_once_def split: list.splits)
  have "x = c" using drop hd_dropWhile [of "\<lambda>x. x \<noteq> c" s] by simp
  with drop a show "s = a @ c # b \<and> c \<notin> set a"
    by (metis (mono_tags) set_takeWhileD takeWhile_dropWhile_id)
next
  assume s: "s = a @ c # b \<and> c \<notin> set a"
  then have "\<forall>x \<in> set a. x \<noteq> c" by auto
  with s show "split_once c s = Some (a, b)"
    by (simp add: split_once_def takeWhile_append2 dropWhile_append2)
qed

lemma split_once_None: "split_once c s = None \<longleftrightarrow> c \<notin> set s"
proof -
  have "split_once c s = None \<longleftrightarrow> dropWhile (\<lambda>x. x \<noteq> c) s = []"
    by (cases "dropWhile (\<lambda>x. x \<noteq> c) s") (simp_all add: split_once_def del: dropWhile_eq_Nil_conv)
  then show ?thesis by (auto simp only: dropWhile_eq_Nil_conv)
qed

text \<open>The lines of a text whose last line may lack its line feed.\<close>

function lines_of :: "string \<Rightarrow> string list" where
  "lines_of s = (case split_once (CHR 10) s of
       None \<Rightarrow> if s = [] then [] else [s]
     | Some (l, rest) \<Rightarrow> l # lines_of rest)"
  by auto

termination lines_of
  by (relation "measure length") (auto simp: split_once_Some)

declare lines_of.simps [simp del]

lemma lines_of_Nil [simp]: "lines_of [] = []"
  by (subst lines_of.simps) (simp add: split_once_def)

lemma lines_of_line: "CHR 10 \<notin> set l \<Longrightarrow> lines_of (l @ CHR 10 # rest) = l # lines_of rest"
  by (subst lines_of.simps) (simp add: split_once_Some [THEN iffD2])

end
