(* ===== verification/Metrics.thy ===== *)
theory Metrics imports Tunnel Text begin

text \<open>
  \<^verbatim>\<open>crates/nux-core/src/metrics.rs\<close>: the counters of a node and their Prometheus exposition.
  An \<^verbatim>\<open>AtomicU64\<close> is a 64-bit word and \<^verbatim>\<open>fetch_add\<close>/\<^verbatim>\<open>fetch_sub\<close> wrap, as in the code.
\<close>

section \<open>The counters\<close>

record metrics =
  auth_granted :: u64
  auth_denied :: u64
  tunnels_opened :: u64
  tunnels_denied :: u64
  tunnels_active :: u64
  bytes_in :: u64
  bytes_out :: u64

definition metrics_default :: metrics where
  "metrics_default = \<lparr>auth_granted = 0, auth_denied = 0, tunnels_opened = 0, tunnels_denied = 0,
     tunnels_active = 0, bytes_in = 0, bytes_out = 0\<rparr>"

definition record_auth_granted :: "metrics \<Rightarrow> metrics" where
  "record_auth_granted m = m\<lparr>auth_granted := auth_granted m + 1\<rparr>"

definition record_auth_denied :: "metrics \<Rightarrow> metrics" where
  "record_auth_denied m = m\<lparr>auth_denied := auth_denied m + 1\<rparr>"

definition record_tunnel_denied :: "metrics \<Rightarrow> metrics" where
  "record_tunnel_denied m = m\<lparr>tunnels_denied := tunnels_denied m + 1\<rparr>"

definition record_tunnel_started :: "metrics \<Rightarrow> metrics" where
  "record_tunnel_started m = m\<lparr>tunnels_active := tunnels_active m + 1\<rparr>"

definition record_tunnel_finished :: "tunnel_outcome \<Rightarrow> metrics \<Rightarrow> metrics" where
  "record_tunnel_finished outcome m =
     (let m = m\<lparr>tunnels_active := tunnels_active m - 1\<rparr> in
      case outcome of
        Served from_peer to_peer \<Rightarrow>
          m\<lparr>tunnels_opened := tunnels_opened m + 1, bytes_in := bytes_in m + from_peer,
            bytes_out := bytes_out m + to_peer\<rparr>
      | TunnelDenied \<Rightarrow> m\<lparr>tunnels_denied := tunnels_denied m + 1\<rparr>)"

section \<open>Exposition\<close>

text \<open>The two accented letters of the help texts, as UTF-8.\<close>

definition e_acute :: string where "e_acute = [CHR 0xC3, CHR 0xA9]"
definition e_circ :: string where "e_circ = [CHR 0xC3, CHR 0xAA]"

text \<open>Three lines of the format string: help, type, and the sample.\<close>

definition metric_block :: "string \<Rightarrow> string \<Rightarrow> string \<Rightarrow> u64 \<Rightarrow> string" where
  "metric_block name doc ty v =
     ''# HELP '' @ name @ '' '' @ doc @ [CHR 10] @ ''# TYPE '' @ name @ '' '' @ ty @ [CHR 10]
     @ name @ '' '' @ decimal (unat v) @ [CHR 10]"

definition to_prometheus_text :: "metrics \<Rightarrow> string" where
  "to_prometheus_text m = concat [
     metric_block ''nux_auth_granted_total''
       (''Authentifications r'' @ e_acute @ ''ussies.'') ''counter'' (auth_granted m),
     metric_block ''nux_auth_denied_total''
       (''Authentifications refus'' @ e_acute @ ''es (pair inconnu, signature invalide, arr'' @ e_circ @ ''t en cours).'')
       ''counter'' (auth_denied m),
     metric_block ''nux_tunnels_opened_total''
       (''Tunnels '' @ e_acute @ ''tablis avec succ'' @ [CHR 0xC3, CHR 0xA8] @ ''s (acquittement envoy'' @ e_acute @ '').'')
       ''counter'' (tunnels_opened m),
     metric_block ''nux_tunnels_denied_total''
       (''Flux tunnel abandonn'' @ e_acute @ ''s avant '' @ e_acute @ ''tablissement (silence radio).'')
       ''counter'' (tunnels_denied m),
     metric_block ''nux_tunnels_active''
       (''Tunnels actuellement en cours de relais.'') ''gauge'' (tunnels_active m),
     metric_block ''nux_bytes_from_peer_total''
       (''Octets re'' @ [CHR 0xC3, CHR 0xA7] @ ''us du pair et relay'' @ e_acute @ ''s vers le service local.'')
       ''counter'' (bytes_in m),
     metric_block ''nux_bytes_to_peer_total''
       (''Octets re'' @ [CHR 0xC3, CHR 0xA7] @ ''us du service local et relay'' @ e_acute @ ''s vers le pair.'')
       ''counter'' (bytes_out m)]"

section \<open>Reading the exposition back\<close>

text \<open>A scraper: skip comment lines, split a sample line at its first space, parse the value.\<close>

definition scrape_line :: "string \<Rightarrow> (string \<times> nat) option" where
  "scrape_line l =
     (if take 1 l = ''#'' then None
      else case split_once (CHR '' '') l of
          None \<Rightarrow> None
        | Some (name, v) \<Rightarrow> map_option (\<lambda>n. (name, n)) (parse_unsigned (2 ^ 64 - 1) v))"

definition scrape :: "string \<Rightarrow> (string \<times> nat) list" where
  "scrape text = List.map_filter scrape_line (lines_of text)"

definition one_line :: "string \<Rightarrow> bool" where
  "one_line s \<longleftrightarrow> list_all (\<lambda>c. c \<noteq> CHR 10) s"

lemma decimal_one_line: "CHR 10 \<notin> set (decimal n)" "CHR '' '' \<notin> set (decimal n)"
  using decimal_digits [of n] by (auto simp: list_all_iff is_digit_def)

lemma scrape_block:
  assumes "one_line name" "one_line doc" "one_line ty" "CHR '' '' \<notin> set name" "take 1 name \<noteq> ''#''" "name \<noteq> []"
  shows "scrape (metric_block name doc ty v @ rest) = (name, unat v) # scrape rest"
proof -
  have nl: "CHR 10 \<notin> set name" "CHR 10 \<notin> set doc" "CHR 10 \<notin> set ty"
    using assms by (auto simp: one_line_def list_all_iff)
  let ?doc_line = "''# HELP '' @ name @ '' '' @ doc" and ?type_line = "''# TYPE '' @ name @ '' '' @ ty"
    and ?sample = "name @ '' '' @ decimal (unat v)"
  have "lines_of (metric_block name doc ty v @ rest) = [?doc_line, ?type_line, ?sample] @ lines_of rest"
    using nl decimal_one_line [of "unat v"]
      lines_of_line [of ?doc_line] lines_of_line [of ?type_line] lines_of_line [of ?sample]
    by (simp add: metric_block_def)
  moreover have "scrape_line ?sample = Some (name, unat v)"
  proof -
    have "split_once (CHR '' '') ?sample = Some (name, decimal (unat v))"
      using assms(4) by (simp add: split_once_Some)
    moreover have "take 1 ?sample \<noteq> ''#''"
      using assms(5,6) by (cases name) auto
    moreover have "unat v \<le> 2 ^ 64 - 1"
      using unsigned_less [of v, where 'a = nat] by simp
    ultimately show ?thesis by (simp add: scrape_line_def parse_decimal)
  qed
  moreover have "scrape_line ?doc_line = None" "scrape_line ?type_line = None"
    by (simp_all add: scrape_line_def)
  ultimately show ?thesis by (simp add: scrape_def map_filter_simps)
qed

section \<open>Properties\<close>

text \<open>Exposition. Whatever the counters hold, a scraper that reads the text line by line finds
  exactly the seven metrics, in order, each with the value of its counter.\<close>

theorem prometheus_text_faithful:
  "scrape (to_prometheus_text m) =
     [(''nux_auth_granted_total'', unat (auth_granted m)), (''nux_auth_denied_total'', unat (auth_denied m)),
      (''nux_tunnels_opened_total'', unat (tunnels_opened m)), (''nux_tunnels_denied_total'', unat (tunnels_denied m)),
      (''nux_tunnels_active'', unat (tunnels_active m)), (''nux_bytes_from_peer_total'', unat (bytes_in m)),
      (''nux_bytes_to_peer_total'', unat (bytes_out m))]"
  by (simp add: to_prometheus_text_def scrape_block [of _ _ _ _ "[]", simplified] scrape_block one_line_def
      e_acute_def e_circ_def) (simp add: scrape_def map_filter_simps)

end
