(* ===== verification/Guard.thy ===== *)
theory Guard imports Auth_Trace Metrics begin

text \<open>
  The Guard half of \<^verbatim>\<open>crates/nux-core/src/node.rs\<close>: \<open>handle_auth_request\<close>,
  \<open>handle_guard_event\<close> and the select loop \<^verbatim>\<open>run_guard_loop\<close> with its semaphores, its control channel
  and its graceful shutdown.

  Each branch of the select is a label; one turn of the loop is \<open>guard_step\<close>, which returns
  what the node does to the outside (responses, disconnections, spawned tunnels) and the new
  state. select picks any ready branch, so the loop is any sequence of enabled labels: the
  inductive relation \<open>guard_turn\<close>. A spawned task ends through the label \<open>TaskFinished\<close>.

  tokio's \<^verbatim>\<open>Semaphore\<close> is the parameter \<open>sem_lib\<close>, with its documented behaviour as
  \<open>sem_ok\<close>. A permit keeps its own semaphore alive, even after the table \<open>per_peer\<close> has
  dropped it, so semaphores live in a store and are named by their index.
\<close>

section \<open>State and labels\<close>

datatype node_mode = ClientMode | GuardMode

datatype guard_control =
    Revoke peer_id
  | Allow peer_id "role list"
  | ReloadWhitelist whitelist
  | Shutdown duration

record 's sem_lib =
  sem_new :: "nat \<Rightarrow> 's"
  try_acquire :: "'s \<Rightarrow> 's option"
  release :: "'s \<Rightarrow> 's"
  available_permits :: "'s \<Rightarrow> nat"

definition sem_ok :: "'s sem_lib \<Rightarrow> bool" where
  "sem_ok S \<longleftrightarrow> (\<forall>n. available_permits S (sem_new S n) = n) \<and>
     (\<forall>s. try_acquire S s = None \<longleftrightarrow> available_permits S s = 0) \<and>
     (\<forall>s s'. try_acquire S s = Some s' \<longrightarrow> available_permits S s = Suc (available_permits S s')) \<and>
     (\<forall>s. available_permits S (release S s) = Suc (available_permits S s))"

text \<open>A spawned relay: the peer, the roles it captured, and the index of its peer's semaphore.\<close>

record relay_task =
  task_peer :: peer_id
  task_roles :: "role list"
  task_sem :: nat

record 's guard =
  authenticator :: guard_authenticator
  registry :: tunnel_registry
  shutdown_deadline :: "instant option"
  counters :: metrics
  global :: 's
  sem_store :: "'s list"
  per_peer :: "(peer_id, nat) hash_map"
  tasks :: "relay_task list"
  control_open :: bool
  returned :: bool

datatype event =
    AuthRequest peer_id nux_request "u64 option" bytes
  | ConnectionClosed peer_id nat
  | OtherSwarmEvent
  | IncomingStream peer_id
  | Command guard_control instant
  | ControlClosed
  | DrainTick instant
  | TaskFinished nat tunnel_outcome

datatype effect =
    Respond peer_id nux_response
  | Disconnect peer_id
  | DropStream peer_id
  | Spawn peer_id "role list"

type_synonym 's turn = "effect list \<times> 's guard"

section \<open>The code\<close>

definition guard_start :: "'s sem_lib \<Rightarrow> guard_authenticator \<Rightarrow> tunnel_registry \<Rightarrow> bool \<Rightarrow> 's guard" where
  "guard_start S A G control = \<lparr>authenticator = A, registry = G, shutdown_deadline = None,
     counters = metrics_default, global = sem_new S (max_streams_total G), sem_store = [],
     per_peer = hm_empty, tasks = [], control_open = control, returned = False\<rparr>"

text \<open>Silence: the response channel is dropped, then the connection is cut.\<close>

definition silence :: "peer_id \<Rightarrow> effect list" where
  "silence peer = [Disconnect peer]"

definition handle_auth_request :: "'pk key_lib \<Rightarrow> peer_id \<Rightarrow> nux_request \<Rightarrow> u64 option \<Rightarrow> bytes \<Rightarrow>
    's guard \<Rightarrow> 's turn" where
  "handle_auth_request K peer request now fresh g =
     (case request of
        HandshakeInit \<Rightarrow>
          if shutdown_deadline g \<noteq> None then
            (silence peer, g\<lparr>counters := record_auth_denied (counters g)\<rparr>)
          else (case issue now peer fresh (authenticator g) of
              (Some challenge, A) \<Rightarrow> ([Respond peer challenge], g\<lparr>authenticator := A\<rparr>)
            | (None, A) \<Rightarrow>
                (silence peer, g\<lparr>authenticator := A, counters := record_auth_denied (counters g)\<rparr>))
      | ChallengeAnswer signature timestamp \<Rightarrow>
          (case verify K now peer signature timestamp (authenticator g) of
             (Granted rs, A) \<Rightarrow>
               ([Respond peer (AccessGranted rs)],
                g\<lparr>authenticator := A, counters := record_auth_granted (counters g)\<rparr>)
           | (Reject, A) \<Rightarrow>
               (silence peer, g\<lparr>authenticator := A, counters := record_auth_denied (counters g)\<rparr>)))"

definition handle_guard_event :: "'pk key_lib \<Rightarrow> event \<Rightarrow> 's guard \<Rightarrow> 's turn" where
  "handle_guard_event K ev g =
     (case ev of
        AuthRequest peer request now fresh \<Rightarrow> handle_auth_request K peer request now fresh g
      | ConnectionClosed peer num_established \<Rightarrow>
          if num_established = 0 then ([], g\<lparr>authenticator := end_session peer (authenticator g)\<rparr>) else ([], g)
      | _ \<Rightarrow> ([], g))"

text \<open>\<^verbatim>\<open>per_peer.entry(peer).or_insert_with\<close>: the index of the peer's semaphore.\<close>

definition peer_semaphore :: "'s sem_lib \<Rightarrow> peer_id \<Rightarrow> 's guard \<Rightarrow> nat \<times> 's guard" where
  "peer_semaphore S peer g =
     (case hm_get (per_peer g) peer of
        Some i \<Rightarrow> (i, g)
      | None \<Rightarrow> (length (sem_store g),
          g\<lparr>sem_store := sem_store g @ [sem_new S (max_streams_per_peer (registry g))],
            per_peer := hm_insert peer (length (sem_store g)) (per_peer g)\<rparr>))"

definition deny_stream :: "peer_id \<Rightarrow> effect list \<Rightarrow> 's guard \<Rightarrow> 's turn" where
  "deny_stream peer effs g = (DropStream peer # effs, g\<lparr>counters := record_tunnel_denied (counters g)\<rparr>)"

text \<open>
  A stream that finds no global permit gives its peer permit back: \<^verbatim>\<open>peer_permit\<close> is dropped at
  the \<^verbatim>\<open>continue\<close>.
\<close>

definition handle_stream :: "'s sem_lib \<Rightarrow> peer_id \<Rightarrow> 's guard \<Rightarrow> 's turn" where
  "handle_stream S peer g =
     (if shutdown_deadline g \<noteq> None then deny_stream peer [] g
      else case session_roles (authenticator g) peer of
        None \<Rightarrow> deny_stream peer [Disconnect peer] g
      | Some rs \<Rightarrow>
          let (i, g) = peer_semaphore S peer g in
          case try_acquire S (sem_store g ! i) of
            None \<Rightarrow> deny_stream peer [] g
          | Some peer_sem \<Rightarrow>
              let g' = g\<lparr>sem_store := (sem_store g)[i := peer_sem]\<rparr> in
              case try_acquire S (global g') of
                None \<Rightarrow> deny_stream peer [] (g'\<lparr>sem_store := (sem_store g')[i := release S (sem_store g' ! i)]\<rparr>)
              | Some global_sem \<Rightarrow>
                  ([Spawn peer rs],
                   g'\<lparr>global := global_sem, counters := record_tunnel_started (counters g'),
                      tasks := tasks g' @ [\<lparr>task_peer = peer, task_roles = rs, task_sem = i\<rparr>]\<rparr>))"

definition handle_command :: "guard_control \<Rightarrow> instant \<Rightarrow> 's guard \<Rightarrow> 's turn" where
  "handle_command cmd now g =
     (case cmd of
        Shutdown grace_period \<Rightarrow> ([], g\<lparr>shutdown_deadline := Some (now + grace_period)\<rparr>)
      | Revoke peer \<Rightarrow>
          (case auth_revoke peer (authenticator g) of
             (True, A) \<Rightarrow> ([Disconnect peer], g\<lparr>authenticator := A, per_peer := hm_remove peer (per_peer g)\<rparr>)
           | (False, A) \<Rightarrow> ([], g\<lparr>authenticator := A\<rparr>))
      | Allow peer rs \<Rightarrow> ([], g\<lparr>authenticator := whitelist_mut (allow peer rs) (authenticator g)\<rparr>)
      | ReloadWhitelist w \<Rightarrow>
          (case reload_whitelist w (authenticator g) of
             (gone, A) \<Rightarrow> (map Disconnect gone, g\<lparr>authenticator := A, per_peer := fold hm_remove gone (per_peer g)\<rparr>)))"

definition drain_tick :: "'s sem_lib \<Rightarrow> instant \<Rightarrow> 's guard \<Rightarrow> 's turn" where
  "drain_tick S now g =
     (if available_permits S (global g) = max_streams_total (registry g) then ([], g\<lparr>returned := True\<rparr>)
      else case shutdown_deadline g of
          Some deadline \<Rightarrow> if now \<ge> deadline then ([], g\<lparr>returned := True\<rparr>) else ([], g)
        | None \<Rightarrow> ([], g))"

definition remove_nth :: "nat \<Rightarrow> 'a list \<Rightarrow> 'a list" where
  "remove_nth n xs = take n xs @ drop (Suc n) xs"

text \<open>The tail of the spawned task: count the outcome, then drop the two permits.\<close>

definition task_finished :: "'s sem_lib \<Rightarrow> nat \<Rightarrow> tunnel_outcome \<Rightarrow> 's guard \<Rightarrow> 's turn" where
  "task_finished S k outcome g =
     (let i = task_sem (tasks g ! k) in
      ([], g\<lparr>counters := record_tunnel_finished outcome (counters g),
             sem_store := (sem_store g)[i := release S (sem_store g ! i)],
             global := release S (global g),
             tasks := remove_nth k (tasks g)\<rparr>))"

definition guard_step :: "'pk key_lib \<Rightarrow> 's sem_lib \<Rightarrow> event \<Rightarrow> 's guard \<Rightarrow> 's turn" where
  "guard_step K S ev g =
     (case ev of
        ConnectionClosed peer num_established \<Rightarrow>
          handle_guard_event K ev
            (if num_established = 0 then g\<lparr>per_peer := hm_remove peer (per_peer g)\<rparr> else g)
      | AuthRequest _ _ _ _ \<Rightarrow> handle_guard_event K ev g
      | OtherSwarmEvent \<Rightarrow> handle_guard_event K ev g
      | IncomingStream peer \<Rightarrow> handle_stream S peer g
      | Command cmd now \<Rightarrow> handle_command cmd now g
      | ControlClosed \<Rightarrow> ([], g\<lparr>control_open := False\<rparr>)
      | DrainTick now \<Rightarrow> drain_tick S now g
      | TaskFinished k outcome \<Rightarrow> task_finished S k outcome g)"

text \<open>Which branches of the select can fire: the guards of the code, and tasks that exist.\<close>

definition enabled :: "event \<Rightarrow> 's guard \<Rightarrow> bool" where
  "enabled ev g \<longleftrightarrow> \<not> returned g \<and>
     (case ev of
        Command _ _ \<Rightarrow> control_open g
      | ControlClosed \<Rightarrow> control_open g
      | DrainTick _ \<Rightarrow> shutdown_deadline g \<noteq> None
      | TaskFinished k _ \<Rightarrow> k < length (tasks g)
      | _ \<Rightarrow> True)"

inductive guard_turn :: "'pk key_lib \<Rightarrow> 's sem_lib \<Rightarrow> 's guard \<Rightarrow> event \<Rightarrow> effect list \<Rightarrow> 's guard \<Rightarrow> bool"
  for K S where
  turn: "enabled ev g \<Longrightarrow> guard_step K S ev g = (effs, g') \<Longrightarrow> guard_turn K S g ev effs g'"

text \<open>A run of the loop, with everything it did to the outside, newest turn last.\<close>

inductive guard_run :: "'pk key_lib \<Rightarrow> 's sem_lib \<Rightarrow> 's guard \<Rightarrow> (event \<times> effect list) list \<Rightarrow> 's guard \<Rightarrow> bool"
  for K S g0 where
  start: "guard_run K S g0 [] g0"
| more_turns: "guard_run K S g0 tr g \<Longrightarrow> guard_turn K S g ev effs g' \<Longrightarrow> guard_run K S g0 (tr @ [(ev, effs)]) g'"

inductive_simps guard_turn_iff: "guard_turn K S g ev effs g'"
inductive_cases guard_turnE: "guard_turn K S g ev effs g'"
inductive_cases guard_run_snocE: "guard_run K S g0 (tr @ [x]) g"

section \<open>What a turn leaves alone\<close>

lemma guard_run_invariant:
  assumes "guard_run K S g0 tr g" "Inv g0" "list_all (\<lambda>(ev, _). ok ev) tr"
    and step: "\<And>g ev. Inv g \<Longrightarrow> enabled ev g \<Longrightarrow> ok ev \<Longrightarrow> Inv (snd (guard_step K S ev g))"
  shows "Inv g"
  using assms(1-3)
proof (induction rule: guard_run.induct)
  case start
  then show ?case by simp
next
  case (more_turns tr g ev effs g')
  then have "Inv g" "ok ev" "enabled ev g" "g' = snd (guard_step K S ev g)"
    by (auto simp: guard_turn_iff)
  then show ?case using step by simp
qed

lemma deny_stream_simps [simp]:
  "fst (deny_stream p effs g) = DropStream p # effs"
  "snd (deny_stream p effs g) = g\<lparr>counters := record_tunnel_denied (counters g)\<rparr>"
  by (simp_all add: deny_stream_def)

lemma peer_semaphore_frame [simp, frame_simps]:
  "authenticator (snd (peer_semaphore S p g)) = authenticator g"
  "registry (snd (peer_semaphore S p g)) = registry g"
  "shutdown_deadline (snd (peer_semaphore S p g)) = shutdown_deadline g"
  "counters (snd (peer_semaphore S p g)) = counters g"
  "global (snd (peer_semaphore S p g)) = global g"
  "tasks (snd (peer_semaphore S p g)) = tasks g"
  "control_open (snd (peer_semaphore S p g)) = control_open g"
  "returned (snd (peer_semaphore S p g)) = returned g"
  by (simp_all add: peer_semaphore_def split: option.split)

text \<open>The four ways a stream is turned away, and the one way it is served.\<close>

lemma handle_stream_cases:
  obtains (shutting) "shutdown_deadline g \<noteq> None" "handle_stream S p g = deny_stream p [] g"
  | (sessionless) "shutdown_deadline g = None" "session_roles (authenticator g) p = None"
      "handle_stream S p g = deny_stream p [Disconnect p] g"
  | (peer_full) i g1 rs where "shutdown_deadline g = None" "session_roles (authenticator g) p = Some rs"
      "peer_semaphore S p g = (i, g1)" "try_acquire S (sem_store g1 ! i) = None"
      "handle_stream S p g = deny_stream p [] g1"
  | (all_full) i g1 rs s g2 where "shutdown_deadline g = None" "session_roles (authenticator g) p = Some rs"
      "peer_semaphore S p g = (i, g1)" "try_acquire S (sem_store g1 ! i) = Some s"
      "g2 = g1\<lparr>sem_store := (sem_store g1)[i := s]\<rparr>" "try_acquire S (global g1) = None"
      "handle_stream S p g = deny_stream p [] (g2\<lparr>sem_store := (sem_store g2)[i := release S (sem_store g2 ! i)]\<rparr>)"
  | (served) i g1 rs s t where "shutdown_deadline g = None" "session_roles (authenticator g) p = Some rs"
      "peer_semaphore S p g = (i, g1)" "try_acquire S (sem_store g1 ! i) = Some s" "try_acquire S (global g1) = Some t"
      "handle_stream S p g = ([Spawn p rs], g1\<lparr>sem_store := (sem_store g1)[i := s], global := t,
         counters := record_tunnel_started (counters g1),
         tasks := tasks g1 @ [\<lparr>task_peer = p, task_roles = rs, task_sem = i\<rparr>]\<rparr>)"
proof (cases "shutdown_deadline g = None")
  case False
  then show thesis by (intro shutting) (simp_all add: handle_stream_def)
next
  case running: True
  show thesis
  proof (cases "session_roles (authenticator g) p")
    case None
    with running show thesis by (intro sessionless) (simp_all add: handle_stream_def)
  next
    case rs: (Some rs)
    obtain i g1 where sem: "peer_semaphore S p g = (i, g1)" by (cases "peer_semaphore S p g")
    show thesis
    proof (cases "try_acquire S (sem_store g1 ! i)")
      case None
      with running rs sem show thesis by (intro peer_full) (simp_all add: handle_stream_def)
    next
      case s: (Some s)
      show thesis
      proof (cases "try_acquire S (global g1)")
        case None
        with running rs sem s show thesis
          by (intro all_full [OF _ _ _ _ refl]) (simp_all add: handle_stream_def Let_def)
      next
        case (Some t)
        with running rs sem s show thesis
          by (intro served) (simp_all add: handle_stream_def Let_def)
      qed
    qed
  qed
qed

lemma handle_auth_request_frame [simp, frame_simps]:
  "registry (snd (handle_auth_request K p r now n g)) = registry g"
  "shutdown_deadline (snd (handle_auth_request K p r now n g)) = shutdown_deadline g"
  "global (snd (handle_auth_request K p r now n g)) = global g"
  "sem_store (snd (handle_auth_request K p r now n g)) = sem_store g"
  "per_peer (snd (handle_auth_request K p r now n g)) = per_peer g"
  "tasks (snd (handle_auth_request K p r now n g)) = tasks g"
  "control_open (snd (handle_auth_request K p r now n g)) = control_open g"
  "returned (snd (handle_auth_request K p r now n g)) = returned g"
  "tunnels_active (counters (snd (handle_auth_request K p r now n g))) = tunnels_active (counters g)"
  by (auto simp: handle_auth_request_def record_auth_denied_def record_auth_granted_def
      split: nux_request.split prod.split option.split auth_outcome.split)

text \<open>Every branch but the arrival of a stream and the end of a task keeps the relays as they are.\<close>

definition relay_event :: "event \<Rightarrow> bool" where
  "relay_event ev = (case ev of IncomingStream _ \<Rightarrow> True | TaskFinished _ _ \<Rightarrow> True | _ \<Rightarrow> False)"

lemma hm_get_fold_remove: "hm_get (fold hm_remove ks m) k = (if k \<in> set ks then None else hm_get m k)"
  by (induction ks arbitrary: m) auto

lemma quiet_turn:
  assumes "\<not> relay_event ev"
  shows "registry (snd (guard_step K S ev g)) = registry g"
    and "global (snd (guard_step K S ev g)) = global g"
    and "sem_store (snd (guard_step K S ev g)) = sem_store g"
    and "tasks (snd (guard_step K S ev g)) = tasks g"
    and "tunnels_active (counters (snd (guard_step K S ev g))) = tunnels_active (counters g)"
    and "hm_get (per_peer (snd (guard_step K S ev g))) p = Some i \<Longrightarrow> hm_get (per_peer g) p = Some i"
  using assms
  by (auto simp: relay_event_def guard_step_def handle_guard_event_def handle_command_def drain_tick_def
      hm_get_fold_remove split: event.splits guard_control.splits prod.splits bool.splits option.splits if_splits)

section \<open>Accounting of the permits\<close>

definition held :: "nat \<Rightarrow> relay_task list \<Rightarrow> nat" where
  "held i ts = length (filter (\<lambda>t. task_sem t = i) ts)"

lemma held_simps [simp]:
  "held i [] = 0" "held i (ts @ us) = held i ts + held i us"
  "held i (t # ts) = (if task_sem t = i then Suc (held i ts) else held i ts)"
  by (simp_all add: held_def)

lemma remove_nth_split: "k < length xs \<Longrightarrow> xs = take k xs @ xs ! k # drop (Suc k) xs"
  by (rule id_take_nth_drop)

lemma held_remove_nth:
  "k < length ts \<Longrightarrow> held i ts = held i (remove_nth k ts) + (if task_sem (ts ! k) = i then 1 else 0)"
  using arg_cong [OF remove_nth_split, of k ts "held i"] by (simp add: remove_nth_def)

lemma length_remove_nth: "k < length xs \<Longrightarrow> length xs = Suc (length (remove_nth k xs))"
  by (simp add: remove_nth_def)

lemma set_remove_nth: "set (remove_nth k xs) \<subseteq> set xs"
  using set_take_subset [of k xs] set_drop_subset [of "Suc k" xs] by (auto simp: remove_nth_def)

definition permit_inv :: "'s sem_lib \<Rightarrow> 's guard \<Rightarrow> bool" where
  "permit_inv S g \<longleftrightarrow>
     available_permits S (global g) + length (tasks g) = max_streams_total (registry g) \<and>
     (\<forall>i < length (sem_store g).
        available_permits S (sem_store g ! i) + held i (tasks g) = max_streams_per_peer (registry g)) \<and>
     (\<forall>t \<in> set (tasks g). task_sem t < length (sem_store g)) \<and>
     (\<forall>p i. hm_get (per_peer g) p = Some i \<longrightarrow> i < length (sem_store g)) \<and>
     (\<forall>p i. hm_get (per_peer g) p = Some i \<longrightarrow> (\<forall>t \<in> set (tasks g). task_sem t = i \<longrightarrow> task_peer t = p)) \<and>
     (\<forall>p q i. hm_get (per_peer g) p = Some i \<longrightarrow> hm_get (per_peer g) q = Some i \<longrightarrow> p = q) \<and>
     tunnels_active (counters g) = word_of_nat (length (tasks g))"

lemma sem_okD:
  assumes "sem_ok S"
  shows "available_permits S (sem_new S n) = n"
    and "try_acquire S s = None \<longleftrightarrow> available_permits S s = 0"
    and "try_acquire S s = Some s' \<Longrightarrow> available_permits S s = Suc (available_permits S s')"
    and "available_permits S (release S s) = Suc (available_permits S s)"
  using assms unfolding sem_ok_def by blast+

lemma permit_inv_start: "sem_ok S \<Longrightarrow> permit_inv S (guard_start S A G c)"
  by (simp add: permit_inv_def guard_start_def sem_okD metrics_default_def)

lemma permit_inv_quiet:
  assumes "permit_inv S g" "\<not> relay_event ev"
  shows "permit_inv S (snd (guard_step K S ev g))"
proof -
  note le = quiet_turn(6) [OF assms(2), where K = K and S = S and g = g]
  from assms(1) show ?thesis
    unfolding permit_inv_def quiet_turn(1-5) [OF assms(2)]
    by (elim conjE, intro conjI) (assumption | simp | meson le)+
qed

lemma permit_inv_denied: "permit_inv S g \<Longrightarrow> permit_inv S (snd (deny_stream p effs g))"
  by (simp add: permit_inv_def record_tunnel_denied_def)

lemma permit_inv_peer_semaphore:
  assumes "sem_ok S" "permit_inv S g" "peer_semaphore S p g = (i, g1)"
  shows "permit_inv S g1" "hm_get (per_peer g1) p = Some i" "i < length (sem_store g1)"
proof -
  have fresh: "held (length (sem_store g)) (tasks g) = 0"
    using assms(2) by (fastforce simp: permit_inv_def held_def filter_empty_conv)
  have "permit_inv S g1 \<and> hm_get (per_peer g1) p = Some i \<and> i < length (sem_store g1)"
  proof (cases "hm_get (per_peer g) p")
    case (Some j)
    with assms show ?thesis by (auto simp: peer_semaphore_def permit_inv_def)
  next
    case None
    then have g1: "i = length (sem_store g)" "g1 = g\<lparr>
        sem_store := sem_store g @ [sem_new S (max_streams_per_peer (registry g))],
        per_peer := hm_insert p (length (sem_store g)) (per_peer g)\<rparr>"
      using assms(3) by (auto simp: peer_semaphore_def)
    have "available_permits S (sem_store g1 ! j) + held j (tasks g1) = max_streams_per_peer (registry g1)"
      if "j < length (sem_store g1)" for j
      using that assms(1,2) fresh
      by (cases "j = length (sem_store g)") (auto simp: g1 permit_inv_def nth_append sem_okD)
    moreover have "task_sem t < length (sem_store g)" if "t \<in> set (tasks g)" for t
      using that assms(2) by (auto simp: permit_inv_def)
    moreover have "j < length (sem_store g)" if "hm_get (per_peer g) q = Some j" for q j
      using that assms(2) by (auto simp: permit_inv_def)
    ultimately show ?thesis
      using assms(2) unfolding permit_inv_def g1
      by (auto simp: less_Suc_eq)
  qed
  then show "permit_inv S g1" "hm_get (per_peer g1) p = Some i" "i < length (sem_store g1)" by blast+
qed

lemma permit_inv_served:
  assumes "sem_ok S" "permit_inv S g" "hm_get (per_peer g) p = Some i" "i < length (sem_store g)"
    "try_acquire S (sem_store g ! i) = Some s" "try_acquire S (global g) = Some t"
  shows "permit_inv S (g\<lparr>sem_store := (sem_store g)[i := s], global := t,
    counters := record_tunnel_started (counters g),
    tasks := tasks g @ [\<lparr>task_peer = p, task_roles = rs, task_sem = i\<rparr>]\<rparr>)"
proof -
  note acq = sem_okD(3) [OF assms(1) assms(5)] sem_okD(3) [OF assms(1) assms(6)]
  have "available_permits S (sem_store g ! i) + held i (tasks g) = max_streams_per_peer (registry g)"
    using assms(2,4) by (simp add: permit_inv_def)
  then show ?thesis
    using assms(2-4) acq
    by (auto simp: permit_inv_def nth_list_update record_tunnel_started_def)
qed

lemma permit_inv_give_back:
  assumes "sem_ok S" "permit_inv S g" "i < length (sem_store g)" "try_acquire S (sem_store g ! i) = Some s"
    "g2 = g\<lparr>sem_store := (sem_store g)[i := s]\<rparr>"
  shows "permit_inv S (g2\<lparr>sem_store := (sem_store g2)[i := release S (sem_store g2 ! i)]\<rparr>)"
  using assms sem_okD(3) [OF assms(1,4)]
  by (auto simp: permit_inv_def nth_list_update sem_okD(4))

lemma permit_inv_stream:
  assumes "sem_ok S" "permit_inv S g"
  shows "permit_inv S (snd (handle_stream S p g))"
proof (cases rule: handle_stream_cases [where g = g and S = S and p = p])
  case shutting
  with assms(2) show ?thesis by (simp only: permit_inv_denied)
next
  case sessionless
  with assms(2) show ?thesis by (simp only: permit_inv_denied)
next
  case (peer_full i g1 rs)
  with permit_inv_peer_semaphore [OF assms peer_full(3)] show ?thesis by (simp only: permit_inv_denied)
next
  case (all_full i g1 rs s g2)
  note sem = permit_inv_peer_semaphore [OF assms all_full(3)]
  from permit_inv_give_back [OF assms(1) sem(1,3) all_full(4,5)] show ?thesis
    by (simp only: all_full(7) permit_inv_denied)
next
  case (served i g1 rs s t)
  note sem = permit_inv_peer_semaphore [OF assms served(3)]
  from permit_inv_served [OF assms(1) sem(1,2,3) served(4,5), of rs] served(6) show ?thesis by simp
qed

lemma permit_inv_finished:
  assumes "sem_ok S" "permit_inv S g" "k < length (tasks g)"
  shows "permit_inv S (snd (task_finished S k outcome g))"
proof -
  let ?i = "task_sem (tasks g ! k)"
  have i: "?i < length (sem_store g)" using assms(2,3) by (auto simp: permit_inv_def)
  have active: "tunnels_active (record_tunnel_finished outcome m) = tunnels_active m - 1" for m
    by (cases outcome) (simp_all add: record_tunnel_finished_def Let_def)
  have store: "available_permits S ((sem_store g)[?i := release S (sem_store g ! ?i)] ! j) + held j (remove_nth k (tasks g))
      = max_streams_per_peer (registry g)" if "j < length (sem_store g)" for j
    using that i assms(1,2) held_remove_nth [OF assms(3), of j]
    by (auto simp: permit_inv_def nth_list_update sem_okD(4) split: if_splits)
  show ?thesis
    using assms(2) store length_remove_nth [OF assms(3)] set_remove_nth [of k "tasks g"]
    by (auto simp: permit_inv_def task_finished_def Let_def sem_okD(4) [OF assms(1)] active subset_iff)
qed

lemma permit_inv_step:
  assumes "sem_ok S" "permit_inv S g" "enabled ev g"
  shows "permit_inv S (snd (guard_step K S ev g))"
proof (cases "relay_event ev")
  case False
  with assms(2) show ?thesis by (rule permit_inv_quiet)
next
  case True
  with assms show ?thesis
    by (cases ev) (simp_all add: relay_event_def guard_step_def enabled_def permit_inv_stream permit_inv_finished)
qed

lemma permit_inv_run:
  assumes "sem_ok S" "guard_run K S (guard_start S A G c) tr g"
  shows "permit_inv S g"
  by (rule guard_run_invariant [OF assms(2), where ok = "\<lambda>_. True"])
    (simp_all add: assms(1) permit_inv_start permit_inv_step list_all_iff)

lemma registry_stream: "registry (snd (handle_stream S p g)) = registry g"
proof (cases rule: handle_stream_cases [where g = g and S = S and p = p])
  case (peer_full i g1 rs)
  then show ?thesis using peer_semaphore_frame(2) [of S p g] by simp
next
  case (all_full i g1 rs s g2)
  then show ?thesis using peer_semaphore_frame(2) [of S p g] by simp
next
  case (served i g1 rs s t)
  then show ?thesis using peer_semaphore_frame(2) [of S p g] by simp
qed simp_all

lemma registry_step: "registry (snd (guard_step K S ev g)) = registry g"
proof (cases "relay_event ev")
  case False
  then show ?thesis by (rule quiet_turn)
next
  case True
  then show ?thesis
    by (cases ev) (simp_all add: relay_event_def guard_step_def registry_stream task_finished_def Let_def)
qed

lemma registry_run: "guard_run K S g0 tr g \<Longrightarrow> registry g = registry g0"
  by (rule guard_run_invariant [where ok = "\<lambda>_. True"]) (simp_all add: registry_step list_all_iff)

end
