(* ===== verification/Guard_Properties.thy ===== *)
theory Guard_Properties imports Guard begin

text \<open>
  What the Guard's loop of \<open>Guard\<close> guarantees over every run: where its challenges, sessions and
  tunnels come from, what it sends, and how it stops. The statements are about the trace, that
  is about the events the node received and what it did on the network.
\<close>

section \<open>Where challenges and sessions come from\<close>

text \<open>The events that take away what \<open>p\<close> has: a pending challenge, or an open session.\<close>

fun takes_challenge :: "peer_id \<Rightarrow> event \<Rightarrow> bool" where
  "takes_challenge p (AuthRequest q (ChallengeAnswer _ _) _ _) = (p = q)"
| "takes_challenge p (ConnectionClosed q n) = (p = q \<and> n = 0)"
| "takes_challenge p (Command (Revoke q) _) = (p = q)"
| "takes_challenge p _ = False"

fun takes_session :: "peer_id \<Rightarrow> event \<Rightarrow> bool" where
  "takes_session p (ConnectionClosed q n) = (p = q \<and> n = 0)"
| "takes_session p (Command (Revoke q) _) = (p = q)"
| "takes_session p (Command (ReloadWhitelist w) _) = (roles w p = None)"
| "takes_session p _ = False"

lemma handle_stream_auth [simp]: "authenticator (snd (handle_stream S p g)) = authenticator g"
proof (cases rule: handle_stream_cases [where g = g and S = S and p = p])
  case (peer_full i g1 rs)
  then show ?thesis using peer_semaphore_frame(1) [of S p g] by simp
next
  case (all_full i g1 rs s g2)
  then show ?thesis using peer_semaphore_frame(1) [of S p g] by simp
next
  case (served i g1 rs s t)
  then show ?thesis using peer_semaphore_frame(1) [of S p g] by simp
qed simp_all

text \<open>The loop acts on its authority only through the operations of \<open>Auth_Trace\<close>.\<close>

fun guard_ops :: "event \<Rightarrow> 's guard \<Rightarrow> auth_op list" where
  "guard_ops (AuthRequest p HandshakeInit now fresh) g =
     (if shutdown_deadline g = None then [OpIssue p (unix_now now) fresh] else [])"
| "guard_ops (AuthRequest p (ChallengeAnswer signature timestamp) now _) g =
     [OpVerify p signature timestamp (unix_now now)]"
| "guard_ops (ConnectionClosed p n) g = (if n = 0 then [OpEndSession p] else [])"
| "guard_ops (Command (Revoke p) _) g = [OpRevoke p]"
| "guard_ops (Command (Allow p rs) _) g = [OpAllow p rs]"
| "guard_ops (Command (ReloadWhitelist w) _) g = [OpReload w]"
| "guard_ops _ g = []"

lemma handle_auth_request_auth:
  "authenticator (snd (handle_auth_request K p r now fresh g)) =
     (case r of HandshakeInit \<Rightarrow> if shutdown_deadline g = None
         then snd (issue_at p (unix_now now) fresh (authenticator g)) else authenticator g
      | ChallengeAnswer sig ts \<Rightarrow> snd (verify_at K p sig ts (unix_now now) (authenticator g)))"
  by (auto simp: handle_auth_request_def issue_def verify_def
      split: nux_request.split prod.split option.split auth_outcome.split)

lemma guard_step_auth:
  "authenticator (snd (guard_step K S ev g)) = auth_run K (guard_ops ev g) (authenticator g)"
proof (cases ev)
  case (AuthRequest p r now fresh)
  then show ?thesis
    by (cases r) (simp_all add: guard_step_def handle_guard_event_def handle_auth_request_auth)
next
  case (Command cmd now)
  then show ?thesis
    by (cases cmd) (auto simp: guard_step_def handle_command_def split: prod.split bool.split)
qed (auto simp: guard_step_def handle_guard_event_def drain_tick_def task_finished_def Let_def split: option.split)

lemma guard_run_auth:
  assumes "guard_run K S g0 tr g"
  shows "\<exists>ops. authenticator g = auth_run K ops (authenticator g0)"
  using assms
proof (induction rule: guard_run.induct)
  case start
  show ?case by (rule exI [of _ "[]"]) simp
next
  case (more_turns tr g ev effs g')
  then obtain ops where "authenticator g = auth_run K ops (authenticator g0)" by blast
  with more_turns(2) have "authenticator g' = auth_run K (ops @ guard_ops ev g) (authenticator g0)"
    using guard_step_auth [of K S ev g] by (auto simp: guard_turn_iff)
  then show ?case by blast
qed

lemma auth_request_effects:
  "fst (guard_step K S (AuthRequest p r now n) g) =
     (case r of
        HandshakeInit \<Rightarrow>
          if shutdown_deadline g = None \<and> roles (whitelist (authenticator g)) p \<noteq> None
          then [Respond p (Challenge n (unix_now now))] else [Disconnect p]
      | ChallengeAnswer sig ts \<Rightarrow>
          (case fst (verify_at K p sig ts (unix_now now) (authenticator g)) of
             Granted rs \<Rightarrow> [Respond p (AccessGranted rs)]
           | Reject \<Rightarrow> [Disconnect p]))"
  by (auto simp: guard_step_def handle_guard_event_def handle_auth_request_def issue_def verify_def issue_at_def
      silence_def split: nux_request.split prod.split option.split auth_outcome.split)

lemma pending_turn:
  assumes "hm_get (pending (authenticator (snd (guard_step K S ev g)))) p = Some c"
  shows "(\<exists>now n. ev = AuthRequest p HandshakeInit now n \<and> shutdown_deadline g = None \<and>
      fst (guard_step K S ev g) = [Respond p (Challenge n (unix_now now))] \<and>
      c = \<lparr>nonce = n, issued_at = unix_now now\<rparr> \<and> roles (whitelist (authenticator g)) p \<noteq> None) \<or>
    (hm_get (pending (authenticator g)) p = Some c \<and> \<not> takes_challenge p ev)"
proof (cases ev)
  case (AuthRequest q r now n)
  with assms show ?thesis
    by (cases r) (auto simp: guard_step_auth issue_at_pending auth_request_effects split: if_splits)
next
  case (Command cmd now)
  with assms show ?thesis
    by (cases cmd) (auto simp: guard_step_auth auth_step_pending auth_revoke_def Let_def whitelist_mut_def
        dest: reload_pending_le split: if_splits)
qed (use assms in \<open>auto simp: guard_step_auth end_session_def split: if_splits\<close>)

lemma pending_run:
  assumes "guard_run K S g0 tr g" "hm_get (pending (authenticator g0)) p = None"
    "hm_get (pending (authenticator g)) p = Some c"
  shows "\<exists>tr1 now n tr2. tr = tr1 @ (AuthRequest p HandshakeInit now n, [Respond p (Challenge n (unix_now now))]) # tr2 \<and>
    c = \<lparr>nonce = n, issued_at = unix_now now\<rparr> \<and> (\<forall>(ev, _) \<in> set tr2. \<not> takes_challenge p ev)"
  using assms(1,3)
proof (induction rule: guard_run.induct)
  case start
  with assms(2) show ?case by simp
next
  case (more_turns tr g ev effs g')
  then have eff: "effs = fst (guard_step K S ev g)" and g': "g' = snd (guard_step K S ev g)"
    by (auto simp: guard_turn_iff)
  from pending_turn [of K S ev g p c] more_turns.prems have "(\<exists>now n. ev = AuthRequest p HandshakeInit now n \<and>
      effs = [Respond p (Challenge n (unix_now now))] \<and> c = \<lparr>nonce = n, issued_at = unix_now now\<rparr>) \<or>
      (hm_get (pending (authenticator g)) p = Some c \<and> \<not> takes_challenge p ev)"
    unfolding eff g' by blast
  then show ?case
  proof (elim disjE exE conjE)
    fix now n assume "ev = AuthRequest p HandshakeInit now n"
      "effs = [Respond p (Challenge n (unix_now now))]" "c = \<lparr>nonce = n, issued_at = unix_now now\<rparr>"
    then show ?thesis by (intro exI [of _ tr] exI [of _ now] exI [of _ n] exI [of _ "[]"]) simp
  next
    assume "hm_get (pending (authenticator g)) p = Some c" "\<not> takes_challenge p ev"
    with more_turns.IH obtain tr1 now n tr2 where
      "tr = tr1 @ (AuthRequest p HandshakeInit now n, [Respond p (Challenge n (unix_now now))]) # tr2"
      "c = \<lparr>nonce = n, issued_at = unix_now now\<rparr>" "\<forall>(ev, _) \<in> set (tr2 @ [(ev, effs)]). \<not> takes_challenge p ev"
      by fastforce
    then show ?thesis
      by (intro exI [of _ tr1] exI [of _ now] exI [of _ n] exI [of _ "tr2 @ [(ev, effs)]"]) simp
  qed
qed

lemma session_turn:
  assumes "auth_wf (authenticator g)" "\<And>w now. ev = Command (ReloadWhitelist w) now \<Longrightarrow> whitelist_wf w"
    and "hm_get (sessions (authenticator (snd (guard_step K S ev g)))) p \<noteq> None"
  shows "(\<exists>sig ts now n rs. ev = AuthRequest p (ChallengeAnswer sig ts) now n \<and>
      fst (guard_step K S ev g) = [Respond p (AccessGranted rs)]) \<or>
    (hm_get (sessions (authenticator g)) p \<noteq> None \<and> \<not> takes_session p ev)"
proof (cases ev)
  case (AuthRequest q r now n)
  with assms(3) show ?thesis
    by (cases r) (auto simp: guard_step_auth verify_at_sessions auth_request_effects
        split: if_splits auth_outcome.splits)
next
  case (Command cmd now)
  with assms show ?thesis
    by (cases cmd) (auto simp: guard_step_auth auth_revoke_def Let_def whitelist_mut_def reload_fields split: if_splits)
qed (use assms(3) in \<open>auto simp: guard_step_auth end_session_def split: if_splits\<close>)

fun sound_event :: "event \<Rightarrow> bool" where
  "sound_event (Command (ReloadWhitelist w) _) = whitelist_wf w"
| "sound_event _ = True"

lemma guard_ops_built: "sound_event ev \<Longrightarrow> op \<in> set (guard_ops ev g) \<Longrightarrow> built op"
  by (cases "(ev, g)" rule: guard_ops.cases) (auto split: if_splits)

lemma guard_auth_inv_step:
  "auth_inv (authenticator g) \<Longrightarrow> sound_event ev \<Longrightarrow> auth_inv (authenticator (snd (guard_step K S ev g)))"
  unfolding guard_step_auth
  by (rule auth.inv_run) (auto dest: guard_ops_built)

lemma guard_auth_inv_run:
  assumes "guard_run K S g0 tr g" "auth_inv (authenticator g0)" "list_all (\<lambda>(ev, _). sound_event ev) tr"
  shows "auth_inv (authenticator g)"
  by (rule guard_run_invariant [OF assms(1), where ok = sound_event])
    (simp_all add: assms guard_auth_inv_step)

lemma session_run:
  assumes "guard_run K S g0 tr g" "hm_get (sessions (authenticator g0)) p = None" "auth_inv (authenticator g0)"
    "list_all (\<lambda>(ev, _). sound_event ev) tr" "hm_get (sessions (authenticator g)) p \<noteq> None"
  shows "\<exists>tr1 sig ts now n rs tr2.
    tr = tr1 @ (AuthRequest p (ChallengeAnswer sig ts) now n, [Respond p (AccessGranted rs)]) # tr2 \<and>
    (\<forall>(ev, _) \<in> set tr2. \<not> takes_session p ev)"
  using assms(1,4,5)
proof (induction rule: guard_run.induct)
  case start
  with assms(2) show ?case by simp
next
  case (more_turns tr g ev effs g')
  then have eff: "effs = fst (guard_step K S ev g)" and g': "g' = snd (guard_step K S ev g)"
    by (auto simp: guard_turn_iff)
  have wf: "auth_wf (authenticator g)"
    using guard_auth_inv_run [OF more_turns(1) assms(3)] more_turns.prems(1) by (simp add: auth_inv_def)
  have "(\<exists>sig ts now n rs. ev = AuthRequest p (ChallengeAnswer sig ts) now n \<and> effs = [Respond p (AccessGranted rs)]) \<or>
      (hm_get (sessions (authenticator g)) p \<noteq> None \<and> \<not> takes_session p ev)"
    unfolding eff using more_turns.prems by (intro session_turn [OF wf]) (auto simp: g')
  then show ?case
  proof (elim disjE exE conjE)
    fix sig ts now n rs assume "ev = AuthRequest p (ChallengeAnswer sig ts) now n" "effs = [Respond p (AccessGranted rs)]"
    then show ?thesis by (intro exI [of _ tr] exI [of _ sig] exI [of _ ts] exI [of _ now] exI [of _ n]
          exI [of _ rs] exI [of _ "[]"]) simp
  next
    assume "hm_get (sessions (authenticator g)) p \<noteq> None" "\<not> takes_session p ev"
    with more_turns.IH more_turns.prems(1) obtain tr1 sig ts now n rs tr2 where
      "tr = tr1 @ (AuthRequest p (ChallengeAnswer sig ts) now n, [Respond p (AccessGranted rs)]) # tr2"
      "\<forall>(ev, _) \<in> set (tr2 @ [(ev, effs)]). \<not> takes_session p ev"
      by fastforce
    then show ?thesis
      by (intro exI [of _ tr1] exI [of _ sig] exI [of _ ts] exI [of _ now] exI [of _ n] exI [of _ rs]
          exI [of _ "tr2 @ [(ev, effs)]"]) simp
  qed
qed

section \<open>Streams and shutdown\<close>

lemma stream_effects:
  "Spawn p rs \<in> set (fst (guard_step K S ev g)) \<Longrightarrow>
     ev = IncomingStream p \<and> shutdown_deadline g = None \<and> session_roles (authenticator g) p = Some rs"
proof (cases ev)
  case (IncomingStream q)
  then show "Spawn p rs \<in> set (fst (guard_step K S ev g)) \<Longrightarrow> ?thesis"
    by (cases rule: handle_stream_cases [where g = g and S = S and p = q]) (auto simp: guard_step_def)
next
  case (AuthRequest q r now n)
  then show "Spawn p rs \<in> set (fst (guard_step K S ev g)) \<Longrightarrow> ?thesis"
    by (auto simp: auth_request_effects split: nux_request.splits auth_outcome.splits if_splits)
qed (auto simp: guard_step_def handle_guard_event_def handle_command_def drain_tick_def task_finished_def Let_def
    split: guard_control.splits prod.splits bool.splits option.splits if_splits)

lemma challenge_effects:
  "Respond p (Challenge n t) \<in> set (fst (guard_step K S ev g)) \<Longrightarrow>
     shutdown_deadline g = None \<and> roles (whitelist (authenticator g)) p \<noteq> None \<and>
     (\<exists>now. ev = AuthRequest p HandshakeInit now n \<and> t = unix_now now)"
proof (cases ev)
  case (IncomingStream q)
  then show "Respond p (Challenge n t) \<in> set (fst (guard_step K S ev g)) \<Longrightarrow> ?thesis"
    by (cases rule: handle_stream_cases [where g = g and S = S and p = q]) (auto simp: guard_step_def)
next
  case (AuthRequest q r now m)
  then show "Respond p (Challenge n t) \<in> set (fst (guard_step K S ev g)) \<Longrightarrow> ?thesis"
    by (auto simp: auth_request_effects split: nux_request.splits auth_outcome.splits if_splits)
qed (auto simp: guard_step_def handle_guard_event_def handle_command_def drain_tick_def task_finished_def Let_def
    split: guard_control.splits prod.splits bool.splits option.splits if_splits)

lemma shutdown_kept:
  assumes "shutdown_deadline g \<noteq> None"
  shows "shutdown_deadline (snd (guard_step K S ev g)) \<noteq> None"
  using assms
  by (auto simp: guard_step_def handle_guard_event_def handle_command_def drain_tick_def task_finished_def
      handle_stream_def Let_def split: event.split guard_control.split prod.split bool.split option.split)

section \<open>Executing a run\<close>

fun guard_exec :: "'pk key_lib \<Rightarrow> 's sem_lib \<Rightarrow> event list \<Rightarrow> 's guard \<Rightarrow> ((event \<times> effect list) list \<times> 's guard) option" where
  "guard_exec K S [] g = Some ([], g)"
| "guard_exec K S (ev # evs) g =
     (if enabled ev g then
        (case guard_step K S ev g of (effs, g') \<Rightarrow>
           map_option (\<lambda>(tr, g''). ((ev, effs) # tr, g'')) (guard_exec K S evs g'))
      else None)"

lemma guard_run_Cons:
  assumes "guard_turn K S g ev effs g'" "guard_run K S g' tr g''"
  shows "guard_run K S g ((ev, effs) # tr) g''"
  using assms(2,1)
proof (induction rule: guard_run.induct)
  case start
  then show ?case using guard_run.more_turns [OF guard_run.start, of K S g ev effs g'] by simp
next
  case (more_turns tr g1 ev1 effs1 g2)
  then show ?case using guard_run.more_turns [of K S g "(ev, effs) # tr" g1 ev1 effs1 g2] by simp
qed

lemma guard_run_exec: "guard_exec K S evs g = Some (tr, g') \<Longrightarrow> guard_run K S g tr g'"
proof (induction evs arbitrary: g tr)
  case Nil
  then show ?case by (auto intro: guard_run.start)
next
  case (Cons ev evs)
  then obtain effs g1 tr1 where "enabled ev g" "guard_step K S ev g = (effs, g1)"
      "guard_exec K S evs g1 = Some (tr1, g')" "tr = (ev, effs) # tr1"
    by (auto split: if_splits prod.splits)
  with Cons.IH show ?case by (auto intro!: guard_run_Cons guard_turn.turn)
qed

definition sample_sems :: "nat sem_lib" where
  "sample_sems = \<lparr>sem_new = id, try_acquire = (\<lambda>s. if s = 0 then None else Some (s - 1)),
     release = Suc, available_permits = id\<rparr>"

lemma sample_sems_ok: "sem_ok sample_sems"
  by (auto simp: sem_ok_def sample_sems_def)

definition sample_guard :: "nat guard" where
  "sample_guard = guard_start sample_sems (authenticator_new sample_whitelist)
     (max_concurrent_streams 1 2 registry_new) True"

definition sample_login :: "event list" where
  "sample_login = [AuthRequest (PeerId [1]) HandshakeInit (Some 100) [7],
     AuthRequest (PeerId [1]) (ChallengeAnswer ([1] @ challenge_payload [7] 101) 101) (Some 103) []]"

text \<open>The sample peer logs in and opens one stream; then again after the shutdown began.\<close>

abbreviation sample_challenged :: "event \<times> effect list" where
  "sample_challenged \<equiv> (AuthRequest (PeerId [1]) HandshakeInit (Some 100) [7], [Respond (PeerId [1]) (Challenge [7] 100)])"

abbreviation sample_answered :: event where
  "sample_answered \<equiv> AuthRequest (PeerId [1]) (ChallengeAnswer ([1] @ challenge_payload [7] 101) 101) (Some 103) []"

abbreviation sample_granted :: "effect list" where
  "sample_granted \<equiv> [Respond (PeerId [1]) (AccessGranted [''admin''])]"

lemma sample_run:
  "\<exists>g g1. guard_exec sample_keys sample_sems [AuthRequest (PeerId [1]) HandshakeInit (Some 100) [7]] sample_guard
       = Some ([sample_challenged], g) \<and>
     enabled sample_answered g \<and> guard_step sample_keys sample_sems sample_answered g = (sample_granted, g1) \<and>
     enabled (IncomingStream (PeerId [1])) g1 \<and>
     fst (guard_step sample_keys sample_sems (IncomingStream (PeerId [1])) g1) = [Spawn (PeerId [1]) [''admin'']]"
  apply (intro exI conjI)
      apply code_simp
     apply code_simp
    apply code_simp
   apply code_simp
  apply code_simp
  done

lemma sample_shutdown_run:
  "\<exists>g. guard_exec sample_keys sample_sems
       [AuthRequest (PeerId [1]) HandshakeInit (Some 100) [7], Command (Shutdown 30) 5, sample_answered] sample_guard
     = Some ([sample_challenged, (Command (Shutdown 30) 5, []), (sample_answered, sample_granted)], g) \<and>
     shutdown_deadline g \<noteq> None"
  apply (intro exI conjI)
   apply code_simp
  apply code_simp
  done

lemma sample_turns:
  obtains g g1 where
    "guard_run sample_keys sample_sems sample_guard [sample_challenged] g"
    "guard_turn sample_keys sample_sems g sample_answered sample_granted g1"
    "guard_run sample_keys sample_sems sample_guard ([sample_challenged] @ [(sample_answered, sample_granted)]) g1"
    "guard_turn sample_keys sample_sems g1 (IncomingStream (PeerId [1])) [Spawn (PeerId [1]) [''admin'']]
       (snd (guard_step sample_keys sample_sems (IncomingStream (PeerId [1])) g1))"
proof -
  obtain g g1 where run: "guard_run sample_keys sample_sems sample_guard [sample_challenged] g"
    and turn: "guard_turn sample_keys sample_sems g sample_answered sample_granted g1"
    and stream: "guard_turn sample_keys sample_sems g1 (IncomingStream (PeerId [1])) [Spawn (PeerId [1]) [''admin'']]
       (snd (guard_step sample_keys sample_sems (IncomingStream (PeerId [1])) g1))"
    using sample_run by (metis guard_run_exec guard_turn.turn prod.collapse)
  with guard_run.more_turns [OF run turn] that show thesis by blast
qed

section \<open>Properties\<close>

text \<open>C1 (authentication of the node). If the Guard's loop, started with any whitelist and services and
  fed any events in any order, answers a peer with an access grant, then earlier in the same
  run it received that peer's handshake and sent it a challenge; since then the peer answered
  no challenge, did not disconnect and was not revoked; the challenge is at most five seconds
  old and the answer's timestamp within five seconds of the clock; the roles granted are those
  of the whitelist now; and the signature verifies under the key contained in the PeerId over
  the nonce that was sent and that timestamp.\<close>

theorem guard_grants_agree:
  assumes "guard_run K S (guard_start S (authenticator_new w) G c) tr g"
    and "guard_turn K S g (AuthRequest p (ChallengeAnswer sig ts) now x) effs g'"
    and "Respond p (AccessGranted rs) \<in> set effs"
  shows "\<exists>tr1 t n tr2 pk.
    tr = tr1 @ (AuthRequest p HandshakeInit t n, [Respond p (Challenge n (unix_now t))]) # tr2 \<and>
    (\<forall>(ev, _) \<in> set tr2. \<not> takes_challenge p ev) \<and>
    unat (unix_now now) \<le> unat (unix_now t) + 5 \<and>
    unat (unix_now now) \<le> unat ts + 5 \<and> unat ts \<le> unat (unix_now now) + 5 \<and>
    roles (whitelist (authenticator g)) p = Some rs \<and>
    public_key_of K p = Some pk \<and> pk_verify K pk (challenge_payload n ts) sig"
proof -
  have "fst (verify_at K p sig ts (unix_now now) (authenticator g)) = Granted rs"
    using assms(2,3) auth_request_effects [of K S p "ChallengeAnswer sig ts" now x g]
    by (auto simp: guard_turn_iff split: auth_outcome.splits)
  then obtain ch where ch: "hm_get (pending (authenticator g)) p = Some ch"
      "roles (whitelist (authenticator g)) p = Some rs" "acceptable K p sig ts (unix_now now) ch"
    unfolding verify_at_granted_iff by blast
  have "hm_get (pending (authenticator (guard_start S (authenticator_new w) G c))) p = None"
    by (simp add: guard_start_def)
  from pending_run [OF assms(1) this ch(1)] ch(2,3) show ?thesis
    unfolding acceptable_def by fastforce
qed

theorem guard_grants_agree_witness:
  "\<exists>tr1 t n tr2 pk.
    [sample_challenged] = tr1 @ (AuthRequest (PeerId [1]) HandshakeInit t n,
       [Respond (PeerId [1]) (Challenge n (unix_now t))]) # tr2 \<and>
    public_key_of sample_keys (PeerId [1]) = Some pk \<and>
    pk_verify sample_keys pk (challenge_payload n 101) ([1] @ challenge_payload [7] 101)"
proof (rule sample_turns)
  fix g g1
  assume run: "guard_run sample_keys sample_sems sample_guard [sample_challenged] g"
    and turn: "guard_turn sample_keys sample_sems g sample_answered sample_granted g1"
  from guard_grants_agree [OF run [unfolded sample_guard_def] turn, of "[''admin'']"] show ?thesis
    by (metis (no_types, lifting) list.set_intros(1))
qed

text \<open>C3 (no tunnel without authentication). If the loop spawns a relay for a peer with some roles,
  then the event is a stream of that peer, no shutdown was requested, earlier in the run the
  peer's answer to a challenge was granted, it has since neither disconnected nor been revoked
  nor been dropped by a reload, and the roles are those the whitelist gives it now.\<close>

theorem guard_tunnel_needs_session:
  assumes "guard_run K S (guard_start S (authenticator_new w) G c) tr g" "whitelist_wf w"
    and "list_all (\<lambda>(ev, _). sound_event ev) tr"
    and "guard_turn K S g ev effs g'" "Spawn p rs \<in> set effs"
  shows "ev = IncomingStream p \<and> shutdown_deadline g = None \<and>
    roles (whitelist (authenticator g)) p = Some rs \<and>
    (\<exists>tr1 sig ts now n rs0 tr2.
      tr = tr1 @ (AuthRequest p (ChallengeAnswer sig ts) now n, [Respond p (AccessGranted rs0)]) # tr2 \<and>
      (\<forall>(ev, _) \<in> set tr2. \<not> takes_session p ev))"
proof -
  have spawn: "ev = IncomingStream p" "shutdown_deadline g = None" "session_roles (authenticator g) p = Some rs"
    using stream_effects [of p rs K S ev g] assms(4,5) by (auto simp: guard_turn_iff)
  have start: "authenticator (guard_start S (authenticator_new w) G c) = authenticator_new w"
    by (simp add: guard_start_def)
  have "hm_get (sessions (authenticator_new w)) p = None"
    by (simp add: authenticator_new_def)
  with session_run [OF assms(1), unfolded start, OF _ auth_inv_new [OF assms(2)] assms(3), of p] spawn
  show ?thesis by (simp add: session_roles_iff)
qed

theorem guard_tunnel_needs_session_witness:
  "\<exists>tr1 sig ts now n rs0 tr2. [sample_challenged] @ [(sample_answered, sample_granted)] =
     tr1 @ (AuthRequest (PeerId [1]) (ChallengeAnswer sig ts) now n, [Respond (PeerId [1]) (AccessGranted rs0)]) # tr2"
proof (rule sample_turns)
  fix g g1
  assume run: "guard_run sample_keys sample_sems sample_guard ([sample_challenged] @ [(sample_answered, sample_granted)]) g1"
    and turn: "guard_turn sample_keys sample_sems g1 (IncomingStream (PeerId [1])) [Spawn (PeerId [1]) [''admin'']]
       (snd (guard_step sample_keys sample_sems (IncomingStream (PeerId [1])) g1))"
  have "list_all (\<lambda>(ev, _). sound_event ev) ([sample_challenged] @ [(sample_answered, sample_granted)])"
    by simp
  from guard_tunnel_needs_session [OF run [unfolded sample_guard_def] sample_whitelist_wf this turn list.set_intros(1)]
  show ?thesis by blast
qed

text \<open>C8 (radio silence of the node). Whatever the Guard receives, a turn of its loop answers at most
  the peer whose request it handles. An authentication request has exactly one of two
  consequences: a challenge or a grant is sent to that peer, or its connection is cut and
  nothing is sent. A challenge goes only to a listed peer, a grant only to a peer whose answer
  was verified, and the message \<open>Denied\<close> is never sent.\<close>

theorem guard_reply_or_silence:
  assumes "guard_turn K S g ev effs g'"
  shows "(\<forall>p resp. Respond p resp \<in> set effs \<longrightarrow> effs = [Respond p resp] \<and> resp \<noteq> Denied \<and>
      (\<exists>r now n. ev = AuthRequest p r now n) \<and>
      (\<forall>n t. resp = Challenge n t \<longrightarrow> roles (whitelist (authenticator g)) p \<noteq> None) \<and>
      (\<forall>rs. resp = AccessGranted rs \<longrightarrow> hm_get (sessions (authenticator g')) p = Some rs)) \<and>
    (\<forall>p r now n. ev = AuthRequest p r now n \<longrightarrow> effs = [Disconnect p] \<or> (\<exists>resp. effs = [Respond p resp]))"
proof -
  from assms have eff: "effs = fst (guard_step K S ev g)" and g': "g' = snd (guard_step K S ev g)"
    by (auto simp: guard_turn_iff)
  show ?thesis
  proof (cases ev)
    case (AuthRequest p r now n)
    then show ?thesis unfolding eff g'
      by (auto simp: auth_request_effects guard_step_auth verify_at_sessions split: nux_request.split auth_outcome.split)
  next
    case (IncomingStream q)
    then show ?thesis unfolding eff
      by (cases rule: handle_stream_cases [where g = g and S = S and p = q]) (auto simp: guard_step_def)
  qed (auto simp: eff guard_step_def handle_guard_event_def handle_command_def drain_tick_def task_finished_def Let_def
      split: guard_control.splits prod.splits bool.splits option.splits if_splits)
qed

theorem guard_reply_or_silence_witness:
  "\<exists>g g1. guard_turn sample_keys sample_sems g sample_answered sample_granted g1 \<and>
     hm_get (sessions (authenticator g1)) (PeerId [1]) = Some [''admin'']"
proof (rule sample_turns)
  fix g g1
  assume turn: "guard_turn sample_keys sample_sems g sample_answered sample_granted g1"
  from guard_reply_or_silence [OF turn] turn show ?thesis by (metis list.set_intros(1))
qed

text \<open>A peer departs when its last connection closes, or when it is revoked (alone or by a reload) while it has a session: the loop
  then forgets its semaphore, and the peer gets a new one with its next stream.\<close>

definition departs :: "peer_id \<Rightarrow> event \<times> effect list \<Rightarrow> bool" where
  "departs p = (\<lambda>(ev, effs). case ev of
     ConnectionClosed q n \<Rightarrow> q = p \<and> n = 0
   | Command _ _ \<Rightarrow> Disconnect p \<in> set effs
   | _ \<Rightarrow> False)"

definition departures :: "peer_id \<Rightarrow> (event \<times> effect list) list \<Rightarrow> nat" where
  "departures p tr = length (filter (departs p) tr)"

definition relays_of :: "peer_id \<Rightarrow> relay_task list \<Rightarrow> nat" where
  "relays_of p ts = length (filter (\<lambda>t. task_peer t = p) ts)"

lemma departures_snoc: "departures p (tr @ [x]) = departures p tr + (if departs p x then 1 else 0)"
  by (simp add: departures_def)

text \<open>The semaphores a peer has ever had: one more than its departures, at most.\<close>

definition peer_sems_inv :: "peer_id \<Rightarrow> nat \<Rightarrow> 's guard \<Rightarrow> bool" where
  "peer_sems_inv p n g \<longleftrightarrow> (\<exists>I. finite I \<and> card I \<le> n + (case hm_get (per_peer g) p of None \<Rightarrow> 0 | Some _ \<Rightarrow> 1) \<and>
     (\<forall>t \<in> set (tasks g). task_peer t = p \<longrightarrow> task_sem t \<in> I) \<and> (\<forall>i. hm_get (per_peer g) p = Some i \<longrightarrow> i \<in> I))"

lemma forgotten_semaphore:
  assumes "hm_get (per_peer g) p = Some i" "hm_get (per_peer (snd (guard_step K S ev g))) p = None" "\<not> relay_event ev"
  shows "departs p (ev, fst (guard_step K S ev g))"
  using assms
  by (auto simp: relay_event_def departs_def guard_step_def handle_guard_event_def handle_command_def drain_tick_def
      hm_get_fold_remove split: event.splits guard_control.splits prod.splits bool.splits option.splits if_splits)

lemma peer_sems_quiet:
  assumes "peer_sems_inv p n g" "\<not> relay_event ev"
  shows "peer_sems_inv p (n + (if departs p (ev, fst (guard_step K S ev g)) then 1 else 0)) (snd (guard_step K S ev g))"
proof -
  let ?g = "snd (guard_step K S ev g)"
  from assms(1) obtain I where I: "finite I" "card I \<le> n + (case hm_get (per_peer g) p of None \<Rightarrow> 0 | Some _ \<Rightarrow> 1)"
    "\<forall>t \<in> set (tasks g). task_peer t = p \<longrightarrow> task_sem t \<in> I" "\<forall>i. hm_get (per_peer g) p = Some i \<longrightarrow> i \<in> I"
    unfolding peer_sems_inv_def by blast
  have same: "tasks ?g = tasks g" using assms(2) by (rule quiet_turn(4))
  have kept: "hm_get (per_peer g) p = Some i" if "hm_get (per_peer ?g) p = Some i" for i
    using quiet_turn(6) [OF assms(2)] that by blast
  have "card I \<le> n + (if departs p (ev, fst (guard_step K S ev g)) then 1 else 0) +
      (case hm_get (per_peer ?g) p of None \<Rightarrow> 0 | Some _ \<Rightarrow> 1)"
    using I(2) kept forgotten_semaphore [OF _ _ assms(2), of g p _ K S]
    by (cases "hm_get (per_peer g) p"; cases "hm_get (per_peer ?g) p") auto
  with I(1,3,4) kept show ?thesis unfolding peer_sems_inv_def same by blast
qed

lemma peer_sems_semaphore:
  assumes "peer_sems_inv p n g" "peer_semaphore S q g = (i, g1)"
  shows "peer_sems_inv p n g1" "hm_get (per_peer g1) q = Some i"
proof -
  have t: "tasks g1 = tasks g" using peer_semaphore_frame(6) [of S q g] assms(2) by simp
  show "hm_get (per_peer g1) q = Some i" using assms(2) by (auto simp: peer_semaphore_def split: option.splits)
  from assms(1) obtain I where I: "finite I" "card I \<le> n + (case hm_get (per_peer g) p of None \<Rightarrow> 0 | Some _ \<Rightarrow> 1)"
    "\<forall>t \<in> set (tasks g). task_peer t = p \<longrightarrow> task_sem t \<in> I" "\<forall>i. hm_get (per_peer g) p = Some i \<longrightarrow> i \<in> I"
    unfolding peer_sems_inv_def by blast
  show "peer_sems_inv p n g1"
  proof (cases "q = p \<and> hm_get (per_peer g) p = None")
    case True
    then have "hm_get (per_peer g1) p = Some i" using assms(2) by (auto simp: peer_semaphore_def)
    moreover have "card (insert i I) \<le> Suc n" using I(1,2) True card_insert_le_m1 by (simp add: card_insert_if)
    ultimately show ?thesis using I unfolding peer_sems_inv_def t by (intro exI [of _ "insert i I"]) auto
  next
    case False
    then have "hm_get (per_peer g1) p = hm_get (per_peer g) p"
      using assms(2) by (auto simp: peer_semaphore_def split: option.splits)
    with I show ?thesis unfolding peer_sems_inv_def t by auto
  qed
qed

lemma peer_sems_cong: "peer_sems_inv p n g \<Longrightarrow> per_peer g' = per_peer g \<Longrightarrow> set (tasks g') \<subseteq> set (tasks g) \<Longrightarrow> peer_sems_inv p n g'"
  unfolding peer_sems_inv_def by (metis subsetD)

lemma peer_sems_stream:
  assumes "peer_sems_inv p n g"
  shows "peer_sems_inv p n (snd (handle_stream S q g))"
proof (cases rule: handle_stream_cases [where g = g and S = S and p = q])
  case (peer_full i g1 rs)
  from peer_sems_semaphore(1) [OF assms peer_full(3)] show ?thesis by (rule peer_sems_cong) (simp_all add: peer_full(5))
next
  case (all_full i g1 rs s g2)
  from peer_sems_semaphore(1) [OF assms all_full(3)] show ?thesis by (rule peer_sems_cong) (simp_all add: all_full(5,7))
next
  case (served i g1 rs s t)
  from peer_sems_semaphore [OF assms served(3)] show ?thesis unfolding peer_sems_inv_def served(6) by auto
qed (use assms in \<open>auto intro: peer_sems_cong\<close>)

lemma peer_sems_run: "guard_run K S (guard_start S A G c) tr g \<Longrightarrow> peer_sems_inv p (departures p tr) g"
proof (induction rule: guard_run.induct)
  case start
  show ?case by (simp add: peer_sems_inv_def guard_start_def) (intro exI [of _ "{}"], simp)
next
  case (more_turns tr g ev effs g')
  then have effs: "effs = fst (guard_step K S ev g)" and g': "g' = snd (guard_step K S ev g)" and on: "enabled ev g"
    by (auto simp: guard_turn_iff)
  show ?case
  proof (cases "relay_event ev")
    case False
    from peer_sems_quiet [OF more_turns.IH this, of K S] show ?thesis by (simp add: departures_snoc effs g')
  next
    case True
    then have "\<not> departs p (ev, effs)" by (auto simp: departs_def relay_event_def split: event.splits)
    moreover have "peer_sems_inv p (departures p tr) g'"
    proof (cases "\<exists>q. ev = IncomingStream q")
      case True
      with more_turns.IH show ?thesis by (auto simp: g' guard_step_def intro: peer_sems_stream)
    next
      case False
      with True obtain k outcome where "ev = TaskFinished k outcome" by (auto simp: relay_event_def split: event.splits)
      then show ?thesis
        by (intro peer_sems_cong [OF more_turns.IH]) (simp_all add: g' guard_step_def task_finished_def Let_def set_remove_nth)
    qed
    ultimately show ?thesis by (simp add: departures_snoc)
  qed
qed

lemma relays_by_semaphore:
  assumes "finite I" "\<forall>t \<in> set ts. task_peer t = p \<longrightarrow> task_sem t \<in> I" "\<And>i. held i ts \<le> c"
  shows "relays_of p ts \<le> c * card I"
proof -
  have "relays_of p ts \<le> (\<Sum>i \<in> I. held i ts)"
    using assms(2)
  proof (induction ts)
    case (Cons t ts)
    have "(\<Sum>i \<in> I. held i (t # ts)) = (\<Sum>i \<in> I. held i ts) + (if task_sem t \<in> I then 1 else 0)"
    proof -
      have "(\<Sum>i \<in> I. held i (t # ts)) = (\<Sum>i \<in> I. held i ts + (if task_sem t = i then 1 else 0))"
        by (intro sum.cong) auto
      also have "\<dots> = (\<Sum>i \<in> I. held i ts) + (if task_sem t \<in> I then 1 else 0)"
        using assms(1) by (simp add: sum.distrib del: held_simps)
      finally show ?thesis .
    qed
    with Cons show ?case by (auto simp: relays_of_def)
  qed (simp add: relays_of_def)
  also have "\<dots> \<le> card I * c" using assms(3) by (rule sum_bounded_above [where K = c, simplified])
  finally show ?thesis by (simp add: mult.commute)
qed

text \<open>C10 (tunnel caps). In every reachable state of the loop the relays in flight are at most
  \<open>max_streams_total\<close> and exactly as many as the global permits taken, and the gauge \<open>tunnels_active\<close> is their number.
  A peer has at most \<open>max_streams_per_peer\<close> relays in flight as long as it has never departed, and at most that many
  more for each time it has: the cap is one of a stay, not of a peer. The free permits of a peer are
  exactly the cap less the relays it has opened since it came and that are in flight.\<close>

theorem guard_tunnel_caps:
  assumes "sem_ok S" "guard_run K S (guard_start S A G c) tr g"
  shows "length (tasks g) \<le> max_streams_total G \<and>
    available_permits S (global g) = max_streams_total G - length (tasks g) \<and>
    (\<forall>p. relays_of p (tasks g) \<le> max_streams_per_peer G * Suc (departures p tr)) \<and>
    (\<forall>p i. hm_get (per_peer g) p = Some i \<longrightarrow>
       available_permits S (sem_store g ! i) + length (filter (\<lambda>t. task_peer t = p \<and> task_sem t = i) (tasks g))
         = max_streams_per_peer G) \<and>
    tunnels_active (counters g) = word_of_nat (length (tasks g))"
proof -
  have inv: "permit_inv S g" by (rule permit_inv_run [OF assms])
  have reg: "registry g = G" using registry_run [OF assms(2)] by (simp add: guard_start_def)
  have held: "held i (tasks g) \<le> max_streams_per_peer G" for i
  proof (cases "i < length (sem_store g)")
    case True
    with inv reg show ?thesis unfolding permit_inv_def by (metis le_add2)
  next
    case False
    with inv have "held i (tasks g) = 0"
      by (auto simp: permit_inv_def held_def filter_empty_conv)
    then show ?thesis by simp
  qed
  have stays: "relays_of p (tasks g) \<le> max_streams_per_peer G * Suc (departures p tr)" for p
  proof -
    from peer_sems_run [OF assms(2), of p] obtain I where I: "finite I" "\<forall>t \<in> set (tasks g). task_peer t = p \<longrightarrow> task_sem t \<in> I"
      "card I \<le> departures p tr + (case hm_get (per_peer g) p of None \<Rightarrow> 0 | Some _ \<Rightarrow> 1)" unfolding peer_sems_inv_def by blast
    then have "card I \<le> Suc (departures p tr)" by (auto split: option.splits)
    with relays_by_semaphore [OF I(1,2) held] show ?thesis by (meson le_trans mult_le_mono2)
  qed
  have current: "available_permits S (sem_store g ! i) + length (filter (\<lambda>t. task_peer t = p \<and> task_sem t = i) (tasks g))
      = max_streams_per_peer G" if "hm_get (per_peer g) p = Some i" for p i
  proof -
    have "filter (\<lambda>t. task_peer t = p \<and> task_sem t = i) (tasks g) = filter (\<lambda>t. task_sem t = i) (tasks g)"
      using inv that by (intro filter_cong) (auto simp: permit_inv_def)
    with inv reg that show ?thesis by (auto simp: permit_inv_def held_def)
  qed
  from inv reg stays current show ?thesis by (auto simp: permit_inv_def)
qed

theorem guard_tunnel_caps_witness:
  "\<exists>g. guard_run sample_keys sample_sems sample_guard [sample_challenged] g \<and> relays_of (PeerId [1]) (tasks g) \<le> 1"
proof (rule sample_turns)
  fix g g1
  assume run: "guard_run sample_keys sample_sems sample_guard [sample_challenged] g"
  from guard_tunnel_caps [OF sample_sems_ok run [unfolded sample_guard_def]]
  have "relays_of (PeerId [1]) (tasks g) \<le> 1 * Suc (departures (PeerId [1]) [sample_challenged])"
    by (simp add: max_concurrent_streams_def)
  with run show ?thesis by (auto simp: departures_def departs_def)
qed

text \<open>The bound is met: with a cap of one, a peer that streams, loses its connection and comes back has two relays in flight.\<close>

lemma peer_cap_starts_again:
  "case guard_exec sample_keys sample_sems (sample_login @ [IncomingStream (PeerId [1]), ConnectionClosed (PeerId [1]) 0] @
      sample_login @ [IncomingStream (PeerId [1])]) sample_guard of
     Some (tr, g) \<Rightarrow> max_streams_per_peer (registry g) = 1 \<and> departures (PeerId [1]) tr = 1 \<and> relays_of (PeerId [1]) (tasks g) = 2
   | None \<Rightarrow> False"
  by code_simp

text \<open>Graceful shutdown. From the moment a shutdown is requested, whatever happens next, no turn
  spawns a relay or issues a challenge, the request is never forgotten, and the relays in
  flight are among those that were in flight.\<close>

theorem guard_shutdown_is_quiet:
  assumes "shutdown_deadline g \<noteq> None" "guard_run K S g tr g'"
  shows "shutdown_deadline g' \<noteq> None \<and> set (tasks g') \<subseteq> set (tasks g) \<and> length (tasks g') \<le> length (tasks g) \<and>
    (\<forall>(ev, effs) \<in> set tr. (\<forall>p rs. Spawn p rs \<notin> set effs) \<and> (\<forall>p n t. Respond p (Challenge n t) \<notin> set effs))"
  using assms(2,1)
proof (induction rule: guard_run.induct)
  case start
  then show ?case by simp
next
  case (more_turns tr g1 ev effs g2)
  then have IH: "shutdown_deadline g1 \<noteq> None" "set (tasks g1) \<subseteq> set (tasks g)" "length (tasks g1) \<le> length (tasks g)"
    and eff: "effs = fst (guard_step K S ev g1)" and g2: "g2 = snd (guard_step K S ev g1)" and en: "enabled ev g1"
    by (auto simp: guard_turn_iff)
  have "set (tasks g2) \<subseteq> set (tasks g1) \<and> length (tasks g2) \<le> length (tasks g1)"
  proof (cases "relay_event ev")
    case False
    then show ?thesis by (simp add: g2 quiet_turn(4))
  next
    case True
    with IH(1) en show ?thesis
      using set_remove_nth length_remove_nth
      by (cases ev) (fastforce simp: g2 relay_event_def enabled_def guard_step_def handle_stream_def
          task_finished_def Let_def)+
  qed
  moreover have "Spawn p rs \<notin> set effs" "Respond p (Challenge n t) \<notin> set effs" for p rs n t
    using stream_effects [of p rs K S ev g1] challenge_effects [of p n t K S ev g1] IH(1) unfolding eff by blast+
  moreover have "shutdown_deadline g2 \<noteq> None" unfolding g2 using IH(1) by (rule shutdown_kept)
  ultimately show ?case using more_turns.IH [OF more_turns.prems] IH by auto
qed

theorem guard_shutdown_is_quiet_witness:
  "\<exists>g'. guard_run sample_keys sample_sems (sample_guard\<lparr>shutdown_deadline := Some 9\<rparr>)
      [(AuthRequest (PeerId [1]) HandshakeInit (Some 100) [7], [Disconnect (PeerId [1])]),
       (IncomingStream (PeerId [1]), [DropStream (PeerId [1])])] g' \<and> shutdown_deadline g' \<noteq> None"
proof -
  have "\<exists>g'. guard_exec sample_keys sample_sems [AuthRequest (PeerId [1]) HandshakeInit (Some 100) [7], IncomingStream (PeerId [1])]
      (sample_guard\<lparr>shutdown_deadline := Some 9\<rparr>) = Some
      ([(AuthRequest (PeerId [1]) HandshakeInit (Some 100) [7], [Disconnect (PeerId [1])]),
        (IncomingStream (PeerId [1]), [DropStream (PeerId [1])])], g')"
    by (rule exI) code_simp
  then obtain g' where run: "guard_run sample_keys sample_sems (sample_guard\<lparr>shutdown_deadline := Some 9\<rparr>)
      [(AuthRequest (PeerId [1]) HandshakeInit (Some 100) [7], [Disconnect (PeerId [1])]),
       (IncomingStream (PeerId [1]), [DropStream (PeerId [1])])] g'"
    using guard_run_exec by blast
  have "shutdown_deadline (sample_guard\<lparr>shutdown_deadline := Some 9\<rparr>) \<noteq> None" by simp
  from guard_shutdown_is_quiet [OF this run] run show ?thesis by blast
qed

text \<open>C13 (termination of the loop). The loop returns only at a drain tick after a shutdown request,
  and at such a tick it returns exactly when no relay is left or the grace period is over: it
  neither abandons relays early nor outlives its deadline by more than a tick.\<close>

theorem guard_returns_iff:
  assumes "sem_ok S" "guard_run K S (guard_start S A G c) tr g" "guard_turn K S g ev effs g'"
  shows "returned g' \<longleftrightarrow>
    (\<exists>now deadline. ev = DrainTick now \<and> shutdown_deadline g = Some deadline \<and> (tasks g = [] \<or> deadline \<le> now))"
proof -
  have inv: "permit_inv S g" by (rule permit_inv_run [OF assms(1,2)])
  from assms(3) have en: "enabled ev g" and g': "g' = snd (guard_step K S ev g)"
    by (auto simp: guard_turn_iff)
  have all_free: "available_permits S (global g) = max_streams_total (registry g) \<longleftrightarrow> tasks g = []"
    using inv by (auto simp: permit_inv_def)
  have same: "returned (snd (handle_stream S p g)) = returned g" for p
    by (cases rule: handle_stream_cases [where g = g and S = S and p = p])
      (use peer_semaphore_frame(8) [of S p g] in auto)
  show ?thesis
    using en all_free
    by (cases ev) (auto simp: g' enabled_def guard_step_def same drain_tick_def handle_guard_event_def handle_command_def
        task_finished_def Let_def split: guard_control.split prod.split bool.split if_split_asm)
qed

theorem guard_returns_iff_witness:
  "\<exists>g'. guard_turn sample_keys sample_sems sample_guard (Command (Shutdown 30) 5) [] g' \<and> \<not> returned g'"
proof -
  have turn: "guard_turn sample_keys sample_sems sample_guard (Command (Shutdown 30) 5) []
      (snd (guard_step sample_keys sample_sems (Command (Shutdown 30) 5) sample_guard))"
    by (rule guard_turn.turn)
      (simp_all add: enabled_def guard_step_def handle_command_def sample_guard_def guard_start_def)
  from guard_returns_iff [OF sample_sems_ok guard_run.start turn [unfolded sample_guard_def]] turn
  show ?thesis unfolding sample_guard_def by blast
qed

end
