(* ===== verification/Rate_Limit.thy ===== *)
theory Rate_Limit imports Messages Machine begin

text \<open>
  \<^verbatim>\<open>crates/nux-core/src/rate_limit.rs\<close>: the sliding-window limiter of inbound connections and
  the hook of the libp2p behaviour that applies it before the Noise handshake; \<open>Rate_Behaviour\<close> has the rest of the behaviour.

  Instants are natural numbers; \<^verbatim>\<open>duration_since\<close> saturates at zero, as natural subtraction does.
  The property section runs the limiter over an arbitrary sequence of attempts under a clock
  that never goes back, and compares it with the log of the admissions it granted.
\<close>

section \<open>The code\<close>

definition DEFAULT_MAX_PER_WINDOW :: u32 where
  "DEFAULT_MAX_PER_WINDOW = 30"

definition DEFAULT_WINDOW :: duration where
  "DEFAULT_WINDOW = from_secs 60"

definition MAX_TRACKED_IPS :: nat where
  "MAX_TRACKED_IPS = 100000"

record rate_limiter =
  max_per_window :: u32
  window :: duration
  max_tracked_ips :: nat
  hits :: "(ip_addr, instant list) hash_map"
  exempt_ips :: "ip_addr set"
  last_sweep :: instant

definition rate_limiter_new :: "u32 \<Rightarrow> duration \<Rightarrow> instant \<Rightarrow> rate_limiter" where
  "rate_limiter_new m w now = \<lparr>max_per_window = m, window = w, max_tracked_ips = MAX_TRACKED_IPS,
     hits = hm_empty, exempt_ips = {}, last_sweep = now\<rparr>"

definition exempt :: "ip_addr \<Rightarrow> rate_limiter \<Rightarrow> rate_limiter" where
  "exempt ip R = R\<lparr>exempt_ips := insert ip (exempt_ips R)\<rparr>"

definition prune :: "instant list \<Rightarrow> instant \<Rightarrow> duration \<Rightarrow> instant list" where
  "prune hs now w = dropWhile (\<lambda>t. now - t > w) hs"

definition sweep :: "instant \<Rightarrow> rate_limiter \<Rightarrow> rate_limiter" where
  "sweep now R = R\<lparr>
     hits := hm_retain (\<lambda>_ hs. let hs' = prune hs now (window R) in (hs', hs' \<noteq> [])) (hits R),
     last_sweep := now\<rparr>"

text \<open>The part of \<open>allow_at\<close> after the saturation check: the entry of \<open>ip\<close>, pruned, then counted.\<close>

definition count_hit :: "ip_addr \<Rightarrow> instant \<Rightarrow> rate_limiter \<Rightarrow> bool \<times> rate_limiter" where
  "count_hit ip now R =
     (let entry = (case hm_get (hits R) ip of Some hs \<Rightarrow> hs | None \<Rightarrow> []);
          hs = prune entry now (window R)
      in if length hs \<ge> unat (max_per_window R) then (False, R\<lparr>hits := hm_insert ip hs (hits R)\<rparr>)
         else (True, R\<lparr>hits := hm_insert ip (hs @ [now]) (hits R)\<rparr>))"

definition allow_at :: "ip_addr \<Rightarrow> instant \<Rightarrow> rate_limiter \<Rightarrow> bool \<times> rate_limiter" where
  "allow_at ip now R =
     (if ip \<in> exempt_ips R then (True, R)
      else
        let R = (if now - last_sweep R \<ge> window R then sweep now R else R) in
        if \<not> hm_contains_key (hits R) ip \<and> hm_len (hits R) \<ge> max_tracked_ips R then
          let R = sweep now R in
          if hm_len (hits R) \<ge> max_tracked_ips R then (False, R) else count_hit ip now R
        else count_hit ip now R)"

text \<open>The multiaddr components the repository looks at.\<close>

datatype protocol = Ip4 u32 | Ip6 "128 word" | Tcp u16 | P2p peer_id | P2pCircuit | OtherProtocol string

type_synonym multiaddr = "protocol list"

fun ip_of :: "multiaddr \<Rightarrow> ip_addr option" where
  "ip_of [] = None"
| "ip_of (Ip4 ip # _) = Some (V4 ip)"
| "ip_of (Ip6 ip # _) = Some (V6 ip)"
| "ip_of (_ # ps) = ip_of ps"

definition behaviour_new :: "u32 \<Rightarrow> duration \<Rightarrow> instant \<Rightarrow> rate_limiter" where
  "behaviour_new m w now = rate_limiter_new m w now"

definition with_exemptions :: "u32 \<Rightarrow> duration \<Rightarrow> ip_addr list \<Rightarrow> instant \<Rightarrow> rate_limiter" where
  "with_exemptions m w ips now = fold exempt ips (rate_limiter_new m w now)"

datatype rate_exceeded = RateExceeded ip_addr

text \<open>The pending-connection hook; the limiter is the behaviour's only state.\<close>

definition handle_pending_inbound_connection ::
  "multiaddr \<Rightarrow> instant \<Rightarrow> rate_limiter \<Rightarrow> (rate_exceeded + unit) \<times> rate_limiter" where
  "handle_pending_inbound_connection remote now R =
     (case ip_of remote of
        None \<Rightarrow> (Inr (), R)
      | Some ip \<Rightarrow> (case allow_at ip now R of
            (ok, R') \<Rightarrow> (if ok then Inr () else Inl (RateExceeded ip), R')))"

section \<open>Pruning and sweeping\<close>

definition within :: "duration \<Rightarrow> instant \<Rightarrow> instant \<Rightarrow> bool" where
  "within w now t \<longleftrightarrow> now - t \<le> w"

definition stored :: "rate_limiter \<Rightarrow> ip_addr \<Rightarrow> instant list" where
  "stored R ip = (case hm_get (hits R) ip of Some hs \<Rightarrow> hs | None \<Rightarrow> [])"

lemma prune_eq_filter: "sorted hs \<Longrightarrow> prune hs now w = filter (within w now) hs"
proof (induction hs)
  case Nil
  then show ?case by (simp add: prune_def)
next
  case (Cons t hs)
  show ?case
  proof (cases "now - t \<le> w")
    case True
    with Cons.prems have "\<forall>u \<in> set hs. now - u \<le> w" by fastforce
    with True have "filter (within w now) (t # hs) = t # hs"
      by (auto simp: within_def filter_id_conv)
    moreover from True have "prune (t # hs) now w = t # hs" by (simp add: prune_def)
    ultimately show ?thesis by simp
  next
    case False
    with Cons show ?thesis by (simp add: prune_def within_def not_le)
  qed
qed

lemma stored_sweep:
  assumes "hm_wf (hits R)"
  shows "stored (sweep now R) ip = prune (stored R ip) now (window R)"
  using assms
  by (auto simp: stored_def sweep_def hm_get_retain Let_def prune_def eq_commute [of "[]"] split: option.splits)

lemma sweep_frame [simp, frame_simps]:
  "max_per_window (sweep now R) = max_per_window R" "window (sweep now R) = window R"
  "max_tracked_ips (sweep now R) = max_tracked_ips R" "exempt_ips (sweep now R) = exempt_ips R"
  by (simp_all add: sweep_def)

lemma count_hit_frame [simp, frame_simps]:
  "max_per_window (snd (count_hit ip now R)) = max_per_window R" "window (snd (count_hit ip now R)) = window R"
  "max_tracked_ips (snd (count_hit ip now R)) = max_tracked_ips R"
  "exempt_ips (snd (count_hit ip now R)) = exempt_ips R"
  by (simp_all add: count_hit_def Let_def)

lemma allow_at_frame [simp, frame_simps]:
  "max_per_window (snd (allow_at ip now R)) = max_per_window R" "window (snd (allow_at ip now R)) = window R"
  "max_tracked_ips (snd (allow_at ip now R)) = max_tracked_ips R"
  "exempt_ips (snd (allow_at ip now R)) = exempt_ips R"
  by (simp_all add: allow_at_def Let_def)

lemma stored_count_hit:
  "stored (snd (count_hit ip now R)) q =
     (if q = ip then (let hs = prune (stored R ip) now (window R) in
        if length hs < unat (max_per_window R) then hs @ [now] else hs)
      else stored R q)"
  by (auto simp: count_hit_def stored_def Let_def not_le)

lemma fst_count_hit:
  "fst (count_hit ip now R) \<longleftrightarrow> length (prune (stored R ip) now (window R)) < unat (max_per_window R)"
  by (simp add: count_hit_def stored_def Let_def not_le split: option.splits)

text \<open>The limiter as the saturation check of \<open>allow_at\<close> finds it.\<close>

definition swept :: "ip_addr \<Rightarrow> instant \<Rightarrow> rate_limiter \<Rightarrow> rate_limiter" where
  "swept ip now R =
     (let R = (if now - last_sweep R \<ge> window R then sweep now R else R) in
      if \<not> hm_contains_key (hits R) ip \<and> hm_len (hits R) \<ge> max_tracked_ips R then sweep now R else R)"

definition saturated :: "ip_addr \<Rightarrow> rate_limiter \<Rightarrow> bool" where
  "saturated ip R \<longleftrightarrow> hm_get (hits R) ip = None \<and> hm_len (hits R) \<ge> max_tracked_ips R"

lemma hm_get_sweep_None: "hm_wf (hits R) \<Longrightarrow> hm_get (hits R) ip = None \<Longrightarrow> hm_get (hits (sweep now R)) ip = None"
  by (simp add: sweep_def hm_get_retain)

lemma allow_at_swept:
  assumes "hm_wf (hits R)" "ip \<notin> exempt_ips R"
  shows "allow_at ip now R =
    (if saturated ip (swept ip now R) then (False, swept ip now R) else count_hit ip now (swept ip now R))"
proof -
  have wf: "hm_wf (hits (sweep now R))" using assms(1) by (auto simp: sweep_def)
  show ?thesis
    using assms wf hm_get_sweep_None [OF wf, of ip now] hm_get_sweep_None [OF assms(1), of ip now]
    by (auto simp: allow_at_def swept_def saturated_def Let_def)
qed

lemma swept_frame [simp, frame_simps]:
  "max_per_window (swept ip now R) = max_per_window R" "window (swept ip now R) = window R"
  "max_tracked_ips (swept ip now R) = max_tracked_ips R" "exempt_ips (swept ip now R) = exempt_ips R"
  by (simp_all add: swept_def Let_def)

section \<open>Runs under a monotone clock\<close>

text \<open>A run keeps the limiter, the clock and the admissions granted so far, oldest first.\<close>

record limited =
  limiter :: rate_limiter
  clock :: instant
  admitted :: "(ip_addr \<times> instant) list"

text \<open>An attempt of \<open>ip\<close>, \<open>elapsed\<close> after the previous one.\<close>

fun attempt :: "ip_addr \<times> duration \<Rightarrow> limited \<Rightarrow> limited" where
  "attempt (ip, elapsed) s =
     (let now = clock s + elapsed; (ok, R) = allow_at ip now (limiter s)
      in s\<lparr>limiter := R, clock := now,
           admitted := (if ok then admitted s @ [(ip, now)] else admitted s)\<rparr>)"

definition limited_start :: "u32 \<Rightarrow> duration \<Rightarrow> ip_addr list \<Rightarrow> instant \<Rightarrow> limited" where
  "limited_start m w ips now = \<lparr>limiter = with_exemptions m w ips now, clock = now, admitted = []\<rparr>"

abbreviation limited_run :: "(ip_addr \<times> duration) list \<Rightarrow> limited \<Rightarrow> limited" where
  "limited_run attempts s \<equiv> fold attempt attempts s"

definition hit_times :: "ip_addr \<Rightarrow> (ip_addr \<times> instant) list \<Rightarrow> instant list" where
  "hit_times ip log = map snd (filter (\<lambda>(q, _). q = ip) log)"

lemma hit_times_simps [simp]:
  "hit_times ip [] = []" "hit_times ip (log @ log') = hit_times ip log @ hit_times ip log'"
  "hit_times ip ((q, t) # log) = (if q = ip then t # hit_times ip log else hit_times ip log)"
  by (simp_all add: hit_times_def)

section \<open>The invariant\<close>

text \<open>
  What the deque of an address holds is, as far as any present or future window can see, the
  log of the admissions of that address.
\<close>

definition faithful_at :: "rate_limiter \<Rightarrow> instant \<Rightarrow> instant list \<Rightarrow> ip_addr \<Rightarrow> bool" where
  "faithful_at R now log ip \<longleftrightarrow> sorted (stored R ip) \<and> set (stored R ip) \<subseteq> {..now} \<and>
     length (stored R ip) \<le> unat (max_per_window R) \<and>
     (\<forall>now' \<ge> now. filter (within (window R) now') (stored R ip) = filter (within (window R) now') log)"

definition limiter_wf :: "rate_limiter \<Rightarrow> bool" where
  "limiter_wf R \<longleftrightarrow> hm_wf (hits R) \<and> hm_len (hits R) \<le> max_tracked_ips R"

lemma faithful_at_later: "faithful_at R now log ip \<Longrightarrow> now \<le> now' \<Longrightarrow> faithful_at R now' log ip"
  by (auto simp: faithful_at_def)

lemma within_mono: "now \<le> now' \<Longrightarrow> within w now' t \<Longrightarrow> within w now t"
  by (simp add: within_def)

lemma filter_within_prune:
  "sorted hs \<Longrightarrow> now \<le> now' \<Longrightarrow> filter (within w now') (prune hs now w) = filter (within w now') hs"
  by (simp only: prune_eq_filter) (rule filter_subsumed, erule within_mono)

lemma prune_shape:
  assumes "sorted hs"
  shows "sorted (prune hs now w)" "set (prune hs now w) \<subseteq> set hs" "length (prune hs now w) \<le> length hs"
  using assms by (simp_all add: prune_eq_filter sorted_wrt_filter length_filter_le)

lemma faithful_at_sweep:
  assumes "hm_wf (hits R)" "faithful_at R now log ip"
  shows "faithful_at (sweep now R) now log ip"
  using assms prune_shape [of "stored R ip" now "window R"]
  by (auto simp: faithful_at_def stored_sweep filter_within_prune)

lemma limiter_wf_sweep: "limiter_wf R \<Longrightarrow> limiter_wf (sweep now R)"
  using hm_len_retain_le le_trans by (fastforce simp: limiter_wf_def sweep_def)

lemma limiter_wf_swept: "limiter_wf R \<Longrightarrow> limiter_wf (swept ip now R)"
  by (simp add: swept_def Let_def limiter_wf_sweep)

lemma faithful_at_swept:
  assumes "limiter_wf R" "faithful_at R now log q"
  shows "faithful_at (swept ip now R) now log q"
proof -
  have "hm_wf (hits R)" "hm_wf (hits (sweep now R))"
    using assms(1) limiter_wf_sweep [OF assms(1), of now] by (simp_all add: limiter_wf_def)
  with assms(2) show ?thesis by (simp add: swept_def Let_def faithful_at_sweep)
qed

lemma limiter_wf_count_hit:
  assumes "limiter_wf R" "\<not> saturated ip R"
  shows "limiter_wf (snd (count_hit ip now R))"
  using assms by (auto simp: limiter_wf_def saturated_def count_hit_def Let_def hm_len_insert)

lemma faithful_at_count_hit:
  assumes "faithful_at R now log q"
  shows "faithful_at (snd (count_hit ip now R)) now
    (if q = ip \<and> fst (count_hit ip now R) then log @ [now] else log) q"
proof (cases "q = ip")
  case False
  with assms show ?thesis by (simp add: faithful_at_def stored_count_hit)
next
  case True
  let ?hs = "prune (stored R ip) now (window R)"
  have sorted: "sorted (stored R ip)" and old: "set (stored R ip) \<subseteq> {..now}"
    using assms True by (auto simp: faithful_at_def)
  have shape: "sorted ?hs" "set ?hs \<subseteq> {..now}" "length ?hs \<le> length (stored R ip)"
    using prune_shape [OF sorted, of now "window R"] old by blast+
  have "sorted (?hs @ [now])" using shape(1,2) by (auto simp: sorted_append)
  with shape assms True sorted show ?thesis
    by (auto simp: faithful_at_def stored_count_hit fst_count_hit Let_def filter_within_prune)
qed

definition limited_inv :: "limited \<Rightarrow> bool" where
  "limited_inv s \<longleftrightarrow> limiter_wf (limiter s) \<and>
     (\<forall>ip. sorted (hit_times ip (admitted s)) \<and> set (hit_times ip (admitted s)) \<subseteq> {..clock s}) \<and>
     (\<forall>ip \<in> exempt_ips (limiter s). hm_get (hits (limiter s)) ip = None) \<and>
     (\<forall>ip. ip \<notin> exempt_ips (limiter s) \<longrightarrow>
        faithful_at (limiter s) (clock s) (hit_times ip (admitted s)) ip)"

lemma swept_no_key: "limiter_wf R \<Longrightarrow> hm_get (hits R) q = None \<Longrightarrow> hm_get (hits (swept ip now R)) q = None"
  using limiter_wf_sweep [of R now]
  by (auto simp: swept_def Let_def limiter_wf_def hm_get_sweep_None)

lemma count_hit_no_key: "q \<noteq> ip \<Longrightarrow> hm_get (hits (snd (count_hit ip now R))) q = hm_get (hits R) q"
  by (simp add: count_hit_def Let_def)

text \<open>One attempt of an address that is not exempt, against the limiter and the log together.\<close>

lemma allow_at_faithful:
  assumes "limiter_wf R" "ip \<notin> exempt_ips R" "faithful_at R now log q"
  shows "faithful_at (snd (allow_at ip now R)) now
    (if q = ip \<and> fst (allow_at ip now R) then log @ [now] else log) q"
  using assms faithful_at_swept [OF assms(1,3), of ip]
    faithful_at_count_hit [OF faithful_at_swept [OF assms(1,3), of ip], of ip]
  by (auto simp: allow_at_swept limiter_wf_def split: if_splits)

lemma allow_at_wf: "limiter_wf R \<Longrightarrow> limiter_wf (snd (allow_at ip now R))"
proof (cases "ip \<in> exempt_ips R")
  case True
  moreover assume "limiter_wf R"
  ultimately show ?thesis by (simp add: allow_at_def)
next
  case False
  moreover assume wf: "limiter_wf R"
  moreover from wf have "hm_wf (hits R)" by (simp add: limiter_wf_def)
  ultimately show ?thesis
    by (simp add: allow_at_swept limiter_wf_swept limiter_wf_count_hit)
qed

lemma allow_at_exempt: "ip \<in> exempt_ips R \<Longrightarrow> allow_at ip now R = (True, R)"
  by (simp add: allow_at_def)

lemma allow_at_no_key:
  assumes "limiter_wf R" "ip \<notin> exempt_ips R" "q \<noteq> ip" "hm_get (hits R) q = None"
  shows "hm_get (hits (snd (allow_at ip now R))) q = None"
  using assms swept_no_key [OF assms(1,4)]
  by (simp add: allow_at_swept limiter_wf_def count_hit_no_key)

lemma attempt_eq:
  "attempt (ip, e) s = s\<lparr>limiter := snd (allow_at ip (clock s + e) (limiter s)), clock := clock s + e,
     admitted := (if fst (allow_at ip (clock s + e) (limiter s)) then admitted s @ [(ip, clock s + e)]
       else admitted s)\<rparr>"
  by (simp add: Let_def split: prod.splits)

lemma limited_inv_attempt:
  assumes "limited_inv s"
  shows "limited_inv (attempt a s)"
proof -
  obtain ip e where a: "a = (ip, e)" by (cases a)
  let ?now = "clock s + e"
  have inv: "limiter_wf (limiter s)"
      "\<And>q. sorted (hit_times q (admitted s)) \<and> set (hit_times q (admitted s)) \<subseteq> {..?now}"
      "\<And>q. q \<in> exempt_ips (limiter s) \<Longrightarrow> hm_get (hits (limiter s)) q = None"
      "\<And>q. q \<notin> exempt_ips (limiter s) \<Longrightarrow> faithful_at (limiter s) ?now (hit_times q (admitted s)) q"
    using assms by (fastforce simp: limited_inv_def intro: faithful_at_later)+
  have log: "sorted (hit_times q (admitted (attempt a s))) \<and> set (hit_times q (admitted (attempt a s))) \<subseteq> {..?now}" for q
    using inv(2) [of q] by (auto simp: a attempt_eq sorted_append simp del: attempt.simps)
  show ?thesis
  proof (cases "ip \<in> exempt_ips (limiter s)")
    case True
    then have "hit_times q (admitted (attempt a s)) = hit_times q (admitted s)" if "q \<notin> exempt_ips (limiter s)" for q
      using that by (auto simp: a attempt_eq simp del: attempt.simps)
    with True inv log show ?thesis
      by (auto simp: limited_inv_def a attempt_eq allow_at_exempt simp del: attempt.simps)
  next
    case False
    with inv(3) have keys: "hm_get (hits (snd (allow_at ip ?now (limiter s)))) q = None"
      if "q \<in> exempt_ips (limiter s)" for q
      using that inv(1) by (intro allow_at_no_key) auto
    have "faithful_at (snd (allow_at ip ?now (limiter s))) ?now (hit_times q (admitted (attempt a s))) q"
      if "q \<notin> exempt_ips (limiter s)" for q
      using allow_at_faithful [OF inv(1) False inv(4) [OF that]]
      by (auto simp: a attempt_eq simp del: attempt.simps split: if_splits)
    with log keys inv(1) show ?thesis
      by (auto simp: limited_inv_def a attempt_eq allow_at_wf simp del: attempt.simps)
  qed
qed

interpretation limited: machine attempt limited_inv "\<lambda>_. True"
  by unfold_locales (rule limited_inv_attempt)

lemma exempt_fold: "exempt_ips (fold exempt ips R) = set ips \<union> exempt_ips R
    \<and> max_per_window (fold exempt ips R) = max_per_window R \<and> window (fold exempt ips R) = window R
    \<and> max_tracked_ips (fold exempt ips R) = max_tracked_ips R \<and> hits (fold exempt ips R) = hits R"
  by (induction ips arbitrary: R) (auto simp: exempt_def)

lemma limited_start_simps [simp]:
  "exempt_ips (limiter (limited_start m w ips t)) = set ips"
  "max_per_window (limiter (limited_start m w ips t)) = m"
  "window (limiter (limited_start m w ips t)) = w"
  "max_tracked_ips (limiter (limited_start m w ips t)) = MAX_TRACKED_IPS"
  "hits (limiter (limited_start m w ips t)) = hm_empty"
  "clock (limited_start m w ips t) = t" "admitted (limited_start m w ips t) = []"
  by (simp_all add: limited_start_def with_exemptions_def exempt_fold rate_limiter_new_def)

lemma limited_inv_start: "limited_inv (limited_start m w ips t)"
  by (simp add: limited_inv_def limiter_wf_def faithful_at_def stored_def)

lemma attempt_frame [simp, frame_simps]:
  "max_per_window (limiter (attempt a s)) = max_per_window (limiter s)"
  "window (limiter (attempt a s)) = window (limiter s)"
  "max_tracked_ips (limiter (attempt a s)) = max_tracked_ips (limiter s)"
  "exempt_ips (limiter (attempt a s)) = exempt_ips (limiter s)"
  by (cases a; simp add: attempt_eq del: attempt.simps)+

lemma run_frame [simp, frame_simps]:
  "max_per_window (limiter (limited_run as s)) = max_per_window (limiter s)"
  "window (limiter (limited_run as s)) = window (limiter s)"
  "max_tracked_ips (limiter (limited_run as s)) = max_tracked_ips (limiter s)"
  "exempt_ips (limiter (limited_run as s)) = exempt_ips (limiter s)"
  by (induction as arbitrary: s) simp_all

lemma limited_inv_run: "limited_inv (limited_run as (limited_start m w ips t))"
  by (rule limited.inv_run) (simp_all add: limited_inv_start)

section \<open>The bound\<close>

text \<open>The admissions of \<open>ip\<close> in the closed interval of length \<open>w\<close> that begins at \<open>start\<close>.\<close>

definition in_span :: "instant \<Rightarrow> duration \<Rightarrow> instant list \<Rightarrow> instant list" where
  "in_span start w ts = filter (\<lambda>t. start \<le> t \<and> t \<le> start + w) ts"

definition spans_bounded :: "limited \<Rightarrow> bool" where
  "spans_bounded s \<longleftrightarrow> (\<forall>ip start. ip \<notin> exempt_ips (limiter s) \<longrightarrow>
     length (in_span start (window (limiter s)) (hit_times ip (admitted s))) \<le> unat (max_per_window (limiter s)))"

lemma stored_window:
  assumes "faithful_at R now log ip"
  shows "prune (stored R ip) now (window R) = filter (within (window R) now) log"
  using assms by (auto simp: faithful_at_def prune_eq_filter)

lemma allow_at_admits_iff:
  assumes "limiter_wf R" "ip \<notin> exempt_ips R" "faithful_at R now log ip"
  shows "fst (allow_at ip now R) \<longleftrightarrow>
    length (filter (within (window R) now) log) < unat (max_per_window R) \<and> \<not> saturated ip (swept ip now R)"
  using assms stored_window [OF faithful_at_swept [OF assms(1,3), of ip]]
  by (auto simp: allow_at_swept limiter_wf_def fst_count_hit)

lemma spans_bounded_attempt:
  assumes "limited_inv s" "spans_bounded s"
  shows "spans_bounded (attempt a s)"
proof -
  obtain ip e where a: "a = (ip, e)" by (cases a)
  let ?now = "clock s + e" and ?R = "limiter s" and ?log = "hit_times ip (admitted s)"
  have "length (in_span start (window ?R) (hit_times q (admitted (attempt a s)))) \<le> unat (max_per_window ?R)"
    if q: "q \<notin> exempt_ips ?R" for q start
  proof (cases "q = ip \<and> fst (allow_at ip ?now ?R) \<and> start \<le> ?now \<and> ?now \<le> start + window ?R")
    case True
    with q assms(1) have "faithful_at ?R ?now ?log ip"
      by (auto simp: limited_inv_def intro: faithful_at_later)
    with True q assms(1) have less: "length (filter (within (window ?R) ?now) ?log) < unat (max_per_window ?R)"
      using allow_at_admits_iff [of ?R ip ?now ?log] by (simp add: limited_inv_def)
    have "length (in_span start (window ?R) ?log) \<le> length (filter (within (window ?R) ?now) ?log)"
      using True by (auto simp: in_span_def within_def intro!: filter_length_mono)
    with less True show ?thesis by (simp add: a attempt_eq in_span_def del: attempt.simps)
  next
    case False
    with assms(2) q have "length (in_span start (window ?R) (hit_times q (admitted s))) \<le> unat (max_per_window ?R)"
      by (simp add: spans_bounded_def)
    with False show ?thesis by (auto simp: a attempt_eq in_span_def simp del: attempt.simps)
  qed
  then show ?thesis by (simp add: spans_bounded_def)
qed

lemma spans_bounded_run: "spans_bounded (limited_run as (limited_start m w ips t))"
  by (rule limited.run_keeps [where P = spans_bounded, OF spans_bounded_attempt])
    (simp_all add: limited_inv_start, simp add: spans_bounded_def in_span_def)

lemma saturated_swept:
  "saturated ip (swept ip now R) \<Longrightarrow> \<exists>R'. swept ip now R = sweep now R' \<and> (R' = R \<or> R' = sweep now R)"
  by (auto simp: swept_def saturated_def Let_def split: if_splits)

text \<open>In a saturated table every tracked address has a hit inside the window.\<close>

lemma saturated_live:
  assumes "limiter_wf R" "saturated ip (swept ip now R)" "hm_get (hits (swept ip now R)) q = Some hs"
  shows "stored (swept ip now R) q \<noteq> [] \<and> stored (swept ip now R) q = hs"
proof -
  from saturated_swept [OF assms(2)] obtain R' where
    R': "swept ip now R = sweep now R'" "R' = R \<or> R' = sweep now R" by blast
  from R'(2) assms(1) limiter_wf_sweep [OF assms(1), of now] have "hm_wf (hits R')"
    by (auto simp: limiter_wf_def)
  with R'(1) assms(3) show ?thesis
    by (auto simp: sweep_def hm_get_retain stored_def Let_def split: option.splits if_splits)
qed

lemma hm_wf_get: "hm_wf m \<Longrightarrow> (k, v) \<in> set m \<Longrightarrow> hm_get m k = Some v"
  by (simp add: hm_wf_def hm_get_def)

lemma stored_total:
  assumes "hm_wf (hits R)" "\<And>ip. length (stored R ip) \<le> m"
  shows "sum_list (map (length \<circ> snd) (hits R)) \<le> hm_len (hits R) * m"
proof -
  have "length hs \<le> m" if "(ip, hs) \<in> set (hits R)" for ip hs
    using assms(2) [of ip] hm_wf_get [OF assms(1) that] by (simp add: stored_def)
  then have "sum_list (map (length \<circ> snd) (hits R)) \<le> sum_list (map (\<lambda>_. m) (hits R))"
    by (intro sum_list_mono) auto
  then show ?thesis by (simp add: hm_len_def sum_list_triv)
qed

text \<open>So a saturated table means that many addresses were admitted within the window.\<close>

lemma saturated_addresses:
  assumes wf: "limiter_wf R" and sat: "saturated ip (swept ip now R)"
    and keys: "\<And>q. q \<in> exempt_ips R \<Longrightarrow> hm_get (hits R) q = None"
    and faithful: "\<And>q. q \<notin> exempt_ips R \<Longrightarrow> faithful_at R now (log q) q"
  shows "\<exists>S. finite S \<and> max_tracked_ips R \<le> card S \<and>
    (\<forall>q \<in> S. \<exists>t \<in> set (log q). within (window R) now t)"
proof -
  let ?W = "swept ip now R" and ?S = "{q. hm_get (hits (swept ip now R)) q \<noteq> None}"
  have wfW: "limiter_wf ?W" using wf by (rule limiter_wf_swept)
  have "finite ?S" by (metis List.finite_set set_hm_keys)
  moreover have "max_tracked_ips R \<le> card ?S"
    using sat wfW by (simp only: hm_card_keys limiter_wf_def saturated_def swept_frame)
  moreover have "\<exists>t \<in> set (log q). within (window R) now t" if "q \<in> ?S" for q
  proof -
    from that obtain hs where hs: "hm_get (hits ?W) q = Some hs" by blast
    have "q \<notin> exempt_ips R" using keys hs swept_no_key [OF wf, of q ip now] by auto
    then have "faithful_at ?W now (log q) q" by (intro faithful_at_swept [OF wf] faithful)
    moreover have "prune (stored ?W q) now (window R) \<noteq> []"
    proof -
      from saturated_swept [OF sat] obtain R' where R': "?W = sweep now R'" "R' = R \<or> R' = sweep now R" by blast
      have "hm_wf (hits R')" using R'(2) wf limiter_wf_sweep [OF wf, of now] by (auto simp: limiter_wf_def)
      moreover have "window R' = window R" using R'(2) by auto
      ultimately have "stored ?W q = prune (stored R' q) now (window R)" using R'(1) by (simp add: stored_sweep)
      then have "prune (stored ?W q) now (window R) = stored ?W q" by (simp add: prune_def dropWhile_idem)
      with saturated_live [OF wf sat hs] show ?thesis by metis
    qed
    ultimately have "filter (within (window R) now) (log q) \<noteq> []"
      using stored_window [of ?W now "log q" q] by simp
    then show ?thesis by (auto simp: filter_empty_conv)
  qed
  ultimately show ?thesis by blast
qed

section \<open>Properties\<close>

text \<open>Sliding window. Whatever the sequence of connection attempts and however they are spaced,
  no closed interval of the window's length, placed anywhere, contains more than
  \<open>max_per_window\<close> admissions of one address that is not exempt.\<close>

theorem rate_limit_bound:
  assumes "ip \<notin> set exempted"
  shows "length (in_span start w (hit_times ip (admitted (limited_run attempts (limited_start m w exempted t0))))) \<le> unat m"
  using spans_bounded_run [of attempts m w exempted t0] assms by (simp add: spans_bounded_def)

theorem rate_limit_bound_witness:
  "length (in_span 5 60 (hit_times (V4 1)
     (admitted (limited_run [(V4 1, 0), (V4 1, 5), (V4 2, 1), (V4 1, 1)] (limited_start 2 60 [V4 9] 0))))) \<le> 2"
  using rate_limit_bound [of "V4 1" "[V4 9]" 5 60 "[(V4 1, 0), (V4 1, 5), (V4 2, 1), (V4 1, 1)]" 2 0] by simp

text \<open>C16 (exact admission). In any state the limiter can reach, an attempt is admitted exactly when
  the address is exempt, or it has fewer than \<open>max_per_window\<close> admissions in the window that
  ends now and the table has room for it; refused attempts are never counted, and the room
  can only be missing when at least 100000 addresses have an admission in that window.\<close>

theorem rate_limit_exact:
  assumes s: "s = limited_run attempts (limited_start m w exempted t0)" and now: "now = clock s + elapsed"
  shows "(fst (allow_at ip now (limiter s)) \<longleftrightarrow> ip \<in> set exempted \<or>
      length (filter (within w now) (hit_times ip (admitted s))) < unat m \<and>
      \<not> saturated ip (swept ip now (limiter s))) \<and>
    (saturated ip (swept ip now (limiter s)) \<longrightarrow>
      (\<exists>S. finite S \<and> MAX_TRACKED_IPS \<le> card S \<and>
        (\<forall>q \<in> S. \<exists>t \<in> set (hit_times q (admitted s)). within w now t)))"
proof (intro conjI impI)
  let ?R = "limiter s" and ?W = "swept ip now (limiter s)"
  have inv: "limited_inv s" unfolding s by (rule limited_inv_run)
  then have wf: "limiter_wf ?R" by (simp add: limited_inv_def)
  have par: "exempt_ips ?R = set exempted" "window ?R = w" "max_per_window ?R = m"
      "max_tracked_ips ?R = MAX_TRACKED_IPS"
    by (simp_all add: s)
  have faithful: "faithful_at ?R now (hit_times q (admitted s)) q" if "q \<notin> set exempted" for q
    using inv that par by (auto simp: limited_inv_def now intro: faithful_at_later)
  show "fst (allow_at ip now ?R) \<longleftrightarrow> ip \<in> set exempted \<or>
      length (filter (within w now) (hit_times ip (admitted s))) < unat m \<and> \<not> saturated ip ?W"
    using allow_at_admits_iff [OF wf _ faithful, of ip] par
    by (cases "ip \<in> set exempted") (simp_all add: allow_at_exempt)
  assume "saturated ip (swept ip now ?R)"
  with saturated_addresses [OF wf, of ip now "\<lambda>q. hit_times q (admitted s)"] faithful inv
  show "\<exists>S. finite S \<and> MAX_TRACKED_IPS \<le> card S \<and>
      (\<forall>q \<in> S. \<exists>t \<in> set (hit_times q (admitted s)). within w now t)"
    by (simp add: par limited_inv_def)
qed

theorem rate_limit_exact_witness:
  "\<not> fst (allow_at (V4 1) 60 (limiter (limited_run [(V4 1, 0), (V4 1, 0)] (limited_start 2 60 [] 0))))"
proof -
  let ?s = "limited_run [(V4 1, 0), (V4 1, 0)] (limited_start 2 60 [] 0)"
  have "length (filter (within 60 60) (hit_times (V4 1) (admitted ?s))) = 2" "clock ?s = 0"
    by (simp_all add: limited_start_def with_exemptions_def rate_limiter_new_def allow_at_def count_hit_def
        Let_def MAX_TRACKED_IPS_def hm_len_insert prune_def within_def)
  then show ?thesis
    using rate_limit_exact [OF refl refl, where attempts = "[(V4 1, 0), (V4 1, 0)]" and m = 2 and w = 60
        and exempted = "[]" and ?t0.0 = 0 and elapsed = 60 and ip = "V4 1"]
    by simp
qed

text \<open>Bounded memory. Whatever the sequence of attempts and source addresses, the limiter never
  tracks more than 100000 addresses and never holds more than \<open>max_per_window\<close> instants for
  one of them, hence never more than their product in total.\<close>

theorem rate_limit_memory:
  "hm_len (hits (limiter (limited_run attempts (limited_start m w exempted t0)))) \<le> 100000 \<and>
   sum_list (map (length \<circ> snd) (hits (limiter (limited_run attempts (limited_start m w exempted t0)))))
     \<le> 100000 * unat m"
proof -
  let ?s = "limited_run attempts (limited_start m w exempted t0)"
  have inv: "limited_inv ?s" by (rule limited_inv_run)
  then have wf: "hm_wf (hits (limiter ?s))" and len: "hm_len (hits (limiter ?s)) \<le> 100000"
    by (simp_all add: limited_inv_def limiter_wf_def MAX_TRACKED_IPS_def)
  have "length (stored (limiter ?s) ip) \<le> unat m" for ip
    using inv by (cases "ip \<in> set exempted") (auto simp: limited_inv_def faithful_at_def stored_def)
  from stored_total [OF wf this] mult_le_mono1 [OF len, of "unat m"] len show ?thesis
    by (blast intro: le_trans)
qed

end
