(* ===== verification/Client.thy ===== *)
theory Client imports Auth Rate_Limit begin

text \<open>
  The Client half of \<^verbatim>\<open>crates/nux-core/src/node.rs\<close>: waiting for connections and for the relay,
  rendezvous registration and discovery, the handshake \<open>authenticate\<close>, the reconnection with
  exponential backoff and the resilient session.

  The swarm is the list of the events it will yield; each await loop consumes a prefix of it
  and is \<open>Pending\<close> when the list ends first. A timer that fires while a loop waits is an event,
  \<open>TimeoutElapsed\<close>, and so is the cancellation of the shutdown token. What libp2p answers at
  once (the result of a dial, whether a peer is connected) is an argument.
\<close>

section \<open>Events\<close>

datatype client_event =
    ConnEstablished peer_id
  | OutgoingError "peer_id option" string
  | ConnClosed peer_id nat
  | AuthResponse peer_id nat nux_response
  | AuthOutboundFailure peer_id nat
  | NewListenAddr multiaddr
  | ReservationAccepted peer_id
  | RdvRegistered peer_id string
  | RdvRegisterFailed peer_id string string
  | RdvDiscovered peer_id "(peer_id \<times> multiaddr list) list"
  | RdvDiscoverFailed peer_id string
  | TimeoutElapsed
  | ShutdownRequested
  | OtherClientEvent

datatype 'a outcome = Pending | Ready 'a "client_event list"

section \<open>Waiting\<close>

fun wait_for_listen_addr :: "client_event list \<Rightarrow> multiaddr outcome" where
  "wait_for_listen_addr [] = Pending"
| "wait_for_listen_addr (ev # evs) = (case ev of NewListenAddr a \<Rightarrow> Ready a evs | _ \<Rightarrow> wait_for_listen_addr evs)"

fun next_connection :: "client_event list \<Rightarrow> (nux_error + peer_id) outcome" where
  "next_connection [] = Pending"
| "next_connection (ev # evs) = (case ev of
       ConnEstablished p \<Rightarrow> Ready (Inr p) evs
     | OutgoingError _ e \<Rightarrow> Ready (Inl (Dial (LibError e))) evs
     | _ \<Rightarrow> next_connection evs)"

fun wait_for_peer :: "peer_id \<Rightarrow> client_event list \<Rightarrow> (nux_error + unit) outcome" where
  "wait_for_peer peer [] = Pending"
| "wait_for_peer peer (ev # evs) = (case ev of
       ConnEstablished p \<Rightarrow> if p = peer then Ready (Inr ()) evs else wait_for_peer peer evs
     | OutgoingError (Some p) e \<Rightarrow>
         if p = peer then Ready (Inl (Dial (LibError e))) evs else wait_for_peer peer evs
     | _ \<Rightarrow> wait_for_peer peer evs)"

fun wait_for_circuit_reservation :: "peer_id \<Rightarrow> client_event list \<Rightarrow> (nux_error + unit) outcome" where
  "wait_for_circuit_reservation relay [] = Pending"
| "wait_for_circuit_reservation relay (ev # evs) = (case ev of
       ReservationAccepted p \<Rightarrow> if p = relay then Ready (Inr ()) evs else wait_for_circuit_reservation relay evs
     | ConnClosed p _ \<Rightarrow>
         if p = relay then Ready (Inl (Network RelayLostBeforeReservation)) evs
         else wait_for_circuit_reservation relay evs
     | _ \<Rightarrow> wait_for_circuit_reservation relay evs)"

fun await_registered :: "peer_id \<Rightarrow> string \<Rightarrow> client_event list \<Rightarrow> (nux_error + unit) outcome" where
  "await_registered rz ns [] = Pending"
| "await_registered rz ns (ev # evs) = (case ev of
       RdvRegistered p n \<Rightarrow> if p = rz \<and> n = ns then Ready (Inr ()) evs else await_registered rz ns evs
     | RdvRegisterFailed p n e \<Rightarrow>
         if p = rz \<and> n = ns then Ready (Inl (Network (RegistrationRefused e))) evs else await_registered rz ns evs
     | _ \<Rightarrow> await_registered rz ns evs)"

text \<open>\<open>accepted\<close>: whether the rendezvous behaviour takes the request, which it refuses locally
  without an external address.\<close>

definition register_namespace :: "string + unit \<Rightarrow> peer_id \<Rightarrow> string \<Rightarrow> client_event list \<Rightarrow> (nux_error + unit) outcome" where
  "register_namespace accepted rz ns evs = (case accepted of
       Inl e \<Rightarrow> Ready (Inl (Network (LibError e))) evs
     | Inr _ \<Rightarrow> await_registered rz ns evs)"

section \<open>Discovery\<close>

definition PER_ADDRESS_DIAL_TIMEOUT_SECS :: nat where
  "PER_ADDRESS_DIAL_TIMEOUT_SECS = 10"

fun await_discovered :: "peer_id \<Rightarrow> client_event list \<Rightarrow> (nux_error + (peer_id \<times> multiaddr list) list) outcome" where
  "await_discovered rz [] = Pending"
| "await_discovered rz (ev # evs) = (case ev of
       RdvDiscovered p regs \<Rightarrow> if p = rz then Ready (Inr regs) evs else await_discovered rz evs
     | RdvDiscoverFailed p e \<Rightarrow>
         if p = rz then Ready (Inl (Network (DiscoveryFailed e))) evs else await_discovered rz evs
     | _ \<Rightarrow> await_discovered rz evs)"

text \<open>\<^verbatim>\<open>timeout(.., wait_for_peer)\<close>: whether the peer was joined before the timer fired.\<close>

fun joined_in_time :: "peer_id \<Rightarrow> client_event list \<Rightarrow> bool outcome" where
  "joined_in_time peer [] = Pending"
| "joined_in_time peer (ev # evs) = (case ev of
       TimeoutElapsed \<Rightarrow> Ready False evs
     | ConnEstablished p \<Rightarrow> if p = peer then Ready True evs else joined_in_time peer evs
     | OutgoingError (Some p) _ \<Rightarrow> if p = peer then Ready False evs else joined_in_time peer evs
     | _ \<Rightarrow> joined_in_time peer evs)"

fun dial_addresses :: "(peer_id \<Rightarrow> multiaddr \<Rightarrow> string + unit) \<Rightarrow> (peer_id \<times> multiaddr) list \<Rightarrow> client_event list \<Rightarrow>
    (peer_id \<times> multiaddr) option outcome" where
  "dial_addresses redial [] evs = Ready None evs"
| "dial_addresses redial ((peer, addr) # more_addrs) evs =
     (case redial peer addr of
        Inl _ \<Rightarrow> dial_addresses redial more_addrs evs
      | Inr _ \<Rightarrow> (case joined_in_time peer evs of
            Pending \<Rightarrow> Pending
          | Ready True rest \<Rightarrow> Ready (Some (peer, addr)) rest
          | Ready False rest \<Rightarrow> dial_addresses redial more_addrs rest))"

definition discover_and_dial :: "(peer_id \<Rightarrow> multiaddr \<Rightarrow> string + unit) \<Rightarrow> peer_id \<Rightarrow> string \<Rightarrow> client_event list \<Rightarrow>
    (nux_error + (peer_id \<times> multiaddr)) outcome" where
  "discover_and_dial redial rz ns evs =
     (case await_discovered rz evs of
        Pending \<Rightarrow> Pending
      | Ready (Inl e) rest \<Rightarrow> Ready (Inl e) rest
      | Ready (Inr regs) rest \<Rightarrow>
          if regs = [] then Ready (Inl (Network (NoPeerRegistered ns))) rest
          else (case dial_addresses redial (concat (map (\<lambda>(p, addrs). map (Pair p) addrs) regs)) rest of
              Pending \<Rightarrow> Pending
            | Ready (Some (p, a)) rest \<Rightarrow> Ready (Inr (p, a)) rest
            | Ready None rest \<Rightarrow> Ready (Inl (Network (NoPeerReachable ns))) rest))"

section \<open>The handshake\<close>

text \<open>
  Requests sent, with the identifiers libp2p gave them: \<open>next\<close> is the next fresh identifier. The
  clock is read once, for the answer.
\<close>

type_synonym sent_log = "(nat \<times> peer_id \<times> nux_request) list"

text \<open>The reaction to the awaited response: the final result, or the answer to send.\<close>

definition on_response :: "(bytes \<Rightarrow> string + bytes) \<Rightarrow> u64 option \<Rightarrow> bool \<Rightarrow> nux_response \<Rightarrow>
    (nux_error + role list) + nux_request" where
  "on_response sign now challenge_answered response =
     (case (challenge_answered, response) of
        (False, Challenge n _) \<Rightarrow>
          (case answer_challenge sign now n of Inl e \<Rightarrow> Inl (Inl e) | Inr answer \<Rightarrow> Inr answer)
      | (True, AccessGranted rs) \<Rightarrow> Inl (Inr rs)
      | (_, Denied) \<Rightarrow> Inl (Inl AccessDenied)
      | (_, other) \<Rightarrow> Inl (Inl (Protocol (UnexpectedResponse other))))"

fun handshake_loop :: "(bytes \<Rightarrow> string + bytes) \<Rightarrow> u64 option \<Rightarrow> peer_id \<Rightarrow> nat \<Rightarrow> bool \<Rightarrow> nat \<Rightarrow> sent_log \<Rightarrow>
    client_event list \<Rightarrow> sent_log \<times> nat \<times> (nux_error + role list) outcome" where
  "handshake_loop sign now guard awaiting answered next_id sent [] = (sent, next_id, Pending)"
| "handshake_loop sign now guard awaiting answered next_id sent (ev # evs) =
     (case ev of
        AuthResponse p rid response \<Rightarrow>
          if p = guard \<and> rid = awaiting then
            (case on_response sign now answered response of
               Inl r \<Rightarrow> (sent, next_id, Ready r evs)
             | Inr answer \<Rightarrow>
                 handshake_loop sign now guard next_id True (Suc next_id) (sent @ [(next_id, guard, answer)]) evs)
          else handshake_loop sign now guard awaiting answered next_id sent evs
      | AuthOutboundFailure p rid \<Rightarrow>
          if p = guard \<and> rid = awaiting then (sent, next_id, Ready (Inl AccessDenied) evs)
          else handshake_loop sign now guard awaiting answered next_id sent evs
      | ConnClosed p _ \<Rightarrow>
          if p = guard then (sent, next_id, Ready (Inl AccessDenied) evs)
          else handshake_loop sign now guard awaiting answered next_id sent evs
      | _ \<Rightarrow> handshake_loop sign now guard awaiting answered next_id sent evs)"

definition authenticate :: "(bytes \<Rightarrow> string + bytes) \<Rightarrow> u64 option \<Rightarrow> bool \<Rightarrow> peer_id \<Rightarrow> nat \<Rightarrow> client_event list \<Rightarrow>
    sent_log \<times> nat \<times> (nux_error + role list) outcome" where
  "authenticate sign now connected guard next_id evs =
     (case (if connected then Ready (Inr ()) evs else wait_for_peer guard evs) of
        Pending \<Rightarrow> ([], next_id, Pending)
      | Ready (Inl e) rest \<Rightarrow> ([], next_id, Ready (Inl e) rest)
      | Ready (Inr _) rest \<Rightarrow>
          handshake_loop sign now guard next_id False (Suc next_id) [(next_id, guard, HandshakeInit)] rest)"

section \<open>Reconnection\<close>

definition INITIAL_BACKOFF_SECS :: nat where "INITIAL_BACKOFF_SECS = 1"
definition MAX_BACKOFF_SECS :: nat where "MAX_BACKOFF_SECS = 30"

text \<open>What one iteration of the loop finds: the result of the dial, whether the Guard is already
  connected, and the clock.\<close>

record retry =
  redial_result :: "string + unit"
  already_connected :: bool
  clock_reading :: "u64 option"

text \<open>\<open>slept\<close> lists the waits between attempts, in seconds.\<close>

fun reauthenticate_loop :: "(bytes \<Rightarrow> string + bytes) \<Rightarrow> peer_id \<Rightarrow> nat \<Rightarrow> retry list \<Rightarrow> nat \<Rightarrow> client_event list \<Rightarrow>
    nat list \<Rightarrow> nat list \<times> retry list \<times> nat \<times> role list outcome" where
  "reauthenticate_loop sign guard backoff [] next_id evs slept = (slept, [], next_id, Pending)"
| "reauthenticate_loop sign guard backoff (t # tries) next_id evs slept =
     (let (next_id, out) = (case redial_result t of
            Inl e \<Rightarrow> (next_id, Ready (Inl (Dial (LibError e))) evs)
          | Inr _ \<Rightarrow> snd (authenticate sign (clock_reading t) (already_connected t) guard next_id evs))
      in case out of
          Pending \<Rightarrow> (slept, tries, next_id, Pending)
        | Ready (Inr rs) rest \<Rightarrow> (slept, tries, next_id, Ready rs rest)
        | Ready (Inl _) rest \<Rightarrow>
            reauthenticate_loop sign guard (min (backoff * 2) MAX_BACKOFF_SECS) tries next_id rest (slept @ [backoff]))"

definition reauthenticate :: "(bytes \<Rightarrow> string + bytes) \<Rightarrow> peer_id \<Rightarrow> retry list \<Rightarrow> nat \<Rightarrow> client_event list \<Rightarrow>
    nat list \<times> retry list \<times> nat \<times> role list outcome" where
  "reauthenticate sign guard tries next_id evs =
     reauthenticate_loop sign guard INITIAL_BACKOFF_SECS tries next_id evs []"

text \<open>
  The session loop. The token, once cancelled, stays cancelled; \<open>select!\<close> looks at it only between
  two events, not while the re-authentication is awaited. \<open>bound\<close> is fuel; each turn consumes
  an event, so the number of events is enough.
\<close>

datatype session_state = SessionRunning | SessionReconnecting | SessionDraining "client_event list"

fun run_client_session :: "nat \<Rightarrow> (bytes \<Rightarrow> string + bytes) \<Rightarrow> peer_id \<Rightarrow> bool \<Rightarrow> retry list \<Rightarrow> nat \<Rightarrow>
    client_event list \<Rightarrow> session_state" where
  "run_client_session 0 sign guard cancelled tries next_id evs = SessionRunning"
| "run_client_session (Suc bound) sign guard cancelled tries next_id evs =
     (if cancelled then SessionDraining evs
      else case evs of
          [] \<Rightarrow> SessionRunning
        | ev # rest \<Rightarrow> (case ev of
              ShutdownRequested \<Rightarrow> run_client_session bound sign guard True tries next_id rest
            | ConnClosed p n \<Rightarrow>
                if n = 0 \<and> p = guard then
                  (case reauthenticate sign guard tries next_id rest of
                     (_, tries', next', Ready _ rest') \<Rightarrow>
                       run_client_session bound sign guard
                         (ShutdownRequested \<in> set (take (length rest - length rest') rest)) tries' next' rest'
                   | (_, _, _, Pending) \<Rightarrow> SessionReconnecting)
                else run_client_session bound sign guard cancelled tries next_id rest
            | _ \<Rightarrow> run_client_session bound sign guard cancelled tries next_id rest))"

section \<open>Facts on the handshake\<close>

lemma on_response_Granted: "on_response sign now b r = Inl (Inr rs) \<longleftrightarrow> b \<and> r = AccessGranted rs"
  by (cases r; cases b) (auto simp: on_response_def split: sum.splits)

lemma on_response_answer:
  "on_response sign now b r = Inr answer \<longleftrightarrow>
     \<not> b \<and> (\<exists>n t sig. r = Challenge n t \<and> sign (challenge_payload n (unix_now now)) = Inr sig \<and>
        answer = ChallengeAnswer sig (unix_now now))"
  by (cases r; cases b) (auto simp: on_response_def answer_challenge_def Let_def and_then_Inr_iff split: sum.splits)

lemma handshake_loop_answered:
  "handshake_loop sign now guard awaiting True next_id sent evs = (sent', next', Ready (Inr rs) rest) \<Longrightarrow>
     sent' = sent \<and> (\<exists>e. evs = e @ AuthResponse guard awaiting (AccessGranted rs) # rest)"
proof (induction evs)
  case Nil
  then show ?case by simp
next
  case (Cons ev evs)
  show ?case
  proof (cases "\<exists>r. ev = AuthResponse guard awaiting r")
    case True
    then obtain r where ev: "ev = AuthResponse guard awaiting r" by blast
    with Cons.prems show ?thesis
      by (auto simp: on_response_Granted on_response_answer split: sum.splits)
  next
    case False
    with Cons.prems have "handshake_loop sign now guard awaiting True next_id sent evs = (sent', next', Ready (Inr rs) rest)"
      by (auto split: client_event.splits if_splits)
    with Cons.IH show ?thesis by (metis append_Cons)
  qed
qed

lemma handshake_loop_fresh:
  "handshake_loop sign now guard awaiting False next_id sent evs = (sent', next', Ready (Inr rs) rest) \<Longrightarrow>
     \<exists>e1 n t sig e2. evs = e1 @ AuthResponse guard awaiting (Challenge n t) #
         e2 @ AuthResponse guard next_id (AccessGranted rs) # rest \<and>
       sign (challenge_payload n (unix_now now)) = Inr sig \<and>
       sent' = sent @ [(next_id, guard, ChallengeAnswer sig (unix_now now))]"
proof (induction evs)
  case Nil
  then show ?case by simp
next
  case (Cons ev evs)
  show ?case
  proof (cases "\<exists>r. ev = AuthResponse guard awaiting r")
    case True
    then obtain r where ev: "ev = AuthResponse guard awaiting r" by blast
    with Cons.prems obtain answer where answer: "on_response sign now False r = Inr answer"
      "handshake_loop sign now guard next_id True (Suc next_id) (sent @ [(next_id, guard, answer)]) evs
         = (sent', next', Ready (Inr rs) rest)"
      by (auto simp: on_response_Granted split: sum.splits)
    from handshake_loop_answered [OF answer(2)] answer(1) ev show ?thesis
      unfolding on_response_answer by (metis append_Nil)
  next
    case False
    with Cons.prems have "handshake_loop sign now guard awaiting False next_id sent evs = (sent', next', Ready (Inr rs) rest)"
      by (auto split: client_event.splits if_splits)
    from Cons.IH [OF this] show ?thesis by (metis append_Cons)
  qed
qed

lemma wait_for_peer_prefix: "wait_for_peer p evs = Ready r rest \<Longrightarrow> \<exists>e. evs = e @ rest"
  by (induction p evs rule: wait_for_peer.induct)
    (auto split: client_event.splits option.splits if_splits intro: exI [of _ "[_]"] simp: append_eq_Cons_conv)

lemma joined_in_time_True:
  "joined_in_time p evs = Ready b rest \<Longrightarrow> \<exists>e. evs = e @ rest \<and> (b \<longrightarrow> ConnEstablished p \<in> set e)"
proof (induction evs)
  case Nil
  then show ?case by simp
next
  case (Cons ev evs)
  show ?case
  proof (cases "joined_in_time p evs = Ready b rest")
    case True
    with Cons.IH show ?thesis by (metis append_Cons list.set_intros(2))
  next
    case False
    with Cons.prems have "rest = evs \<and> (b \<longrightarrow> ev = ConnEstablished p)"
      by (auto split: client_event.splits option.splits if_splits)
    then show ?thesis by (intro exI [of _ "[ev]"]) auto
  qed
qed

lemma await_discovered_ok:
  "await_discovered rz evs = Ready (Inr regs) rest \<Longrightarrow> \<exists>e. evs = e @ rest \<and> RdvDiscovered rz regs \<in> set e"
proof (induction evs)
  case Nil
  then show ?case by simp
next
  case (Cons ev evs)
  show ?case
  proof (cases "await_discovered rz evs = Ready (Inr regs) rest")
    case True
    with Cons.IH show ?thesis by (metis append_Cons list.set_intros(2))
  next
    case False
    with Cons.prems have "rest = evs \<and> ev = RdvDiscovered rz regs"
      by (auto split: client_event.splits if_splits)
    then show ?thesis by (intro exI [of _ "[ev]"]) auto
  qed
qed

lemma dial_addresses_Some:
  "dial_addresses redial cands evs = Ready (Some (p, a)) rest \<Longrightarrow>
     (p, a) \<in> set cands \<and> redial p a = Inr () \<and> ConnEstablished p \<in> set evs"
proof (induction redial cands evs rule: dial_addresses.induct)
  case (1 redial evs)
  then show ?case by simp
next
  case (2 redial peer addr cands evs)
  show ?case
  proof (cases "redial peer addr")
    case (Inl e)
    with 2 show ?thesis by auto
  next
    case (Inr u)
    then obtain b rest' where joined: "joined_in_time peer evs = Ready b rest'"
      using "2.prems" by (cases "joined_in_time peer evs") auto
    from joined_in_time_True [OF joined] obtain e where e: "evs = e @ rest'" "b \<longrightarrow> ConnEstablished peer \<in> set e"
      by blast
    with 2 Inr joined show ?thesis by (cases b) auto
  qed
qed

lemma reauthenticate_sleeps:
  "fst (reauthenticate_loop sign guard (min (2 ^ k) 30) tries next_id evs slept) =
     slept @ map (\<lambda>i. min (2 ^ (k + i)) 30)
       [0 ..< length (fst (reauthenticate_loop sign guard (min (2 ^ k) 30) tries next_id evs slept)) - length slept]
   \<and> length slept \<le> length (fst (reauthenticate_loop sign guard (min (2 ^ k) 30) tries next_id evs slept))"
proof (induction tries arbitrary: k next_id evs slept)
  case Nil
  then show ?case by simp
next
  case (Cons t tries)
  have next_wait: "min (min (2 ^ k) 30 * 2) MAX_BACKOFF_SECS = min (2 ^ Suc k) (30 :: nat)"
    by (simp add: MAX_BACKOFF_SECS_def min_def)
  obtain next' out where out: "(case redial_result t of
      Inl e \<Rightarrow> (next_id, Ready (Inl (Dial (LibError e))) evs)
    | Inr _ \<Rightarrow> snd (authenticate sign (clock_reading t) (already_connected t) guard next_id evs)) = (next', out)"
    by fastforce
  show ?case
  proof (cases out)
    case Pending
    with out show ?thesis by simp
  next
    case (Ready r rest)
    show ?thesis
    proof (cases r)
      case (Inr rs)
      with Ready out show ?thesis by simp
    next
      case (Inl e)
      let ?again = "fst (reauthenticate_loop sign guard (min (2 ^ Suc k) 30) tries next' rest (slept @ [min (2 ^ k) 30]))"
      from Cons.IH [of "Suc k" next' rest "slept @ [min (2 ^ k) 30]", unfolded length_append_singleton]
      have IH: "?again = (slept @ [min (2 ^ k) 30]) @ map (\<lambda>i. min (2 ^ (Suc k + i)) 30) [0 ..< length ?again - Suc (length slept)]"
        "Suc (length slept) \<le> length ?again" by blast+
      from IH(2) obtain m where "length ?again = Suc (length slept) + m" using le_Suc_ex by blast
      then have m: "length ?again - length slept = Suc m" by simp
      then have "map (\<lambda>i. min (2 ^ (k + i)) (30 :: nat)) [0 ..< Suc m]
          = min (2 ^ k) 30 # map (\<lambda>i. min (2 ^ (Suc k + i)) 30) [0 ..< m]"
        by (simp only: upt_conv_Cons [of 0 "Suc m"] zero_less_Suc map_Suc_upt [symmetric] list.map map_map) (simp add: comp_def)
      moreover have "fst (reauthenticate_loop sign guard (min (2 ^ k) 30) (t # tries) next_id evs slept) = ?again"
        using out Ready Inl by (simp add: next_wait del: power_Suc)
      moreover have "length ?again - Suc (length slept) = m" using m by simp
      ultimately show ?thesis using IH m by (metis append.assoc append_Cons append_Nil Suc_leD)
    qed
  qed
qed

lemma reauthenticate_unreachable:
  "list_all (\<lambda>t. \<exists>e. redial_result t = Inl e) tries \<Longrightarrow>
     \<exists>slept next'. reauthenticate_loop sign guard b tries next_id evs s = (slept, [], next', Pending)"
  by (induction tries arbitrary: b next_id evs s) (auto simp: Let_def split: sum.splits)

definition sample_sign :: "bytes \<Rightarrow> string + bytes" where
  "sample_sign m = Inr ([1] @ m)"

section \<open>Properties\<close>

text \<open>C17 (the Client's handshake). If \<open>authenticate\<close> returns roles, then it sent exactly two requests
  to that Guard: a handshake, and an answer carrying its clock reading and its signature over
  the nonce of a challenge that the Guard returned for the first request and that reading;
  and those roles are what the Guard returned for the second request, later. No other
  sequence of events makes it succeed.\<close>

theorem authenticate_sound:
  assumes "authenticate sign now connected guard next_id evs = (sent, next', Ready (Inr rs) rest)"
  shows "\<exists>e1 n t sig e2.
    evs = e1 @ AuthResponse guard next_id (Challenge n t) # e2 @ AuthResponse guard (Suc next_id) (AccessGranted rs) # rest \<and>
    sign (challenge_payload n (unix_now now)) = Inr sig \<and>
    sent = [(next_id, guard, HandshakeInit), (Suc next_id, guard, ChallengeAnswer sig (unix_now now))]"
proof -
  from assms obtain rest1 where start: "(if connected then Ready (Inr ()) evs else wait_for_peer guard evs) = Ready (Inr ()) rest1"
    and loop: "handshake_loop sign now guard next_id False (Suc next_id) [(next_id, guard, HandshakeInit)] rest1
      = (sent, next', Ready (Inr rs) rest)"
    by (auto simp: authenticate_def split: outcome.splits sum.splits)
  from start obtain e0 where "evs = e0 @ rest1"
    using wait_for_peer_prefix [of guard evs] by (cases connected) auto
  moreover from handshake_loop_fresh [OF loop] obtain e1 n t sig e2 where
    "rest1 = e1 @ AuthResponse guard next_id (Challenge n t) # e2 @ AuthResponse guard (Suc next_id) (AccessGranted rs) # rest"
    "sign (challenge_payload n (unix_now now)) = Inr sig"
    "sent = [(next_id, guard, HandshakeInit)] @ [(Suc next_id, guard, ChallengeAnswer sig (unix_now now))]"
    by blast
  ultimately show ?thesis
    by (intro exI [of _ "e0 @ e1"] exI [of _ n] exI [of _ t] exI [of _ sig] exI [of _ e2]) simp
qed

theorem authenticate_sound_witness:
  "\<exists>e1 n t sig e2. [ConnEstablished (PeerId [9]), AuthResponse (PeerId [9]) 0 (Challenge [7] 100),
      AuthResponse (PeerId [9]) 1 (AccessGranted [''admin''])] =
    e1 @ AuthResponse (PeerId [9]) 0 (Challenge n t) # e2 @ AuthResponse (PeerId [9]) (Suc 0) (AccessGranted [''admin'']) # [] \<and>
    sample_sign (challenge_payload n 101) = Inr sig"
proof -
  have "\<exists>sent next'. authenticate sample_sign (Some 101) False (PeerId [9]) 0
      [ConnEstablished (PeerId [9]), AuthResponse (PeerId [9]) 0 (Challenge [7] 100),
       AuthResponse (PeerId [9]) 1 (AccessGranted [''admin''])] = (sent, next', Ready (Inr [''admin'']) [])"
    by (intro exI) code_simp
  then obtain sent next' where "authenticate sample_sign (Some 101) False (PeerId [9]) 0
      [ConnEstablished (PeerId [9]), AuthResponse (PeerId [9]) 0 (Challenge [7] 100),
       AuthResponse (PeerId [9]) 1 (AccessGranted [''admin''])] = (sent, next', Ready (Inr [''admin'']) [])"
    by blast
  from authenticate_sound [OF this] show ?thesis by (auto simp: unix_now_def)
qed

text \<open>Backoff. Whatever happens during a reconnection, the waits between its attempts are 1, 2,
  4, 8, 16 and then 30 seconds for ever: the \<open>i\<close>-th is the smaller of two to the power \<open>i\<close> and 30.\<close>

theorem reconnection_backoff:
  "fst (reauthenticate sign guard tries next_id evs) =
     map (\<lambda>i. min (2 ^ i) 30) [0 ..< length (fst (reauthenticate sign guard tries next_id evs))]"
  using reauthenticate_sleeps [of sign guard 0 tries next_id evs "[]"]
  by (simp add: reauthenticate_def INITIAL_BACKOFF_SECS_def)

text \<open>Shutdown of the session. A session that runs stops at once when the shutdown is requested;
  but one that has lost its Guard and cannot reach it again never stops, whatever events come,
  the shutdown request included: the reconnection does not look at the token.\<close>

theorem session_shutdown:
  assumes "list_all (\<lambda>t. \<exists>e. redial_result t = Inl e) tries"
  shows "run_client_session (Suc (Suc b)) sign guard False tries next_id (ShutdownRequested # evs) = SessionDraining evs \<and>
    run_client_session (Suc b) sign guard False tries next_id (ConnClosed guard 0 # evs) = SessionReconnecting"
proof -
  obtain slept next' where "reauthenticate sign guard tries next_id evs = (slept, [], next', Pending)"
    using reauthenticate_unreachable [OF assms] unfolding reauthenticate_def by blast
  then show ?thesis by simp
qed

theorem session_shutdown_witness:
  "run_client_session 5 sample_sign (PeerId [9]) False
     [\<lparr>redial_result = Inl ''refused'', already_connected = False, clock_reading = None\<rparr>] 0
     [ConnClosed (PeerId [9]) 0, ShutdownRequested] = SessionReconnecting"
proof -
  have "list_all (\<lambda>t. \<exists>e. redial_result t = Inl e)
      [\<lparr>redial_result = Inl ''refused'', already_connected = False, clock_reading = None\<rparr>]" by simp
  from session_shutdown [OF this, of 4 sample_sign "PeerId [9]" 0 "[ShutdownRequested]"] show ?thesis
    by (simp add: numeral_eq_Suc)
qed

text \<open>Discovery. A peer and address returned by the discovery were announced by the rendezvous
  point that was asked, the dial of that address was accepted, and the connection to that peer
  was established afterwards.\<close>

theorem discover_announced_and_joined:
  assumes "discover_and_dial redial rz ns evs = Ready (Inr (p, a)) rest"
  shows "\<exists>e1 e2 regs addrs. evs = e1 @ e2 \<and> RdvDiscovered rz regs \<in> set e1 \<and> (p, addrs) \<in> set regs \<and>
    a \<in> set addrs \<and> redial p a = Inr () \<and> ConnEstablished p \<in> set e2"
proof -
  from assms obtain regs rest1 where "await_discovered rz evs = Ready (Inr regs) rest1"
    and dial: "dial_addresses redial (concat (map (\<lambda>(p, addrs). map (Pair p) addrs) regs)) rest1 = Ready (Some (p, a)) rest"
    by (auto simp: discover_and_dial_def split: outcome.splits sum.splits if_splits option.splits)
  moreover from this(1) obtain e1 where "evs = e1 @ rest1" "RdvDiscovered rz regs \<in> set e1"
    using await_discovered_ok by blast
  moreover from dial_addresses_Some [OF dial] obtain addrs where
    "(p, addrs) \<in> set regs" "a \<in> set addrs" "redial p a = Inr ()" "ConnEstablished p \<in> set rest1"
    by auto
  ultimately show ?thesis by blast
qed

theorem discover_announced_and_joined_witness:
  "\<exists>e1 e2 regs addrs. [RdvDiscovered (PeerId [8]) [(PeerId [9], [[Tcp 1], [Tcp 2]])], TimeoutElapsed, ConnEstablished (PeerId [9])] = e1 @ e2 \<and>
     RdvDiscovered (PeerId [8]) regs \<in> set e1 \<and> (PeerId [9], addrs) \<in> set regs \<and> [Tcp 2] \<in> set addrs"
proof -
  have "discover_and_dial (\<lambda>_ _. Inr ()) (PeerId [8]) ''db''
     [RdvDiscovered (PeerId [8]) [(PeerId [9], [[Tcp 1], [Tcp 2]])], TimeoutElapsed, ConnEstablished (PeerId [9])]
     = Ready (Inr (PeerId [9], [Tcp 2])) []"
    by code_simp
  from discover_announced_and_joined [OF this] show ?thesis by blast
qed

end
