(* ===== verification/Handshake.thy ===== *)
theory Handshake imports Guard_Properties Client begin

text \<open>
  The two halves of \<^verbatim>\<open>node.rs\<close> together: a Client's \<open>authenticate\<close> against a Guard's loop. What the
  Guard does is turned into the event the Client's swarm yields: a response is delivered, a
  cut connection is seen as closed.
\<close>

definition seen_by_client :: "peer_id \<Rightarrow> nat \<Rightarrow> effect list \<Rightarrow> client_event" where
  "seen_by_client guard rid effs = (case effs of
       [Respond _ resp] \<Rightarrow> AuthResponse guard rid resp
     | _ \<Rightarrow> ConnClosed guard 0)"

text \<open>
  The whole exchange. \<open>t1\<close>, \<open>t2\<close> are the Guard's clock at the two requests, \<open>tc\<close> the Client's when it
  signs, \<open>fresh\<close> the Guard's nonce.
\<close>

definition full_handshake :: "'pk key_lib \<Rightarrow> 's sem_lib \<Rightarrow> (bytes \<Rightarrow> string + bytes) \<Rightarrow> peer_id \<Rightarrow> peer_id \<Rightarrow>
    u64 option \<Rightarrow> u64 option \<Rightarrow> u64 option \<Rightarrow> bytes \<Rightarrow> 's guard \<Rightarrow> (nux_error + role list) outcome \<times> 's guard" where
  "full_handshake K S sign client guard t1 tc t2 fresh g =
     (let (effs1, g1) = guard_step K S (AuthRequest client HandshakeInit t1 fresh) g;
          ev1 = seen_by_client guard 0 effs1;
          (sent, _, r1) = authenticate sign tc True guard 0 [ev1]
      in case sent of
          [_, (_, _, answer)] \<Rightarrow>
            (let (effs2, g2) = guard_step K S (AuthRequest client answer t2 []) g1
             in (snd (snd (authenticate sign tc True guard 0 [ev1, seen_by_client guard 1 effs2])), g2))
        | _ \<Rightarrow> (r1, g1))"

lemma seen_by_client_simps [simp]:
  "seen_by_client guard rid [Respond p resp] = AuthResponse guard rid resp"
  "seen_by_client guard rid [Disconnect p] = ConnClosed guard 0"
  by (simp_all add: seen_by_client_def)

lemma guard_challenge:
  assumes "shutdown_deadline g = None" "roles (whitelist (authenticator g)) p = Some rs"
  shows "\<exists>g1. guard_step K S (AuthRequest p HandshakeInit t1 n) g = ([Respond p (Challenge n (unix_now t1))], g1) \<and>
    hm_get (pending (authenticator g1)) p = Some \<lparr>nonce = n, issued_at = unix_now t1\<rparr> \<and>
    whitelist (authenticator g1) = whitelist (authenticator g)"
  using assms by (auto simp: guard_step_def handle_guard_event_def handle_auth_request_def issue_def issue_at_def)

lemma guard_no_challenge:
  assumes "\<not> (shutdown_deadline g = None \<and> roles (whitelist (authenticator g)) p \<noteq> None)"
  shows "\<exists>g1. guard_step K S (AuthRequest p HandshakeInit t1 n) g = ([Disconnect p], g1)"
proof -
  have "fst (guard_step K S (AuthRequest p HandshakeInit t1 n) g) = [Disconnect p]"
    using auth_request_effects [of K S p HandshakeInit t1 n g] assms by auto
  then show ?thesis by (intro exI) (rule prod.expand, simp)
qed

lemma client_cut: "authenticate sign tc True guard 0 [ConnClosed guard 0] =
    ([(0, guard, HandshakeInit)], 1, Ready (Inl AccessDenied) [])"
  by (simp add: authenticate_def)

lemma client_challenged:
  assumes "sign (challenge_payload n (unix_now tc)) = Inr sig"
  shows "authenticate sign tc True guard 0 [AuthResponse guard 0 (Challenge n t)] =
      ([(0, guard, HandshakeInit), (1, guard, ChallengeAnswer sig (unix_now tc))], 2, Pending)"
    and "snd (snd (authenticate sign tc True guard 0 [AuthResponse guard 0 (Challenge n t), ConnClosed guard 0])) =
      Ready (Inl AccessDenied) []"
    and "snd (snd (authenticate sign tc True guard 0 [AuthResponse guard 0 (Challenge n t), AuthResponse guard 1 (AccessGranted rs)])) =
      Ready (Inr rs) []"
  using assms by (simp_all add: authenticate_def on_response_def answer_challenge_def Let_def)

lemma no_session_before_answer:
  assumes "guard_step K S (AuthRequest p HandshakeInit t1 n) g = (effs, g1)"
  shows "hm_get (sessions (authenticator g1)) q = hm_get (sessions (authenticator g)) q"
  using guard_step_auth [of K S "AuthRequest p HandshakeInit t1 n" g] assms by (auto split: if_splits)

lemma handshake_refused:
  assumes "\<not> (shutdown_deadline g = None \<and> roles (whitelist (authenticator g)) client \<noteq> None)"
    and "hm_get (sessions (authenticator g)) client = None"
  shows "fst (full_handshake K S sign client guard t1 tc t2 fresh g) = Ready (Inl AccessDenied) [] \<and>
    session_roles (authenticator (snd (full_handshake K S sign client guard t1 tc t2 fresh g))) client = None"
proof -
  obtain g1 where step: "guard_step K S (AuthRequest client HandshakeInit t1 fresh) g = ([Disconnect client], g1)"
    using guard_no_challenge [OF assms(1)] by blast
  with no_session_before_answer [OF step] assms(2) show ?thesis
    by (simp add: full_handshake_def client_cut session_roles_def)
qed

text \<open>The Guard's verdict on the answer to the challenge that is pending.\<close>

lemma guard_verdict:
  assumes "hm_get (pending (authenticator g1)) p = Some c" "roles (whitelist (authenticator g1)) p = Some rs"
    and "hm_get (sessions (authenticator g1)) p = None"
    and step: "guard_step K S (AuthRequest p (ChallengeAnswer sig ts) t2 n) g1 = (effs2, g2)"
  shows "effs2 = (if acceptable K p sig ts (unix_now t2) c then [Respond p (AccessGranted rs)] else [Disconnect p])"
    and "session_roles (authenticator g2) p = (if acceptable K p sig ts (unix_now t2) c then Some rs else None)"
proof -
  show "effs2 = (if acceptable K p sig ts (unix_now t2) c then [Respond p (AccessGranted rs)] else [Disconnect p])"
    using auth_request_effects [of K S p "ChallengeAnswer sig ts" t2 n g1] assms
    by (simp add: verify_at_eq Let_def split: if_splits)
  have "authenticator g2 = snd (verify_at K p sig ts (unix_now t2) (authenticator g1))"
    using guard_step_auth [of K S "AuthRequest p (ChallengeAnswer sig ts) t2 n" g1] step by simp
  with assms(1-3) show "session_roles (authenticator g2) p = (if acceptable K p sig ts (unix_now t2) c then Some rs else None)"
    by (simp add: session_roles_def verify_at_eq Let_def)
qed

lemma handshake_listed:
  assumes sign: "sign (challenge_payload fresh (unix_now tc)) = Inr sig"
    and closed: "hm_get (sessions (authenticator g)) client = None"
    and listed: "shutdown_deadline g = None" "roles (whitelist (authenticator g)) client = Some rs"
  shows "fst (full_handshake K S sign client guard t1 tc t2 fresh g) =
      Ready (if acceptable K client sig (unix_now tc) (unix_now t2) \<lparr>nonce = fresh, issued_at = unix_now t1\<rparr>
        then Inr rs else Inl AccessDenied) [] \<and>
    session_roles (authenticator (snd (full_handshake K S sign client guard t1 tc t2 fresh g))) client =
      (if acceptable K client sig (unix_now tc) (unix_now t2) \<lparr>nonce = fresh, issued_at = unix_now t1\<rparr> then Some rs else None)"
proof -
  obtain g1 where step: "guard_step K S (AuthRequest client HandshakeInit t1 fresh) g
      = ([Respond client (Challenge fresh (unix_now t1))], g1)"
    and pend: "hm_get (pending (authenticator g1)) client = Some \<lparr>nonce = fresh, issued_at = unix_now t1\<rparr>"
    and wl: "whitelist (authenticator g1) = whitelist (authenticator g)"
    using guard_challenge [OF listed] by blast
  obtain effs2 g2 where step2: "guard_step K S (AuthRequest client (ChallengeAnswer sig (unix_now tc)) t2 []) g1 = (effs2, g2)"
    by fastforce
  have whole: "full_handshake K S sign client guard t1 tc t2 fresh g = (snd (snd (authenticate sign tc True guard 0
      [AuthResponse guard 0 (Challenge fresh (unix_now t1)), seen_by_client guard 1 effs2])), g2)"
    using step step2 client_challenged(1) [where sign = sign and n = fresh and tc = tc, OF sign]
    by (simp add: full_handshake_def)
  have "hm_get (sessions (authenticator g1)) client = None"
    using no_session_before_answer [OF step] closed by simp
  note verdict = guard_verdict [OF pend _ this step2, of rs]
  show ?thesis
    using verdict listed(2) wl client_challenged(2,3) [where sign = sign and n = fresh and tc = tc, OF sign]
    by (simp add: whole)
qed

section \<open>Properties\<close>

text \<open>End-to-end handshake. A Client that signs with its key gets exactly the roles of the
  whitelist, and the Guard then has its session, when the Guard is not shutting down, lists
  it, the Guard's clock moved at most five seconds between the two requests, the Client's
  clock is within five seconds of the Guard's, and the signature verifies under the key in its
  PeerId. If any of this fails the Client gets \<open>AccessDenied\<close>, always the same, and no session
  is opened.\<close>

theorem handshake_end_to_end:
  assumes "sign (challenge_payload fresh (unix_now tc)) = Inr sig"
    and "hm_get (sessions (authenticator g)) client = None"
    and "ok \<longleftrightarrow> shutdown_deadline g = None \<and> roles (whitelist (authenticator g)) client \<noteq> None \<and>
       unat (unix_now t2) \<le> unat (unix_now t1) + 5 \<and>
       unat (unix_now t2) \<le> unat (unix_now tc) + 5 \<and> unat (unix_now tc) \<le> unat (unix_now t2) + 5 \<and>
       (\<exists>pk. public_key_of K client = Some pk \<and> pk_verify K pk (challenge_payload fresh (unix_now tc)) sig)"
  shows "fst (full_handshake K S sign client guard t1 tc t2 fresh g) =
      Ready (if ok then Inr (the (roles (whitelist (authenticator g)) client)) else Inl AccessDenied) [] \<and>
    session_roles (authenticator (snd (full_handshake K S sign client guard t1 tc t2 fresh g))) client =
      (if ok then roles (whitelist (authenticator g)) client else None)"
proof (cases "shutdown_deadline g = None \<and> roles (whitelist (authenticator g)) client \<noteq> None")
  case False
  with assms(3) have "\<not> ok" by blast
  with handshake_refused [OF False assms(2), of K S sign guard t1 tc t2 fresh] show ?thesis by simp
next
  case True
  then obtain rs where rs: "roles (whitelist (authenticator g)) client = Some rs" by blast
  have "ok \<longleftrightarrow> acceptable K client sig (unix_now tc) (unix_now t2) \<lparr>nonce = fresh, issued_at = unix_now t1\<rparr>"
    using assms(3) True by (simp add: acceptable_def)
  with handshake_listed [where sign = sign and fresh = fresh and tc = tc and K = K and S = S and guard = guard
      and ?t1.0 = t1 and ?t2.0 = t2, OF assms(1,2) _ rs] True rs
  show ?thesis by simp
qed

theorem handshake_end_to_end_witness:
  "fst (full_handshake sample_keys sample_sems sample_sign (PeerId [1]) (PeerId [9]) (Some 100) (Some 101) (Some 103) [7] sample_guard)
     = Ready (Inr [''admin'']) []"
proof -
  have sign: "sample_sign (challenge_payload [7] (unix_now (Some 101))) = Inr ([1] @ challenge_payload [7] 101)"
    by (simp add: sample_sign_def unix_now_def)
  have closed: "hm_get (sessions (authenticator sample_guard)) (PeerId [1]) = None"
    by (simp add: sample_guard_def guard_start_def authenticator_new_def)
  have listed: "shutdown_deadline sample_guard = None \<and> roles (whitelist (authenticator sample_guard)) (PeerId [1]) = Some [''admin'']"
    by code_simp
  have key: "public_key_of sample_keys (PeerId [1]) = Some [1]"
    "pk_verify sample_keys [1] (challenge_payload [7] (unix_now (Some 101))) ([1] @ challenge_payload [7] 101)"
    by (simp_all add: sample_keys_def public_key_of_def IDENTITY_MULTIHASH_CODE_def unix_now_def)
  from handshake_end_to_end [where sign = sample_sign and fresh = "[7]" and tc = "Some 101" and K = sample_keys
      and S = sample_sems and guard = "PeerId [9]" and ?t1.0 = "Some 100" and ?t2.0 = "Some 103",
      OF sign closed refl] listed key
  show ?thesis by (simp add: unix_now_def)
qed

end
