(* ===== verification/Visit.thy ===== *)
theory Visit imports Handshake begin

text \<open>
  A whole visit: a Client authenticates with a Guard in any state its loop can be in, opens a stream and asks for a service. It puts
  together \<open>authenticate\<close> and \<open>open\<close> of the Client with the loop of the Guard, the semaphores of its streams and \<open>serve_io\<close>.
\<close>

text \<open>A stream that the Guard drops is one on which nothing more comes. \<open>None\<close>: the Client is still waiting.\<close>

definition visit :: "'pk key_lib \<Rightarrow> 's sem_lib \<Rightarrow> tunnel_header bincode \<Rightarrow> 'conn net \<Rightarrow> (bytes \<Rightarrow> string + bytes) \<Rightarrow> peer_id \<Rightarrow> peer_id \<Rightarrow>
    u64 option \<Rightarrow> u64 option \<Rightarrow> u64 option \<Rightarrow> bytes \<Rightarrow> bytes \<Rightarrow> string \<Rightarrow> 's guard \<Rightarrow> (nux_error + duplex) option \<times> 's guard" where
  "visit K S B N sign client guard t1 tc t2 fresh sha name g =
     (case full_handshake K S sign client guard t1 tc t2 fresh g of
        (Pending, g1) \<Rightarrow> (None, g1)
      | (Ready (Inl e) _, g1) \<Rightarrow> (Some (Inl e), g1)
      | (Ready (Inr _) _, g1) \<Rightarrow> (case guard_step K S (IncomingStream client) g1 of (effs, g2) \<Rightarrow>
            (Some (case effs of
               [Spawn p rs] \<Rightarrow> snd (full_opening B N p sha name rs (registry g2))
             | _ \<Rightarrow> open_tunnel B (Inr sha) (Inr \<lparr>rd = \<lparr>avail = [], ending = Eof\<rparr>, wr = \<lparr>written = [], fail_after = None\<rparr>\<rparr>) name), g2)))"

section \<open>The stages\<close>

text \<open>Room for one more stream of a peer.\<close>

definition room :: "peer_id \<Rightarrow> 's guard \<Rightarrow> bool" where
  "room p g \<longleftrightarrow> length (tasks g) < max_streams_total (registry g) \<and>
     (case hm_get (per_peer g) p of Some i \<Rightarrow> held i (tasks g) | None \<Rightarrow> 0) < max_streams_per_peer (registry g)"

lemma stream_spawns_iff_room:
  assumes "sem_ok S" "permit_inv S g" "shutdown_deadline g = None" "session_roles (authenticator g) p = Some rs"
  shows "fst (handle_stream S p g) = (if room p g then [Spawn p rs] else [DropStream p])"
proof -
  obtain i g1 where sem: "peer_semaphore S p g = (i, g1)" by fastforce
  have fresh: "held (length (sem_store g)) (tasks g) = 0"
    using assms(2) by (fastforce simp: permit_inv_def held_def filter_empty_conv)
  note inv = permit_inv_peer_semaphore [OF assms(1,2) sem]
  have same: "tasks g1 = tasks g" "registry g1 = registry g" using peer_semaphore_frame(2,6) [of S p g] by (simp_all add: sem)
  have holds: "held i (tasks g) = (case hm_get (per_peer g) p of Some j \<Rightarrow> held j (tasks g) | None \<Rightarrow> 0)"
    using sem fresh by (auto simp: peer_semaphore_def split: option.splits)
  have "available_permits S (global g1) + length (tasks g) = max_streams_total (registry g)"
    "available_permits S (sem_store g1 ! i) + held i (tasks g) = max_streams_per_peer (registry g)"
    using inv(1,3) same by (auto simp: permit_inv_def)
  then have room: "room p g \<longleftrightarrow> try_acquire S (global g1) \<noteq> None \<and> try_acquire S (sem_store g1 ! i) \<noteq> None"
    unfolding room_def holds [symmetric] sem_okD(2) [OF assms(1)] by linarith
  show ?thesis
  proof (cases rule: handle_stream_cases [where g = g and S = S and p = p])
    case (peer_full i' g1' rs')
    with room sem show ?thesis by simp
  next
    case (all_full i' g1' rs' s g2)
    with room sem show ?thesis by simp
  next
    case (served i' g1' rs' s t)
    with room sem assms(4) show ?thesis by simp
  qed (use assms(3,4) in simp_all)
qed

lemma auth_request_frame:
  "per_peer (snd (guard_step K S (AuthRequest p req t n) g)) = per_peer g"
  "shutdown_deadline (snd (guard_step K S (AuthRequest p req t n) g)) = shutdown_deadline g"
  by (simp_all add: guard_step_def handle_guard_event_def handle_auth_request_def split: nux_request.split prod.split option.split auth_outcome.split)

definition stream_part :: "'s guard \<Rightarrow> _" where
  "stream_part g = (registry g, tasks g, per_peer g, shutdown_deadline g)"

lemma auth_request_stream_part:
  assumes "permit_inv S g"
  shows "permit_inv S (snd (guard_step K S (AuthRequest p req t n) g)) \<and>
    stream_part (snd (guard_step K S (AuthRequest p req t n) g)) = stream_part g"
proof -
  have "\<not> relay_event (AuthRequest p req t n)" by (simp add: relay_event_def)
  from permit_inv_quiet [where K = K, OF assms this] quiet_turn(1,4) [where K = K and S = S and g = g, OF this] show ?thesis
    by (simp add: stream_part_def auth_request_frame)
qed

lemma handshake_stream_part:
  assumes "permit_inv S g"
  shows "permit_inv S (snd (full_handshake K S sign client guard t1 tc t2 fresh g)) \<and>
    stream_part (snd (full_handshake K S sign client guard t1 tc t2 fresh g)) = stream_part g"
proof -
  obtain effs1 g1 where 1: "guard_step K S (AuthRequest client HandshakeInit t1 fresh) g = (effs1, g1)" by fastforce
  with auth_request_stream_part [OF assms, of K client HandshakeInit t1 fresh]
  have inv: "permit_inv S g1" "stream_part g1 = stream_part g" by simp_all
  have "permit_inv S (snd (guard_step K S (AuthRequest client answer t2 []) g1)) \<and>
      stream_part (snd (guard_step K S (AuthRequest client answer t2 []) g1)) = stream_part g" for answer
    using auth_request_stream_part [OF inv(1)] inv(2) by simp
  moreover have "snd (full_handshake K S sign client guard t1 tc t2 fresh g) = g1 \<or>
      (\<exists>answer. snd (full_handshake K S sign client guard t1 tc t2 fresh g) = snd (guard_step K S (AuthRequest client answer t2 []) g1))"
    using 1 by (simp add: full_handshake_def Let_def split: prod.split list.split) (metis snd_conv)
  ultimately show ?thesis using inv by metis
qed

lemma room_stream_part: "stream_part g = stream_part g' \<Longrightarrow> room p g = room p g'"
  by (simp add: stream_part_def room_def split: option.split)

section \<open>Property\<close>

text \<open>C4 (a whole visit): take a Guard in any state its loop can reach and a Client without a session there that signs with its key. The visit
  always ends, and in a tunnel to the service exactly when all of this holds: the Guard is not shutting down and lists the Client; the clocks
  agree within five seconds and the signature verifies; there is room for one more stream, of the peer and in all; the Guard exposes
  the service and the roles of the whitelist have the one it needs, the hash of the binary is the one expected, if one is; and the
  service accepts the connection. In all other cases the Client gets the same \<open>AccessDenied\<close>, whatever the reason.\<close>

theorem visit_reaches_the_service_iff:
  assumes "sem_ok S" "bincode_ok B" "guard_run K S (guard_start S A G c) tr g"
    and "header_frame B \<lparr>service = name, binary_sha256 = sha\<rparr> = Some f"
    and "sign (challenge_payload fresh (unix_now tc)) = Inr sig" "hm_get (sessions (authenticator g)) client = None"
    and "ok \<longleftrightarrow> shutdown_deadline g = None \<and> roles (whitelist (authenticator g)) client \<noteq> None \<and>
       unat (unix_now t2) \<le> unat (unix_now t1) + 5 \<and>
       unat (unix_now t2) \<le> unat (unix_now tc) + 5 \<and> unat (unix_now tc) \<le> unat (unix_now t2) + 5 \<and>
       (\<exists>pk. public_key_of K client = Some pk \<and> pk_verify K pk (challenge_payload fresh (unix_now tc)) sig)"
  shows "if ok \<and> room client g \<and> (\<exists>srv local. tunnel_allowed G client (the (roles (whitelist (authenticator g)) client))
        \<lparr>service = name, binary_sha256 = sha\<rparr> srv \<and> tcp_connect N (target srv) = Inr local)
     then \<exists>tunnel. fst (visit K S B N sign client guard t1 tc t2 fresh sha name g) = Some (Inr tunnel)
     else fst (visit K S B N sign client guard t1 tc t2 fresh sha name g) = Some (Inl AccessDenied)"
proof -
  let ?h = "\<lparr>service = name, binary_sha256 = sha\<rparr>" and ?rs = "the (roles (whitelist (authenticator g)) client)"
  have inv: "permit_inv S g" "registry g = G"
    using permit_inv_run [OF assms(1,3)] registry_run [OF assms(3)] by (simp_all add: guard_start_def)
  obtain r g1 where hs: "full_handshake K S sign client guard t1 tc t2 fresh g = (r, g1)" by fastforce
  from handshake_end_to_end [where sign = sign and fresh = fresh and tc = tc and K = K and S = S and guard = guard and ?t1.0 = t1 and ?t2.0 = t2,
      OF assms(5-7)] hs have
    r: "r = Ready (if ok then Inr ?rs else Inl AccessDenied) []"
    "session_roles (authenticator g1) client = (if ok then roles (whitelist (authenticator g)) client else None)" by simp_all
  from handshake_stream_part [OF inv(1), of K sign client guard t1 tc t2 fresh] hs
  have g1: "permit_inv S g1" "stream_part g1 = stream_part g" by simp_all
  have unread: "open_tunnel B (Inr sha) (Inr \<lparr>rd = \<lparr>avail = [], ending = Eof\<rparr>, wr = \<lparr>written = [], fail_after = None\<rparr>\<rparr>) name = Inl AccessDenied"
    using assms(4) by (simp add: open_tunnel_def write_header_sound read_exact_def)
  show ?thesis
  proof (cases ok)
    case False
    then show ?thesis by (simp add: visit_def hs r(1))
  next
    case True
    then have session: "session_roles (authenticator g1) client = Some ?rs" "shutdown_deadline g1 = None"
      using r(2) assms(7) g1(2) by (auto simp: stream_part_def)
    have step: "fst (guard_step K S (IncomingStream client) g1) = (if room client g then [Spawn client ?rs] else [DropStream client])"
      using stream_spawns_iff_room [OF assms(1) g1(1) session(2,1)] room_stream_part [OF g1(2)] by (simp add: guard_step_def)
    have reg: "registry (snd (guard_step K S (IncomingStream client) g1)) = G"
      using registry_step [of K S "IncomingStream client" g1] g1(2) inv(2) by (simp add: stream_part_def)
    have visit: "fst (visit K S B N sign client guard t1 tc t2 fresh sha name g) =
        Some (if room client g then snd (full_opening B N client sha name ?rs G) else Inl AccessDenied)"
    proof -
      obtain effs g2 where "guard_step K S (IncomingStream client) g1 = (effs, g2)" by fastforce
      with step reg True show ?thesis by (simp add: visit_def hs r(1) unread)
    qed
    show ?thesis
    proof (cases "room client g \<and> (\<exists>srv local. tunnel_allowed G client ?rs ?h srv \<and> tcp_connect N (target srv) = Inr local)")
      case yes: True
      with opening_succeeds_iff_allowed [OF assms(2,4) refl, of G client ?rs N] True show ?thesis by (auto simp: visit)
    next
      case no: False
      with opening_succeeds_iff_allowed [OF assms(2,4) refl, of G client ?rs N] True show ?thesis by (auto simp: visit split: if_splits)
    qed
  qed
qed

text \<open>A Guard that has just started exposes \<open>db\<close> and lists \<open>A\<close>.\<close>

theorem visit_reaches_the_service_iff_witness:
  "\<exists>tunnel sha. fst (visit sample_keys sample_sems sample_header_bincode sample_net sample_sign (PeerId [1]) (PeerId [9])
      (Some 100) (Some 101) (Some 103) [7] sha ''db''
      (guard_start sample_sems (authenticator_new (allow (PeerId [1]) [''admin''] whitelist_new))
        (expose ''db'' (V4 0x7F000001, 5432) (Some ''admin'') registry_new) False)) = Some (Inr tunnel)"
proof -
  let ?A = "authenticator_new (allow (PeerId [1]) [''admin''] whitelist_new)"
  let ?G = "expose ''db'' (V4 0x7F000001, 5432) (Some ''admin'') registry_new"
  let ?g = "guard_start sample_sems ?A ?G False" and ?h = "\<lparr>service = ''db'', binary_sha256 = [5]\<rparr>"
  obtain f where f: "header_frame sample_header_bincode ?h = Some f"
    by (auto simp: header_frame_def encode_def sample_header_bincode_def bincode_options_def
        MAX_MESSAGE_SIZE_def MAX_TUNNEL_HEADER_SIZE_def Let_def)
  have sign: "sample_sign (challenge_payload [7] (unix_now (Some 101))) = Inr ([1] @ challenge_payload [7] 101)"
    by (simp add: sample_sign_def unix_now_def)
  have closed: "hm_get (sessions (authenticator ?g)) (PeerId [1]) = None"
    by (simp add: guard_start_def authenticator_new_def)
  have listed: "shutdown_deadline ?g = None" "roles (whitelist (authenticator ?g)) (PeerId [1]) = Some [''admin'']"
    by (simp_all add: guard_start_def authenticator_new_def wl.get_insert)
  have key: "public_key_of sample_keys (PeerId [1]) = Some [1]"
    "pk_verify sample_keys [1] (challenge_payload [7] (unix_now (Some 101))) ([1] @ challenge_payload [7] 101)"
    by (simp_all add: sample_keys_def public_key_of_def IDENTITY_MULTIHASH_CODE_def unix_now_def)
  have room: "room (PeerId [1]) ?g"
    by (simp add: room_def guard_start_def expose_def registry_new_def DEFAULT_MAX_STREAMS_TOTAL_def DEFAULT_MAX_STREAMS_PER_PEER_def)
  have allowed: "tunnel_allowed ?G (PeerId [1]) [''admin''] ?h \<lparr>target = (V4 0x7F000001, 5432), required_role = Some ''admin''\<rparr>"
    by (simp add: tunnel_allowed_def expose_def registry_new_def hm.get_insert hm.wf_empty hm.get_empty)
  have served: "\<exists>srv local. tunnel_allowed ?G (PeerId [1]) [''admin''] ?h srv \<and> tcp_connect sample_net (target srv) = Inr local"
    using allowed by (auto simp: sample_net_def)
  have start: "guard_run sample_keys sample_sems (guard_start sample_sems ?A ?G False) [] ?g" by (rule guard_run.intros)
  from visit_reaches_the_service_iff [where N = sample_net and guard = "PeerId [9]" and ?t1.0 = "Some 100" and ?t2.0 = "Some 103" and tc = "Some 101" and
      sign = sample_sign and fresh = "[7]", OF sample_sems_ok sample_header_bincode_ok start f sign closed refl]
  show ?thesis using listed key room served by (auto simp: unix_now_def)
qed

end
