(* ===== verification/Node.thy ===== *)
theory Node imports Guard_Properties Client begin

text \<open>
  The other entry points of \<^verbatim>\<open>NuxNode\<close> in \<^verbatim>\<open>crates/nux-core/src/node.rs\<close>: \<open>run_guard\<close>, the loop without tunnels; the two
  ways into the loop with tunnels; and the Client's forwards, which drive the swarm while a listener accepts.
\<close>

section \<open>The Guard\<close>

text \<open>What \<^verbatim>\<open>next_event\<close> can return, among the labels of the loop.\<close>

definition swarm_event :: "event \<Rightarrow> bool" where
  "swarm_event ev = (case ev of AuthRequest _ _ _ _ \<Rightarrow> True | ConnectionClosed _ _ \<Rightarrow> True | OtherSwarmEvent \<Rightarrow> True | _ \<Rightarrow> False)"

fun run_guard :: "'pk key_lib \<Rightarrow> event list \<Rightarrow> 's guard \<Rightarrow> effect list list \<times> 's guard" where
  "run_guard K [] g = ([], g)"
| "run_guard K (ev # evs) g =
     (let (effs, g1) = handle_guard_event K ev g; (more_effs, g2) = run_guard K evs g1 in (effs # more_effs, g2))"

definition run_guard_with_tunnels :: "'s sem_lib \<Rightarrow> guard_authenticator \<Rightarrow> tunnel_registry \<Rightarrow> 's guard" where
  "run_guard_with_tunnels S A G = guard_start S A G False"

definition run_guard_with_control :: "'s sem_lib \<Rightarrow> guard_authenticator \<Rightarrow> tunnel_registry \<Rightarrow> 's guard" where
  "run_guard_with_control S A G = guard_start S A G True"

lemma handle_guard_event_frame:
  "per_peer (snd (handle_guard_event K ev g)) = per_peer g" "returned (snd (handle_guard_event K ev g)) = returned g"
  by (simp_all add: handle_guard_event_def split: event.split)

lemma guard_step_without_streams:
  assumes "swarm_event ev" "per_peer g = hm_empty"
  shows "guard_step K S ev g = handle_guard_event K ev g"
proof -
  have "g\<lparr>per_peer := hm_empty\<rparr> = g" using assms(2) by (metis guard.surjective guard.update_convs(7))
  then have "g\<lparr>per_peer := hm_remove p (per_peer g)\<rparr> = g" for p
    using assms(2) by (simp add: hm_remove_def hm_empty_def)
  then show ?thesis using assms(1) by (simp add: swarm_event_def guard_step_def split: event.splits)
qed

lemma guard_exec_without_streams:
  assumes "list_all swarm_event evs" "per_peer g = hm_empty" "\<not> returned g"
  shows "guard_exec K S evs g = Some (zip evs (fst (run_guard K evs g)), snd (run_guard K evs g))"
  using assms
proof (induction evs arbitrary: g)
  case (Cons ev evs)
  then have "enabled ev g" by (auto simp: enabled_def swarm_event_def split: event.splits)
  moreover have "guard_step K S ev g = handle_guard_event K ev g"
    using Cons.prems by (simp add: guard_step_without_streams)
  moreover have "per_peer (snd (handle_guard_event K ev g)) = hm_empty" "\<not> returned (snd (handle_guard_event K ev g))"
    using Cons.prems by (simp_all add: handle_guard_event_frame)
  moreover obtain effs g1 where "handle_guard_event K ev g = (effs, g1)" by (cases "handle_guard_event K ev g")
  moreover obtain more_effs g2 where "run_guard K evs g1 = (more_effs, g2)" by (cases "run_guard K evs g1")
  ultimately show ?case
    using Cons.IH [of g1] Cons.prems(1) by simp
qed simp

section \<open>The Client\<close>

text \<open>What the select of \<^verbatim>\<open>run_tunnel_client\<close> sees: progress of the listener, or an event of the swarm, which is only logged.\<close>

datatype 'c driven = Forwarding "'c accept_event" | Swarming client_event

fun run_tunnel_client :: "'c driven list \<Rightarrow> 'c list \<Rightarrow> 'c list \<times> bool" where
  "run_tunnel_client [] relays = (relays, False)"
| "run_tunnel_client (Swarming _ # evs) relays = run_tunnel_client evs relays"
| "run_tunnel_client (Forwarding ev # evs) relays = (case forward_listener [ev] relays of
       (relays', True) \<Rightarrow> (relays', True)
     | (relays', False) \<Rightarrow> run_tunnel_client evs relays')"

fun run_tunnel_client_unix :: "u32 list \<Rightarrow> ('c \<times> (io_error + u32)) driven list \<Rightarrow> 'c list \<Rightarrow> 'c list \<Rightarrow>
    'c list \<times> 'c list \<times> bool" where
  "run_tunnel_client_unix uids [] relays closed = (relays, closed, False)"
| "run_tunnel_client_unix uids (Swarming _ # evs) relays closed = run_tunnel_client_unix uids evs relays closed"
| "run_tunnel_client_unix uids (Forwarding ev # evs) relays closed = (case forward_unix_listener uids [ev] relays closed of
       (relays', closed', True) \<Rightarrow> (relays', closed', True)
     | (relays', closed', False) \<Rightarrow> run_tunnel_client_unix uids evs relays' closed')"

fun forwarding :: "'c driven list \<Rightarrow> 'c accept_event list" where
  "forwarding [] = []"
| "forwarding (Forwarding ev # evs) = ev # forwarding evs"
| "forwarding (Swarming _ # evs) = forwarding evs"

lemma forward_listener_Cons:
  "forward_listener (ev # evs) relays = (case forward_listener [ev] relays of
     (relays', True) \<Rightarrow> (relays', True) | (relays', False) \<Rightarrow> forward_listener evs relays')"
  by (cases ev) simp_all

lemma forward_unix_listener_Cons:
  "forward_unix_listener uids (ev # evs) relays closed = (case forward_unix_listener uids [ev] relays closed of
     (relays', closed', True) \<Rightarrow> (relays', closed', True) | (relays', closed', False) \<Rightarrow> forward_unix_listener uids evs relays' closed')"
proof (cases ev)
  case (Accepted c)
  then show ?thesis by (cases c) simp
qed simp_all

lemma run_tunnel_client_forwards: "run_tunnel_client evs relays = forward_listener (forwarding evs) relays"
proof (induction evs arbitrary: relays)
  case (Cons ev evs)
  show ?case
  proof (cases ev)
    case (Forwarding x)
    then show ?thesis
      using forward_listener_Cons [of x "forwarding evs" relays] Cons.IH by (simp split: prod.split bool.split)
  qed (simp add: Cons.IH)
qed simp

lemma run_tunnel_client_unix_forwards:
  "run_tunnel_client_unix uids evs relays closed = forward_unix_listener uids (forwarding evs) relays closed"
proof (induction evs arbitrary: relays closed)
  case (Cons ev evs)
  show ?case
  proof (cases ev)
    case (Forwarding x)
    then show ?thesis
      using forward_unix_listener_Cons [of uids x "forwarding evs" relays closed] Cons.IH by (simp split: prod.split bool.split)
  qed (simp add: Cons.IH)
qed simp

section \<open>Properties\<close>

text \<open>The entry points agree: fed the same events of the swarm, \<open>run_guard\<close> and the loop with tunnels do the same to the outside and
  reach the same state, whatever services are exposed and whether or not there is a control channel; and a Client's forwards relay and
  close what the accept loops alone would, however the events of the swarm fall in between.\<close>

theorem entry_points_agree:
  assumes "list_all swarm_event evs"
  shows "guard_exec K S evs (run_guard_with_tunnels S A G) =
      Some (zip evs (fst (run_guard K evs (run_guard_with_tunnels S A G))), snd (run_guard K evs (run_guard_with_tunnels S A G))) \<and>
    guard_exec K S evs (run_guard_with_control S A G) =
      Some (zip evs (fst (run_guard K evs (run_guard_with_control S A G))), snd (run_guard K evs (run_guard_with_control S A G))) \<and>
    run_tunnel_client devs [] = forward_listener (forwarding devs) [] \<and>
    run_tunnel_client_unix uids udevs [] [] = forward_unix_listener uids (forwarding udevs) [] []"
proof -
  have "per_peer (guard_start S A G c) = hm_empty" "\<not> returned (guard_start S A G c)" for c
    by (simp_all add: guard_start_def)
  note exec = guard_exec_without_streams [OF assms this, of K S]
  show ?thesis
    unfolding run_guard_with_tunnels_def run_guard_with_control_def run_tunnel_client_forwards run_tunnel_client_unix_forwards
    by (intro conjI exec refl)
qed

theorem entry_points_agree_witness:
  "fst (the (guard_exec sample_keys sample_sems sample_login
      (run_guard_with_tunnels sample_sems (authenticator_new sample_whitelist) registry_new))) =
    zip sample_login (fst (run_guard sample_keys sample_login
      (run_guard_with_tunnels sample_sems (authenticator_new sample_whitelist) registry_new)))"
proof -
  have "list_all swarm_event sample_login" by (simp add: sample_login_def swarm_event_def)
  from entry_points_agree [OF this, of sample_keys sample_sems, THEN conjunct1] show ?thesis by simp
qed

end
