(* ===== verification/File_System.thy ===== *)
theory File_System imports Messages begin

text \<open>
  The part of a Unix file system that the code touches: paths, regular files, sockets and
  symbolic links with their permission bits. A symbolic link holds the path it designates. The
  kernel may refuse any call for reasons outside the model (rights, quota, descriptors): the
  field \<open>refused\<close> says which, so every error path of the callers can be taken.
\<close>

datatype file_kind = RegularFile bytes | SocketFile | SymLink string | OtherFile

record inode =
  file_kind :: file_kind
  perm :: u32

datatype fs_call =
    CallStat string | CallLstat string | CallRead string | CallCreate string | CallWrite string
  | CallSync string | CallRemove string | CallBind string | CallChmod string | CallRename string string

record fs =
  inodes :: "string \<Rightarrow> inode option"
  umask :: u32
  refused :: "fs_call \<Rightarrow> io_error option"

definition not_found :: io_error where
  "not_found = IoError NotFound ''No such file or directory''"

text \<open>The path a chain of symbolic links leads to; 40 links are the kernel's own bound.\<close>

fun resolve :: "nat \<Rightarrow> fs \<Rightarrow> string \<Rightarrow> string option" where
  "resolve 0 s p = None"
| "resolve (Suc k) s p = (case inodes s p of
       Some i \<Rightarrow> (case file_kind i of SymLink q \<Rightarrow> resolve k s q | _ \<Rightarrow> Some p)
     | None \<Rightarrow> Some p)"

definition lookup_path :: "fs \<Rightarrow> string \<Rightarrow> io_error + (string \<times> inode)" where
  "lookup_path s p = (case resolve 40 s p of
       None \<Rightarrow> Inl (IoError OtherIo ''Too many levels of symbolic links'')
     | Some q \<Rightarrow> (case inodes s q of None \<Rightarrow> Inl not_found | Some i \<Rightarrow> Inr (q, i)))"

definition permitted :: "fs_call \<Rightarrow> fs \<Rightarrow> io_error + unit" where
  "permitted c s = (case refused s c of Some e \<Rightarrow> Inl e | None \<Rightarrow> Inr ())"

definition symlink_metadata :: "string \<Rightarrow> fs \<Rightarrow> io_error + inode" where
  "symlink_metadata p s = and_then (permitted (CallLstat p) s) (\<lambda>_. ok_or not_found (inodes s p))"

definition metadata :: "string \<Rightarrow> fs \<Rightarrow> io_error + inode" where
  "metadata p s = and_then (permitted (CallStat p) s) (\<lambda>_. and_then (lookup_path s p) (\<lambda>(_, i). Inr i))"

definition fs_read :: "string \<Rightarrow> fs \<Rightarrow> io_error + bytes" where
  "fs_read p s = and_then (permitted (CallRead p) s) (\<lambda>_. and_then (lookup_path s p) (\<lambda>(_, i).
     case file_kind i of RegularFile bs \<Rightarrow> Inr bs | _ \<Rightarrow> Inl (IoError OtherIo ''not a regular file'')))"

definition put :: "string \<Rightarrow> inode \<Rightarrow> fs \<Rightarrow> fs" where
  "put p i s = s\<lparr>inodes := (inodes s)(p := Some i)\<rparr>"

text \<open>\<^verbatim>\<open>create_new\<close> with a mode: exclusive creation, nothing at the path, not even a link.\<close>

definition create_new :: "string \<Rightarrow> u32 \<Rightarrow> fs \<Rightarrow> io_error + fs" where
  "create_new p mode s = and_then (permitted (CallCreate p) s) (\<lambda>_.
     if inodes s p \<noteq> None then Inl (IoError AlreadyExists ''File exists'')
     else Inr (put p \<lparr>file_kind = RegularFile [], perm = mode AND NOT (umask s)\<rparr> s))"

text \<open>\<^verbatim>\<open>write_all\<close> on the file just created at \<open>p\<close>; what a failing write leaves behind is \<open>partial\<close>.\<close>

definition write_file :: "string \<Rightarrow> bytes \<Rightarrow> bytes \<Rightarrow> fs \<Rightarrow> (io_error option) \<times> fs" where
  "write_file p data partial s = (case inodes s p of
       None \<Rightarrow> (Some not_found, s)
     | Some i \<Rightarrow> (case refused s (CallWrite p) of
           Some e \<Rightarrow> (Some e, put p (i\<lparr>file_kind := RegularFile partial\<rparr>) s)
         | None \<Rightarrow> (None, put p (i\<lparr>file_kind := RegularFile data\<rparr>) s)))"

text \<open>\<^verbatim>\<open>fs::write\<close>: create with mode 0666 or truncate, through links, then write.\<close>

definition fs_write :: "string \<Rightarrow> bytes \<Rightarrow> fs \<Rightarrow> (io_error option) \<times> fs" where
  "fs_write p data s = (case permitted (CallCreate p) s of
       Inl e \<Rightarrow> (Some e, s)
     | Inr _ \<Rightarrow> (case resolve 40 s p of
           None \<Rightarrow> (Some (IoError OtherIo ''Too many levels of symbolic links''), s)
         | Some q \<Rightarrow>
             let opened = (case inodes s q of
                   None \<Rightarrow> put q \<lparr>file_kind = RegularFile [], perm = 0x1B6 AND NOT (umask s)\<rparr> s
                 | Some i \<Rightarrow> put q (i\<lparr>file_kind := RegularFile []\<rparr>) s)
             in write_file q data [] opened))"

definition sync_all :: "string \<Rightarrow> fs \<Rightarrow> io_error + unit" where
  "sync_all p s = permitted (CallSync p) s"

definition remove_file :: "string \<Rightarrow> fs \<Rightarrow> io_error + fs" where
  "remove_file p s = and_then (permitted (CallRemove p) s) (\<lambda>_.
     if inodes s p = None then Inl not_found else Inr (s\<lparr>inodes := (inodes s)(p := None)\<rparr>))"

definition bind_unix :: "string \<Rightarrow> fs \<Rightarrow> io_error + fs" where
  "bind_unix p s = and_then (permitted (CallBind p) s) (\<lambda>_.
     if inodes s p \<noteq> None then Inl (IoError AddrInUse ''Address already in use'')
     else Inr (put p \<lparr>file_kind = SocketFile, perm = 0x1FF AND NOT (umask s)\<rparr> s))"

definition set_permissions :: "string \<Rightarrow> u32 \<Rightarrow> fs \<Rightarrow> io_error + fs" where
  "set_permissions p mode s = and_then (permitted (CallChmod p) s) (\<lambda>_.
     and_then (lookup_path s p) (\<lambda>(q, i). Inr (put q (i\<lparr>perm := mode\<rparr>) s)))"

text \<open>\<^verbatim>\<open>rename\<close> moves the entry itself, a link included, over whatever but a directory is at the new path.\<close>

definition rename_file :: "string \<Rightarrow> string \<Rightarrow> fs \<Rightarrow> io_error + fs" where
  "rename_file p q s = and_then (permitted (CallRename p q) s) (\<lambda>_.
     case inodes s p of
       None \<Rightarrow> Inl not_found
     | Some i \<Rightarrow> if map_option file_kind (inodes s q) = Some OtherFile then Inl (IoError OtherIo ''Is a directory'')
         else Inr (s\<lparr>inodes := (inodes s)(p := None, q := Some i)\<rparr>))"

lemma put_simps [simp]:
  "inodes (put p i s) = (inodes s)(p := Some i)" "umask (put p i s) = umask s" "refused (put p i s) = refused s"
  by (simp_all add: put_def)

lemma put_put [simp]: "put p i (put p j s) = put p i s"
  by (simp add: put_def)

lemma permitted_unrefused [simp]: "refused s c = None \<Longrightarrow> permitted c s = Inr ()"
  by (simp add: permitted_def)

lemma permitted_simps [simp]:
  "permitted c s = Inr u \<longleftrightarrow> refused s c = None"
  "permitted c s = Inl e \<longleftrightarrow> refused s c = Some e"
  by (auto simp: permitted_def split: option.splits)

definition is_link :: "inode \<Rightarrow> bool" where
  "is_link i = (case file_kind i of SymLink _ \<Rightarrow> True | _ \<Rightarrow> False)"

lemma lookup_direct: "inodes s p = Some i \<Longrightarrow> \<not> is_link i \<Longrightarrow> lookup_path s p = Inr (p, i)"
  by (auto simp: lookup_path_def is_link_def eval_nat_numeral split: file_kind.splits)

lemma resolve_put:
  "resolve k s p = Some q \<Longrightarrow> \<not> is_link i \<Longrightarrow> resolve k (put q i s) p = Some q"
  by (induction k s p rule: resolve.induct)
    (auto simp: is_link_def split: option.splits file_kind.splits if_splits)

lemma lookup_put:
  "resolve 40 s p = Some q \<Longrightarrow> \<not> is_link i \<Longrightarrow> lookup_path (put q i s) p = Inr (q, i)"
  by (simp add: lookup_path_def resolve_put)

lemma not_link_simps [simp]:
  "\<not> is_link (i\<lparr>file_kind := RegularFile bs\<rparr>)"
  "\<not> is_link \<lparr>file_kind = RegularFile bs, perm = m\<rparr>"
  "\<not> is_link \<lparr>file_kind = SocketFile, perm = m\<rparr>"
  "is_link (i\<lparr>perm := m\<rparr>) \<longleftrightarrow> is_link i"
  by (simp_all add: is_link_def)

end
