(* ===== verification/Identity.thy ===== *)
theory Identity imports File_System Text begin

text \<open>
  Keys on disk and the local socket: \<^verbatim>\<open>crates/nux-core/src/identity.rs\<close>, \<open>bind_forward_socket\<close> of
  \<^verbatim>\<open>crates/nux-core/src/tunnel/mod.rs\<close>, \<^verbatim>\<open>crates/nux-core/src/hardening.rs\<close> and
  \<^verbatim>\<open>nodes_relay/src/manage_key/key.rs\<close>.

  libp2p's key encodings and the hex crate are the parameter \<open>key_codec\<close>; \<open>key_codec_ok\<close> says
  that a key is rebuilt from its own secret or its own protobuf encoding.
\<close>

definition ED25519_SECRET_LEN :: nat where
  "ED25519_SECRET_LEN = 32"

record 'k key_codec =
  ed25519_from_bytes :: "bytes \<Rightarrow> string + 'k"
  ed25519_secret :: "'k \<Rightarrow> bytes option"
  hex_decode :: "string \<Rightarrow> string + bytes"
  to_protobuf :: "'k \<Rightarrow> string + bytes"
  from_protobuf :: "bytes \<Rightarrow> string + 'k"

definition key_codec_ok :: "'k key_codec \<Rightarrow> bool" where
  "key_codec_ok X \<longleftrightarrow>
     (\<forall>k b. ed25519_secret X k = Some b \<longrightarrow> length b = ED25519_SECRET_LEN \<and> ed25519_from_bytes X b = Inr k) \<and>
     (\<forall>k b. to_protobuf X k = Inr b \<longrightarrow> from_protobuf X b = Inr k)"

section \<open>The code of identity.rs\<close>

definition ensure_owner_only :: "string \<Rightarrow> fs \<Rightarrow> nux_error + unit" where
  "ensure_owner_only path s =
     and_then (map_err Io (metadata path s)) (\<lambda>i.
       if perm i AND 0x3F \<noteq> 0 then Inl (InsecureKeyPermissions path (perm i AND 0x1FF)) else Inr ())"

definition keypair_from_secret_bytes :: "'k key_codec \<Rightarrow> bytes \<Rightarrow> diagnostic + 'k" where
  "keypair_from_secret_bytes X raw =
     (if length raw \<noteq> ED25519_SECRET_LEN then Inl (KeyLength (length raw))
      else map_err LibError (ed25519_from_bytes X raw))"

definition from_hex_str :: "'k key_codec \<Rightarrow> string \<Rightarrow> diagnostic + 'k" where
  "from_hex_str X encoded =
     and_then (map_err (\<lambda>_. KeyHexInvalid) (hex_decode X (trim encoded))) (keypair_from_secret_bytes X)"

definition from_file :: "'k key_codec \<Rightarrow> string \<Rightarrow> fs \<Rightarrow> nux_error + 'k" where
  "from_file X path s =
     and_then (ensure_owner_only path s) (\<lambda>_.
     and_then (map_err Io (fs_read path s)) (\<lambda>raw.
       map_err (\<lambda>e. Identity (KeyFileInvalid path e)) (keypair_from_secret_bytes X raw)))"

definition from_env :: "'k key_codec \<Rightarrow> string \<Rightarrow> (string \<Rightarrow> string option) \<Rightarrow> nux_error + 'k" where
  "from_env X var env =
     and_then (ok_or (Identity (KeyVariableMissing var)) (env var)) (\<lambda>encoded.
       map_err (\<lambda>e. Identity (KeyVariableInvalid var e)) (from_hex_str X encoded))"

text \<open>\<open>partial\<close> is what a failing write leaves in the new file.\<close>

definition save_to_file :: "'k key_codec \<Rightarrow> 'k \<Rightarrow> string \<Rightarrow> bytes \<Rightarrow> fs \<Rightarrow> (nux_error + unit) \<times> fs" where
  "save_to_file X k path partial s =
     (case ed25519_secret X k of
        None \<Rightarrow> (Inl (Identity OnlyEd25519), s)
      | Some secret \<Rightarrow> (case create_new path 0x180 s of
            Inl e \<Rightarrow> (Inl (Io e), s)
          | Inr s1 \<Rightarrow> (case write_file path secret partial s1 of
                (Some e, s2) \<Rightarrow> (Inl (Io e), s2)
              | (None, s2) \<Rightarrow> (map_err Io (sync_all path s2), s2))))"

text \<open>\<^verbatim>\<open>harden_process\<close>: \<open>prctl\<close> is the outcome of the system call.\<close>

definition harden_process :: "string + unit \<Rightarrow> nux_error + unit" where
  "harden_process prctl = map_err (\<lambda>e. Io (IoError OtherIo e)) prctl"

section \<open>The forwarding socket\<close>

definition bind_forward_socket :: "string \<Rightarrow> fs \<Rightarrow> (io_error option) \<times> fs" where
  "bind_forward_socket path s =
     (let s1 = (case symlink_metadata path s of
            Inr meta \<Rightarrow>
              if file_kind meta = SocketFile
              then (case remove_file path s of Inr s' \<Rightarrow> s' | Inl _ \<Rightarrow> s) else s
          | Inl _ \<Rightarrow> s)
      in case bind_unix path s1 of
          Inl e \<Rightarrow> (Some e, s1)
        | Inr s2 \<Rightarrow> (case set_permissions path 0x180 s2 of
              Inl e \<Rightarrow> (Some e, s2)
            | Inr s3 \<Rightarrow> (None, s3)))"

section \<open>The relay's key\<close>

text \<open>The relay node: write, then restrict. The state between the two calls is \<open>fst (snd ..)\<close>.\<close>

definition write_secret_file :: "string \<Rightarrow> bytes \<Rightarrow> fs \<Rightarrow> (io_error option) \<times> fs \<times> fs" where
  "write_secret_file path data s =
     (case fs_write path data s of
        (Some e, s1) \<Rightarrow> (Some e, s1, s1)
      | (None, s1) \<Rightarrow> (case metadata path s1 of
            Inl e \<Rightarrow> (Some e, s1, s1)
          | Inr _ \<Rightarrow> (case set_permissions path 0x180 s1 of
                Inl e \<Rightarrow> (Some e, s1, s1)
              | Inr s2 \<Rightarrow> (None, s1, s2))))"

datatype relay_key_error = RelayIo io_error | RelayDecoding string

text \<open>\<open>fresh\<close> is the key \<^verbatim>\<open>generate_ed25519\<close> would draw; \<^verbatim>\<open>exists\<close> is a successful \<^verbatim>\<open>metadata\<close>.\<close>

definition load_or_generate_keypair :: "'k key_codec \<Rightarrow> 'k \<Rightarrow> string \<Rightarrow> fs \<Rightarrow> (relay_key_error + 'k) \<times> fs" where
  "load_or_generate_keypair X fresh path s =
     (if is_ok (metadata path s) then
        (and_then (map_err RelayIo (fs_read path s)) (\<lambda>raw. map_err RelayDecoding (from_protobuf X raw)), s)
      else (case to_protobuf X fresh of
          Inl e \<Rightarrow> (Inl (RelayDecoding e), s)
        | Inr encoded \<Rightarrow> (case write_secret_file path encoded s of
              (Some e, _, s') \<Rightarrow> (Inl (RelayIo e), s')
            | (None, _, s') \<Rightarrow> (Inr fresh, s'))))"

section \<open>Facts\<close>

lemma owner_bits_only: "((0x180 :: u32) AND m) AND 0x3F = 0"
proof -
  have "((0x180 :: u32) AND m) AND 0x3F = (0x180 AND 0x3F) AND m"
    by (simp only: ac_simps)
  then show ?thesis by simp
qed

lemma save_cases:
  "save_to_file X k path partial s = (r, s') \<Longrightarrow>
     s' = s \<or> (inodes s path = None \<and> (\<exists>bs. s' = put path
       \<lparr>file_kind = RegularFile bs, perm = 0x180 AND NOT (umask s)\<rparr> s))"
  unfolding save_to_file_def create_new_def write_file_def
  by (fastforce simp: and_then_def permitted_def split: option.splits sum.splits prod.splits if_splits)

lemma save_ok:
  "save_to_file X k path partial s = (Inr (), s') \<Longrightarrow>
     \<exists>secret. ed25519_secret X k = Some secret \<and> inodes s path = None \<and> refused s' = refused s \<and>
       inodes s' = (inodes s)(path := Some \<lparr>file_kind = RegularFile secret, perm = 0x180 AND NOT (umask s)\<rparr>)"
  by (auto simp: save_to_file_def create_new_def write_file_def and_then_Inr_iff and_then_Inl_iff
      split: option.splits sum.splits prod.splits if_splits)

lemma from_file_at:
  assumes "inodes s path = Some i" "\<not> is_link i" "refused s (CallStat path) = None"
  shows "from_file X path s =
    (if perm i AND 0x3F \<noteq> 0 then Inl (InsecureKeyPermissions path (perm i AND 0x1FF))
     else and_then (map_err Io (fs_read path s)) (\<lambda>raw.
       map_err (\<lambda>e. Identity (KeyFileInvalid path e)) (keypair_from_secret_bytes X raw)))"
proof -
  have "metadata path s = Inr i" by (simp add: metadata_def lookup_direct [OF assms(1,2)] assms(3))
  then show ?thesis by (simp add: from_file_def ensure_owner_only_def)
qed

lemma bind_cases:
  "bind_forward_socket path s = (r, s') \<Longrightarrow>
     (\<forall>q. q \<noteq> path \<longrightarrow> inodes s' q = inodes s q) \<and>
     (case inodes s path of Some i \<Rightarrow> file_kind i \<noteq> SocketFile \<longrightarrow> s' = s \<and> r \<noteq> None | None \<Rightarrow> True) \<and>
     (r = None \<longrightarrow> inodes s' path = Some \<lparr>file_kind = SocketFile, perm = 0x180\<rparr>)"
  by (auto simp: bind_forward_socket_def bind_unix_def set_permissions_def symlink_metadata_def remove_file_def
      lookup_direct and_then_def permitted_def ok_or_def Let_def
      split: option.splits sum.splits prod.splits if_splits)
    (metis option.exhaust option.distinct(1))+

lemma write_secret_ok:
  "write_secret_file path data s = (None, mid, s') \<Longrightarrow> refused s' = refused s \<and>
     (\<exists>q i. lookup_path s' path = Inr (q, i) \<and> file_kind i = RegularFile data \<and> perm i = 0x180)"
  by (auto simp: write_secret_file_def fs_write_def write_file_def set_permissions_def metadata_def Let_def
      and_then_def permitted_def lookup_put resolve_put is_link_def
      split: option.splits sum.splits prod.splits if_splits)

section \<open>Properties\<close>

definition sample_codec :: "bytes key_codec" where
  "sample_codec = \<lparr>ed25519_from_bytes = Inr, ed25519_secret = (\<lambda>k. if length k = 32 then Some k else None),
     hex_decode = (\<lambda>s. Inr []), to_protobuf = Inr, from_protobuf = Inr\<rparr>"

definition sample_fs :: fs where
  "sample_fs = \<lparr>inodes = [''/etc/motd'' \<mapsto> \<lparr>file_kind = RegularFile [1], perm = 0x1A4\<rparr>,
       ''/run/nux.sock'' \<mapsto> \<lparr>file_kind = SocketFile, perm = 0x1FF\<rparr>],
     umask = 0x12, refused = (\<lambda>_. None)\<rparr>"

lemma sample_codec_ok: "key_codec_ok sample_codec"
  by (simp add: key_codec_ok_def sample_codec_def ED25519_SECRET_LEN_def)

text \<open>\<open>identity.rs\<close>: a key that \<open>save_to_file\<close> reports as written is the key that \<open>from_file\<close> loads
  afterwards, whatever the process's umask, as long as the system does not refuse to stat and read
  the file and the umask leaves the owner's bits.\<close>

theorem identity_roundtrip:
  assumes "key_codec_ok X" "save_to_file X k path partial s = (Inr (), s')"
    and "refused s (CallStat path) = None" "refused s (CallRead path) = None"
  shows "from_file X path s' = Inr k"
proof -
  obtain secret where s: "ed25519_secret X k = Some secret" "refused s' = refused s"
    "inodes s' path = Some \<lparr>file_kind = RegularFile secret, perm = 0x180 AND NOT (umask s)\<rparr>"
    using save_ok [OF assms(2)] by auto
  have key: "keypair_from_secret_bytes X secret = Inr k"
    using assms(1) s(1) by (simp add: key_codec_ok_def keypair_from_secret_bytes_def)
  have "fs_read path s' = Inr secret"
    using s assms(4) by (simp add: fs_read_def lookup_direct)
  then show ?thesis
    using s assms(3) key owner_bits_only by (subst from_file_at) auto
qed

theorem identity_roundtrip_witness:
  "from_file sample_codec ''/k'' (snd (save_to_file sample_codec (replicate 32 7) ''/k'' [] sample_fs)) = Inr (replicate 32 7)"
proof (rule identity_roundtrip [OF sample_codec_ok])
  show "save_to_file sample_codec (replicate 32 7) ''/k'' [] sample_fs =
      (Inr (), snd (save_to_file sample_codec (replicate 32 7) ''/k'' [] sample_fs))"
    by (simp add: sample_codec_def sample_fs_def save_to_file_def create_new_def write_file_def sync_all_def)
qed (simp_all add: sample_fs_def)

text \<open>C31 (\<open>identity.rs\<close>): whatever \<open>save_to_file\<close> reports, it never overwrites: a path that already holds
  anything, a link included, is left as it was, and no other path changes. A file it creates grants
  nothing to the group and to others from its creation on, even when the write fails. In turn,
  \<open>from_file\<close> refuses a key file that grants them anything.\<close>

theorem key_files_stay_private:
  assumes "save_to_file X k path partial s = (r, s')"
  shows "(inodes s path \<noteq> None \<longrightarrow> s' = s \<and> r \<noteq> Inr ()) \<and>
    (\<forall>q. q \<noteq> path \<longrightarrow> inodes s' q = inodes s q) \<and>
    (s' \<noteq> s \<longrightarrow> (\<exists>i. inodes s' path = Some i \<and> perm i AND 0x3F = 0)) \<and>
    (\<forall>t p i. lookup_path t path = Inr (p, i) \<and> perm i AND 0x3F \<noteq> 0 \<longrightarrow> \<not> is_ok (from_file X path t))"
proof (intro conjI allI impI)
  show "s' = s" if "inodes s path \<noteq> None"
    using that save_cases [OF assms] by auto
  show "r \<noteq> Inr ()" if "inodes s path \<noteq> None"
    using that save_ok [of X k path partial s s'] assms by auto
  show "inodes s' q = inodes s q" if "q \<noteq> path" for q
    using that save_cases [OF assms] by auto
  show "\<exists>i. inodes s' path = Some i \<and> perm i AND 0x3F = 0" if "s' \<noteq> s"
    using that save_cases [OF assms] owner_bits_only by auto
  show "\<not> is_ok (from_file X path t)" if "lookup_path t path = Inr (p, i) \<and> perm i AND 0x3F \<noteq> 0" for t p i
    using that by (auto simp: from_file_def ensure_owner_only_def metadata_def result_iffs)
qed

theorem key_files_stay_private_witness:
  "inodes (snd (save_to_file sample_codec (replicate 32 7) ''/k'' [] sample_fs)) ''/etc/motd'' = inodes sample_fs ''/etc/motd''"
  using key_files_stay_private [of sample_codec "replicate 32 7" "''/k''" "[]" sample_fs, OF prod.collapse [symmetric]]
  by simp

text \<open>C32 (\<open>tunnel/mod.rs\<close>, \<open>bind_forward_socket\<close>): only a stale socket is ever removed. Anything else at the path, a link
  included, is left untouched and the call fails; no other path changes; and a successful call leaves
  a socket at the path with mode 0600, whatever the umask.\<close>

theorem forward_socket_is_private:
  assumes "bind_forward_socket path s = (r, s')"
  shows "(\<forall>i. inodes s path = Some i \<and> file_kind i \<noteq> SocketFile \<longrightarrow> s' = s \<and> r \<noteq> None) \<and>
    (\<forall>q. q \<noteq> path \<longrightarrow> inodes s' q = inodes s q) \<and>
    (r = None \<longrightarrow> inodes s' path = Some \<lparr>file_kind = SocketFile, perm = 0x180\<rparr>)"
  using bind_cases [OF assms] by auto

theorem forward_socket_is_private_witness:
  "inodes (snd (bind_forward_socket ''/run/nux.sock'' sample_fs)) ''/run/nux.sock'' =
     Some \<lparr>file_kind = SocketFile, perm = 0x180\<rparr>"
proof -
  have "fst (bind_forward_socket ''/run/nux.sock'' sample_fs) = None"
    by (simp add: bind_forward_socket_def bind_unix_def set_permissions_def symlink_metadata_def remove_file_def
        lookup_direct sample_fs_def permitted_def Let_def)
  then show ?thesis
    using forward_socket_is_private [of "''/run/nux.sock''" sample_fs, OF prod.collapse [symmetric]] by simp
qed

text \<open>\<open>manage_key/key.rs\<close>: the relay keeps its identity: a start that succeeds leaves a state from which
  every later start returns the same key, whatever key it would have drawn itself; and when it had to
  create the file, the file ends with mode 0600.\<close>

theorem relay_identity_is_stable:
  assumes "key_codec_ok X" "load_or_generate_keypair X fresh path s = (Inr k, s')"
    and "refused s (CallStat path) = None" "refused s (CallRead path) = None"
  shows "load_or_generate_keypair X fresh' path s' = (Inr k, s') \<and>
    (s' = s \<or> (\<exists>q i. lookup_path s' path = Inr (q, i) \<and> perm i = 0x180))"
proof (cases "is_ok (metadata path s)")
  case True
  then show ?thesis using assms(2) by (auto simp: load_or_generate_keypair_def)
next
  case False
  then obtain encoded mid where e: "to_protobuf X fresh = Inr encoded" "k = fresh"
    "write_secret_file path encoded s = (None, mid, s')"
    using assms(2) by (auto simp: load_or_generate_keypair_def split: sum.splits option.splits prod.splits)
  obtain q i where f: "lookup_path s' path = Inr (q, i)" "file_kind i = RegularFile encoded" "perm i = 0x180"
    "refused s' = refused s"
    using write_secret_ok [OF e(3)] by auto
  have "from_protobuf X encoded = Inr k" using assms(1) e by (simp add: key_codec_ok_def)
  then show ?thesis
    using f assms(3,4) by (simp add: load_or_generate_keypair_def metadata_def fs_read_def)
qed

lemma sample_relay_start:
  "fst (load_or_generate_keypair sample_codec [7] ''/relay'' sample_fs) = Inr [7]"
  by (simp add: load_or_generate_keypair_def write_secret_file_def fs_write_def write_file_def set_permissions_def
      metadata_def lookup_path_def sample_fs_def sample_codec_def eval_nat_numeral)

theorem relay_identity_is_stable_witness:
  "fst (load_or_generate_keypair sample_codec [9] ''/relay''
     (snd (load_or_generate_keypair sample_codec [7] ''/relay'' sample_fs))) = Inr [7]"
  using relay_identity_is_stable [OF sample_codec_ok, of "[7]" "''/relay''" sample_fs "[7]"
      "snd (load_or_generate_keypair sample_codec [7] ''/relay'' sample_fs)" "[9]"] sample_relay_start
  by (simp add: prod_eq_iff sample_fs_def)

text \<open>With the usual umask 022 the relay's secret is readable by everyone between the two calls.\<close>

lemma relay_key_exposed_window:
  "inodes (fst (snd (write_secret_file ''/relay'' [7] sample_fs))) ''/relay'' =
     Some \<lparr>file_kind = RegularFile [7], perm = 0x1A4\<rparr>"
  by (simp add: write_secret_file_def fs_write_def write_file_def set_permissions_def
      metadata_def lookup_path_def sample_fs_def eval_nat_numeral)

end
