(* ===== verification/Builder.thy ===== *)
theory Builder imports Identity Guard Rate_Limit begin

text \<open>
  \<^verbatim>\<open>crates/nux-core/src/builder.rs\<close>: the node builder. The libp2p stack is assembled by that library;
  what can fail in it is the argument \<open>stack\<close>, what the transports answer to \<^verbatim>\<open>listen_on\<close> is
  \<open>listen_result\<close>, and \<open>fresh\<close> is the key \<^verbatim>\<open>generate_ed25519\<close> draws.
\<close>

definition DEFAULT_IDLE_TIMEOUT :: duration where "DEFAULT_IDLE_TIMEOUT = from_secs 30"
definition DEFAULT_REQUEST_TIMEOUT :: duration where "DEFAULT_REQUEST_TIMEOUT = from_secs 10"

datatype 'k identity_source = Ephemeral | Provided 'k | IdentityFile string | IdentityEnv string

record 'k node_builder =
  b_mode :: node_mode
  b_identity :: "'k identity_source"
  b_listen_addrs :: "multiaddr list"
  b_idle_timeout :: duration
  b_request_timeout :: duration
  b_rate_limit_max :: u32
  b_rate_limit_window :: duration
  b_rate_limit_exempt :: "ip_addr list"

definition builder_new :: "'k node_builder" where
  "builder_new = \<lparr>b_mode = ClientMode, b_identity = Ephemeral, b_listen_addrs = [],
     b_idle_timeout = DEFAULT_IDLE_TIMEOUT, b_request_timeout = DEFAULT_REQUEST_TIMEOUT,
     b_rate_limit_max = DEFAULT_MAX_PER_WINDOW, b_rate_limit_window = DEFAULT_WINDOW, b_rate_limit_exempt = []\<rparr>"

definition set_mode :: "node_mode \<Rightarrow> 'k node_builder \<Rightarrow> 'k node_builder" where
  "set_mode m b = b\<lparr>b_mode := m\<rparr>"

definition set_identity :: "'k \<Rightarrow> 'k node_builder \<Rightarrow> 'k node_builder" where
  "set_identity k b = b\<lparr>b_identity := Provided k\<rparr>"

definition identity_file :: "string \<Rightarrow> 'k node_builder \<Rightarrow> 'k node_builder" where
  "identity_file path b = b\<lparr>b_identity := IdentityFile path\<rparr>"

definition identity_env :: "string \<Rightarrow> 'k node_builder \<Rightarrow> 'k node_builder" where
  "identity_env var b = b\<lparr>b_identity := IdentityEnv var\<rparr>"

definition builder_listen_on :: "multiaddr \<Rightarrow> 'k node_builder \<Rightarrow> 'k node_builder" where
  "builder_listen_on a b = b\<lparr>b_listen_addrs := b_listen_addrs b @ [a]\<rparr>"

definition idle_timeout :: "duration \<Rightarrow> 'k node_builder \<Rightarrow> 'k node_builder" where
  "idle_timeout t b = b\<lparr>b_idle_timeout := t\<rparr>"

definition request_timeout :: "duration \<Rightarrow> 'k node_builder \<Rightarrow> 'k node_builder" where
  "request_timeout t b = b\<lparr>b_request_timeout := t\<rparr>"

definition inbound_rate_limit :: "u32 \<Rightarrow> duration \<Rightarrow> 'k node_builder \<Rightarrow> 'k node_builder" where
  "inbound_rate_limit m w b = b\<lparr>b_rate_limit_max := m, b_rate_limit_window := w\<rparr>"

definition rate_limit_exempt :: "ip_addr \<Rightarrow> 'k node_builder \<Rightarrow> 'k node_builder" where
  "rate_limit_exempt ip b = b\<lparr>b_rate_limit_exempt := b_rate_limit_exempt b @ [ip]\<rparr>"

text \<open>The node built: its key, its mode, its inbound limiter, its addresses and its timeouts.\<close>

record 'k nux_node =
  node_keypair :: 'k
  node_mode_of :: node_mode
  node_limiter :: rate_limiter
  node_listening :: "multiaddr list"
  node_idle_timeout :: duration
  node_request_timeout :: duration

definition resolve_identity :: "'k key_codec \<Rightarrow> 'k \<Rightarrow> (string \<Rightarrow> string option) \<Rightarrow> fs \<Rightarrow> 'k identity_source \<Rightarrow> nux_error + 'k" where
  "resolve_identity X fresh env s src = (case src of
       Ephemeral \<Rightarrow> Inr fresh
     | Provided k \<Rightarrow> Inr k
     | IdentityFile path \<Rightarrow> from_file X path s
     | IdentityEnv var \<Rightarrow> from_env X var env)"

fun start_listening :: "(multiaddr \<Rightarrow> string + unit) \<Rightarrow> multiaddr list \<Rightarrow> nux_error + unit" where
  "start_listening listen_result [] = Inr ()"
| "start_listening listen_result (a # more_addrs) =
     and_then (map_err (\<lambda>e. Transport (LibError e)) (listen_result a)) (\<lambda>_. start_listening listen_result more_addrs)"

definition build :: "'k key_codec \<Rightarrow> 'k \<Rightarrow> (string \<Rightarrow> string option) \<Rightarrow> fs \<Rightarrow> string + unit \<Rightarrow> (multiaddr \<Rightarrow> string + unit) \<Rightarrow>
    instant \<Rightarrow> 'k node_builder \<Rightarrow> nux_error + 'k nux_node" where
  "build X fresh env s stack listen_result now b =
     and_then (resolve_identity X fresh env s (b_identity b)) (\<lambda>k.
     and_then (map_err (\<lambda>e. Network (LibError e)) stack) (\<lambda>_.
     and_then (start_listening listen_result (b_listen_addrs b)) (\<lambda>_.
       Inr \<lparr>node_keypair = k, node_mode_of = b_mode b,
            node_limiter = with_exemptions (b_rate_limit_max b) (b_rate_limit_window b) (b_rate_limit_exempt b) now,
            node_listening = b_listen_addrs b, node_idle_timeout = b_idle_timeout b,
            node_request_timeout = b_request_timeout b\<rparr>)))"

lemmas builder_setters = set_mode_def set_identity_def identity_file_def identity_env_def builder_listen_on_def
  idle_timeout_def request_timeout_def inbound_rate_limit_def rate_limit_exempt_def

lemma start_listening_Inr: "start_listening f as = Inr () \<longleftrightarrow> (\<forall>a \<in> set as. f a = Inr ())"
  by (induction as) (auto simp: and_then_Inr_iff)

lemma build_Inr:
  "build X fresh env s stack listen_result now b = Inr n \<longleftrightarrow>
     resolve_identity X fresh env s (b_identity b) = Inr (node_keypair n) \<and> stack = Inr () \<and>
     (\<forall>a \<in> set (b_listen_addrs b). listen_result a = Inr ()) \<and>
     n = \<lparr>node_keypair = node_keypair n, node_mode_of = b_mode b,
          node_limiter = with_exemptions (b_rate_limit_max b) (b_rate_limit_window b) (b_rate_limit_exempt b) now,
          node_listening = b_listen_addrs b, node_idle_timeout = b_idle_timeout b,
          node_request_timeout = b_request_timeout b\<rparr>"
  by (cases n) (auto simp: build_def and_then_Inr_iff start_listening_Inr)

lemma fold_rate_limit_exempt:
  "fold rate_limit_exempt ips b = b\<lparr>b_rate_limit_exempt := b_rate_limit_exempt b @ ips\<rparr>"
  by (induction ips arbitrary: b) (simp_all add: rate_limit_exempt_def)

end
