(* ===== verification/Node_Handle.thy ===== *)
theory Node_Handle imports Node Builder begin

text \<open>
  The handle of a node in \<^verbatim>\<open>crates/nux-core/src/node.rs\<close>: its construction around a swarm, its accessors, what it asks of the swarm and how
  it reports refusals, the opening of one tunnel while the swarm is driven, and the recognition of the events of relays and hole punching.

  The swarm of libp2p is a parameter: a state \<open>'w\<close> and the functions of it that the code calls.
\<close>

section \<open>The handle\<close>

record 'w swarm_lib =
  sw_local_peer :: "'w \<Rightarrow> peer_id"
  sw_accept :: "'w \<Rightarrow> unit option \<times> 'w"
  sw_dial :: "multiaddr \<Rightarrow> 'w \<Rightarrow> (string + unit) \<times> 'w"
  sw_dial_peer :: "peer_id \<Rightarrow> multiaddr list \<Rightarrow> 'w \<Rightarrow> (string + unit) \<times> 'w"
  sw_listen_on :: "multiaddr \<Rightarrow> 'w \<Rightarrow> (string + unit) \<times> 'w"
  sw_send_request :: "peer_id \<Rightarrow> nux_request \<Rightarrow> 'w \<Rightarrow> nat \<times> 'w"
  sw_send_response :: "nat \<Rightarrow> nux_response \<Rightarrow> 'w \<Rightarrow> (nux_response + unit) \<times> 'w"
  sw_disconnect_peer :: "peer_id \<Rightarrow> 'w \<Rightarrow> (unit + unit) \<times> 'w"

record ('k, 'w) node_handle =
  nh_swarm :: 'w
  nh_mode :: node_mode
  nh_keypair :: 'k
  nh_shutdown_deadline :: "instant option"
  nh_metrics :: metrics

text \<open>\<open>None\<close>: the panic of \<^verbatim>\<open>expect\<close>, when the protocol of tunnels is registered already.\<close>

definition node_new :: "'w swarm_lib \<Rightarrow> 'w \<Rightarrow> node_mode \<Rightarrow> 'k \<Rightarrow> ('k, 'w) node_handle option" where
  "node_new W sw m k = (case sw_accept W sw of
       (None, _) \<Rightarrow> None
     | (Some _, sw') \<Rightarrow> Some \<lparr>nh_swarm = sw', nh_mode = m, nh_keypair = k, nh_shutdown_deadline = None, nh_metrics = metrics_default\<rparr>)"

definition local_peer_id :: "'w swarm_lib \<Rightarrow> ('k, 'w) node_handle \<Rightarrow> peer_id" where
  "local_peer_id W n = sw_local_peer W (nh_swarm n)"

definition node_metrics :: "('k, 'w) node_handle \<Rightarrow> metrics" where
  "node_metrics n = nh_metrics n"

definition node_mode_getter :: "('k, 'w) node_handle \<Rightarrow> node_mode" where
  "node_mode_getter n = nh_mode n"

section \<open>What it asks of the swarm\<close>

definition on_swarm :: "('w \<Rightarrow> 'a \<times> 'w) \<Rightarrow> ('k, 'w) node_handle \<Rightarrow> 'a \<times> ('k, 'w) node_handle" where
  "on_swarm f n = (case f (nh_swarm n) of (a, sw) \<Rightarrow> (a, n\<lparr>nh_swarm := sw\<rparr>))"

definition node_dial :: "'w swarm_lib \<Rightarrow> multiaddr \<Rightarrow> ('k, 'w) node_handle \<Rightarrow> (nux_error + unit) \<times> ('k, 'w) node_handle" where
  "node_dial W addr n = apfst (map_err (\<lambda>e. Dial (LibError e))) (on_swarm (sw_dial W addr) n)"

definition node_listen_on :: "'w swarm_lib \<Rightarrow> multiaddr \<Rightarrow> ('k, 'w) node_handle \<Rightarrow> (nux_error + unit) \<times> ('k, 'w) node_handle" where
  "node_listen_on W addr n = apfst (map_err (\<lambda>e. Transport (LibError e))) (on_swarm (sw_listen_on W addr) n)"

definition redial_known_peer :: "'w swarm_lib \<Rightarrow> peer_id \<Rightarrow> multiaddr \<Rightarrow> ('k, 'w) node_handle \<Rightarrow> (nux_error + unit) \<times> ('k, 'w) node_handle" where
  "redial_known_peer W peer addr n = apfst (map_err (\<lambda>e. Dial (LibError e))) (on_swarm (sw_dial_peer W peer [addr]) n)"

definition node_send_request :: "'w swarm_lib \<Rightarrow> peer_id \<Rightarrow> nux_request \<Rightarrow> ('k, 'w) node_handle \<Rightarrow> nat \<times> ('k, 'w) node_handle" where
  "node_send_request W peer req n = on_swarm (sw_send_request W peer req) n"

definition node_send_response :: "'w swarm_lib \<Rightarrow> nat \<Rightarrow> nux_response \<Rightarrow> ('k, 'w) node_handle \<Rightarrow> (nux_response + unit) \<times> ('k, 'w) node_handle" where
  "node_send_response W channel resp n = on_swarm (sw_send_response W channel resp) n"

definition node_disconnect :: "'w swarm_lib \<Rightarrow> peer_id \<Rightarrow> ('k, 'w) node_handle \<Rightarrow> bool \<times> ('k, 'w) node_handle" where
  "node_disconnect W peer n = apfst is_ok (on_swarm (sw_disconnect_peer W peer) n)"

lemma on_swarm_frame:
  "on_swarm f n = (a, n') \<Longrightarrow> nh_mode n' = nh_mode n \<and> nh_keypair n' = nh_keypair n \<and>
     nh_shutdown_deadline n' = nh_shutdown_deadline n \<and> nh_metrics n' = nh_metrics n"
  by (auto simp: on_swarm_def split: prod.splits)

text \<open>The node reports what the swarm answers: the dials as \<open>Dial\<close>, the listening as \<open>Transport\<close>.\<close>

lemma node_refusals:
  "fst (node_dial W a n) = Inl e \<longleftrightarrow> (\<exists>s. e = Dial (LibError s) \<and> fst (sw_dial W a (nh_swarm n)) = Inl s)"
  "fst (node_listen_on W a n) = Inl e \<longleftrightarrow> (\<exists>s. e = Transport (LibError s) \<and> fst (sw_listen_on W a (nh_swarm n)) = Inl s)"
  "fst (redial_known_peer W p a n) = Inl e \<longleftrightarrow> (\<exists>s. e = Dial (LibError s) \<and> fst (sw_dial_peer W p [a] (nh_swarm n)) = Inl s)"
  by (auto simp: node_dial_def node_listen_on_def redial_known_peer_def on_swarm_def map_err_def split: prod.split sum.split)

section \<open>Opening one tunnel\<close>

text \<open>What the select of \<^verbatim>\<open>open_tunnel\<close> sees: the end of the opening, or an event of the swarm, which is only logged. \<open>None\<close>: still waiting.\<close>

datatype opening_event = Opened "nux_error + duplex" | Driving client_event

fun node_open_tunnel :: "opening_event list \<Rightarrow> (nux_error + duplex) option" where
  "node_open_tunnel [] = None"
| "node_open_tunnel (Opened r # _) = Some r"
| "node_open_tunnel (Driving _ # evs) = node_open_tunnel evs"

text \<open>Whatever the swarm does meanwhile, the answer is the one of the opening.\<close>

lemma node_open_tunnel_iff:
  "node_open_tunnel evs = Some r \<longleftrightarrow> (\<exists>before after. evs = map Driving before @ Opened r # after)"
proof (induction evs rule: node_open_tunnel.induct)
  case (2 r' evs)
  show ?case by (auto simp: Cons_eq_append_conv)
next
  case (3 e evs)
  show ?case
  proof
    assume "node_open_tunnel (Driving e # evs) = Some r"
    with 3 obtain before after where "evs = map Driving before @ Opened r # after" by auto
    then show "\<exists>before after. Driving e # evs = map Driving before @ Opened r # after"
      by (intro exI [of _ "e # before"] exI [of _ after]) simp
  next
    assume "\<exists>before after. Driving e # evs = map Driving before @ Opened r # after"
    with 3 show "node_open_tunnel (Driving e # evs) = Some r" by (auto simp: Cons_eq_append_conv Cons_eq_map_conv)
  qed
qed simp

section \<open>Events of relays and hole punching\<close>

datatype behaviour_event =
    ReservationReqAccepted peer_id bool
  | OutboundCircuitEstablished peer_id
  | InboundCircuitEstablished peer_id
  | Dcutr peer_id "string + unit"
  | KeepAlive
  | AuthEvent peer_id
  | RendezvousEvent
  | TunnelEvent

fun log_relay_event :: "behaviour_event \<Rightarrow> bool" where
  "log_relay_event (ReservationReqAccepted _ _) = True"
| "log_relay_event (OutboundCircuitEstablished _) = True"
| "log_relay_event (InboundCircuitEstablished _) = True"
| "log_relay_event (Dcutr _ (Inr _)) = True"
| "log_relay_event (Dcutr _ (Inl _)) = True"
| "log_relay_event KeepAlive = True"
| "log_relay_event _ = False"

text \<open>It claims no event of the authentication: one that it recognises is not a request, and a hole punch that fails is as harmless as one
  that succeeds.\<close>

lemma log_relay_event_iff:
  "log_relay_event ev \<longleftrightarrow> (\<forall>p. ev \<noteq> AuthEvent p) \<and> ev \<noteq> RendezvousEvent \<and> ev \<noteq> TunnelEvent"
  by (cases ev rule: log_relay_event.cases) simp_all

end
