(* ===== verification/Guard_Refinement.thy ===== *)
theory Guard_Refinement imports Guard_Properties begin

text \<open>
  What the loop of the Guard promises, without its tables, semaphores and counters: an access policy over four sets of
  facts (who is listed with which roles, who was asked what, who is inside, whether the Guard is closing), and the
  proof that every turn of the loop is a step of the policy.
\<close>

section \<open>The policy\<close>

record policy =
  listed :: "peer_id \<Rightarrow> role list option"
  asked :: "peer_id \<Rightarrow> (bytes \<times> u64) option"
  inside :: "peer_id set"
  closing :: bool

text \<open>An answer proves the key of \<open>p\<close> against what it was asked.\<close>

definition proves :: "'pk key_lib \<Rightarrow> peer_id \<Rightarrow> bytes \<Rightarrow> u64 \<Rightarrow> u64 \<Rightarrow> bytes \<times> u64 \<Rightarrow> bool" where
  "proves K p signature timestamp now q \<longleftrightarrow>
     unat now \<le> unat (snd q) + 5 \<and> unat now \<le> unat timestamp + 5 \<and> unat timestamp \<le> unat now + 5 \<and>
     (\<exists>pk. public_key_of K p = Some pk \<and> pk_verify K pk (challenge_payload (fst q) timestamp) signature)"

definition forget :: "peer_id set \<Rightarrow> policy \<Rightarrow> policy" where
  "forget ps s = s\<lparr>asked := (\<lambda>p. if p \<in> ps then None else asked s p), inside := inside s - ps\<rparr>"

inductive policy_step :: "'pk key_lib \<Rightarrow> policy \<Rightarrow> event \<times> effect list \<Rightarrow> policy \<Rightarrow> bool" for K where
  ask: "\<not> closing s \<Longrightarrow> listed s p \<noteq> None \<Longrightarrow>
    policy_step K s (AuthRequest p HandshakeInit now n, [Respond p (Challenge n (unix_now now))])
      (s\<lparr>asked := (asked s)(p \<mapsto> (n, unix_now now))\<rparr>)"
| turn_away: "closing s \<or> listed s p = None \<Longrightarrow>
    policy_step K s (AuthRequest p HandshakeInit now n, [Disconnect p]) s"
| admit: "asked s p = Some q \<Longrightarrow> listed s p = Some rs \<Longrightarrow> proves K p sig ts (unix_now now) q \<Longrightarrow>
    policy_step K s (AuthRequest p (ChallengeAnswer sig ts) now n, [Respond p (AccessGranted rs)])
      (s\<lparr>asked := (asked s)(p := None), inside := insert p (inside s)\<rparr>)"
| refuse: "\<not> (\<exists>q. asked s p = Some q \<and> listed s p \<noteq> None \<and> proves K p sig ts (unix_now now) q) \<Longrightarrow>
    policy_step K s (AuthRequest p (ChallengeAnswer sig ts) now n, [Disconnect p]) (s\<lparr>asked := (asked s)(p := None)\<rparr>)"
| serve: "\<not> closing s \<Longrightarrow> p \<in> inside s \<Longrightarrow> listed s p = Some rs \<Longrightarrow>
    policy_step K s (IncomingStream p, [Spawn p rs]) s"
| busy: "closing s \<or> p \<in> inside s \<Longrightarrow> policy_step K s (IncomingStream p, [DropStream p]) s"
| expel: "\<not> closing s \<Longrightarrow> p \<notin> inside s \<Longrightarrow> policy_step K s (IncomingStream p, [DropStream p, Disconnect p]) s"
| leave: "policy_step K s (ConnectionClosed p 0, []) (forget {p} s)"
| still_here: "0 < n \<Longrightarrow> policy_step K s (ConnectionClosed p n, []) s"
| unlist: "policy_step K s (Command (Revoke p) now, if p \<in> inside s then [Disconnect p] else [])
    (forget {p} (s\<lparr>listed := (listed s)(p := None)\<rparr>))"
| enlist: "policy_step K s (Command (Allow p rs) now, []) (s\<lparr>listed := (listed s)(p \<mapsto> rs)\<rparr>)"
| relist: "set gone = {p \<in> inside s. roles w p = None} \<Longrightarrow>
    policy_step K s (Command (ReloadWhitelist w) now, map Disconnect gone) (forget (set gone) (s\<lparr>listed := roles w\<rparr>))"
| shut: "policy_step K s (Command (Shutdown d) now, []) (s\<lparr>closing := True\<rparr>)"
| unseen: "ev = OtherSwarmEvent \<or> ev = ControlClosed \<or> (\<exists>t. ev = DrainTick t) \<or> (\<exists>k out. ev = TaskFinished k out) \<Longrightarrow>
    policy_step K s (ev, []) s"

definition policy_start :: "whitelist \<Rightarrow> policy" where
  "policy_start w = \<lparr>listed = roles w, asked = (\<lambda>_. None), inside = {}, closing = False\<rparr>"

section \<open>The Guard seen through the policy\<close>

definition policy_of :: "'s guard \<Rightarrow> policy" where
  "policy_of g = \<lparr>listed = roles (whitelist (authenticator g)),
     asked = (\<lambda>p. map_option (\<lambda>c. (nonce c, issued_at c)) (hm_get (pending (authenticator g)) p)),
     inside = {p. hm_get (sessions (authenticator g)) p \<noteq> None}, closing = (shutdown_deadline g \<noteq> None)\<rparr>"

abbreviation labelled_turn :: "'pk key_lib \<Rightarrow> 's sem_lib \<Rightarrow> 's guard \<Rightarrow> event \<times> effect list \<Rightarrow> 's guard \<Rightarrow> bool" where
  "labelled_turn K S g l g' \<equiv> guard_turn K S g (fst l) (snd l) g'"

lemma policy_of_start: "policy_of (guard_start S (authenticator_new w) G c) = policy_start w"
  by (simp add: policy_of_def policy_start_def guard_start_def authenticator_new_def)

lemma guard_run_steps: "guard_run K S g0 tr g \<Longrightarrow> steps (labelled_turn K S) g0 tr g"
  by (induction rule: guard_run.induct) (auto simp: steps_append)

lemma closing_turn:
  "shutdown_deadline (snd (guard_step K S ev g)) =
     (case ev of Command (Shutdown d) now \<Rightarrow> Some (now + d) | _ \<Rightarrow> shutdown_deadline g)"
proof (cases ev)
  case (IncomingStream p)
  then show ?thesis
    using peer_semaphore_frame(3) [of S p g]
    by (cases rule: handle_stream_cases [where g = g and S = S and p = p]) (auto simp: guard_step_def)
qed (auto simp: guard_step_def handle_guard_event_def handle_command_def drain_tick_def task_finished_def Let_def
    split: guard_control.split prod.split bool.split option.split)

lemma proves_acceptable:
  "proves K p sig ts now (nonce c, issued_at c) \<longleftrightarrow> acceptable K p sig ts now c"
  by (simp add: proves_def acceptable_def)

text \<open>Two policies are the same when the four sets of facts are.\<close>

lemma policy_eqI:
  "(\<And>p. listed s p = listed t p) \<Longrightarrow> (\<And>p. asked s p = asked t p) \<Longrightarrow> inside s = inside t \<Longrightarrow> closing s = closing t \<Longrightarrow>
     s = t" for s t :: policy
  by (cases s, cases t) (simp add: fun_eq_iff)

lemma policy_of_sel [simp]:
  "listed (policy_of g) = roles (whitelist (authenticator g))"
  "asked (policy_of g) p = map_option (\<lambda>c. (nonce c, issued_at c)) (hm_get (pending (authenticator g)) p)"
  "p \<in> inside (policy_of g) \<longleftrightarrow> hm_get (sessions (authenticator g)) p \<noteq> None"
  "closing (policy_of g) \<longleftrightarrow> shutdown_deadline g \<noteq> None"
  by (simp_all add: policy_of_def)

lemma forget_sel [simp]:
  "listed (forget ps s) = listed s" "asked (forget ps s) p = (if p \<in> ps then None else asked s p)"
  "inside (forget ps s) = inside s - ps" "closing (forget ps s) = closing s"
  by (simp_all add: forget_def)

lemma policy_of_cong:
  "authenticator g' = authenticator g \<Longrightarrow> shutdown_deadline g' = shutdown_deadline g \<Longrightarrow> policy_of g' = policy_of g"
  by (simp add: policy_of_def)

lemma handshake_simulates:
  "policy_step K (policy_of g) (AuthRequest p HandshakeInit now n, fst (guard_step K S (AuthRequest p HandshakeInit now n) g))
     (policy_of (snd (guard_step K S (AuthRequest p HandshakeInit now n) g)))"
  (is "policy_step K _ (?ev, fst ?t) (policy_of (snd ?t))")
proof (cases "shutdown_deadline g = None \<and> roles (whitelist (authenticator g)) p \<noteq> None")
  case True
  have "policy_of (snd ?t) = (policy_of g)\<lparr>asked := (asked (policy_of g))(p \<mapsto> (n, unix_now now))\<rparr>"
    using True by (intro policy_eqI) (auto simp: guard_step_auth issue_at_pending closing_turn set_eq_iff)
  with True policy_step.ask [of "policy_of g" p K now n] show ?thesis by (simp add: auth_request_effects)
next
  case False
  then have "policy_of (snd ?t) = policy_of g"
    by (intro policy_eqI) (auto simp: guard_step_auth issue_at_pending closing_turn set_eq_iff)
  with False policy_step.turn_away [of "policy_of g" p K now n] show ?thesis by (auto simp: auth_request_effects)
qed

lemma answer_simulates:
  "policy_step K (policy_of g) (AuthRequest p (ChallengeAnswer sig ts) now n,
       fst (guard_step K S (AuthRequest p (ChallengeAnswer sig ts) now n) g))
     (policy_of (snd (guard_step K S (AuthRequest p (ChallengeAnswer sig ts) now n) g)))"
  (is "policy_step K _ (?ev, fst ?t) (policy_of (snd ?t))")
proof (cases "fst (verify_at K p sig ts (unix_now now) (authenticator g))")
  case (Granted rs)
  then obtain c where c: "hm_get (pending (authenticator g)) p = Some c" "roles (whitelist (authenticator g)) p = Some rs"
    "acceptable K p sig ts (unix_now now) c"
    by (auto simp: verify_at_granted_iff)
  have "policy_of (snd ?t) = (policy_of g)\<lparr>asked := (asked (policy_of g))(p := None), inside := insert p (inside (policy_of g))\<rparr>"
    using Granted by (intro policy_eqI) (auto simp: guard_step_auth verify_at_sessions closing_turn set_eq_iff)
  with Granted c policy_step.admit [of "policy_of g" p "(nonce c, issued_at c)" rs K sig ts now n] show ?thesis
    by (simp add: auth_request_effects proves_acceptable)
next
  case Reject
  then have no: "\<not> (\<exists>q. asked (policy_of g) p = Some q \<and> listed (policy_of g) p \<noteq> None \<and> proves K p sig ts (unix_now now) q)"
    using verify_at_granted_iff [of K p sig ts "unix_now now" "authenticator g"] by (auto simp: proves_acceptable)
  have "policy_of (snd ?t) = (policy_of g)\<lparr>asked := (asked (policy_of g))(p := None)\<rparr>"
    using Reject by (intro policy_eqI) (auto simp: guard_step_auth verify_at_sessions closing_turn set_eq_iff)
  with Reject policy_step.refuse [OF no] show ?thesis by (simp add: auth_request_effects)
qed

lemma stream_simulates:
  assumes "auth_inv (authenticator g)"
  shows "policy_step K (policy_of g) (IncomingStream p, fst (guard_step K S (IncomingStream p) g))
    (policy_of (snd (guard_step K S (IncomingStream p) g)))"
proof -
  have same: "policy_of (snd (guard_step K S (IncomingStream p) g)) = policy_of g"
    by (intro policy_of_cong) (simp_all add: guard_step_auth closing_turn)
  have eff: "fst (guard_step K S (IncomingStream p) g) = fst (handle_stream S p g)"
    by (simp add: guard_step_def)
  show ?thesis
    unfolding same eff
    by (cases rule: handle_stream_cases [where g = g and S = S and p = p])
      (use assms in \<open>auto simp: session_roles_def auth_inv_def intro: policy_step.intros split: option.splits if_splits\<close>)
qed

lemma command_simulates:
  assumes "auth_inv (authenticator g)" "sound_event (Command cmd now)"
  shows "policy_step K (policy_of g) (Command cmd now, fst (guard_step K S (Command cmd now) g))
    (policy_of (snd (guard_step K S (Command cmd now) g)))"
  (is "policy_step K _ (_, fst ?t) (policy_of (snd ?t))")
proof -
  have wf: "auth_wf (authenticator g)" using assms(1) by (simp add: auth_inv_def)
  then have wwf: "whitelist_wf (whitelist (authenticator g))" by (simp add: auth_wf_def)
  show ?thesis
  proof (cases cmd)
    case (Revoke p)
    have "policy_of (snd ?t) = forget {p} ((policy_of g)\<lparr>listed := (listed (policy_of g))(p := None)\<rparr>)"
      by (intro policy_eqI) (auto simp: Revoke guard_step_auth auth_revoke_fields closing_turn wl.get_remove [OF wwf] split: if_splits)
    moreover have "fst ?t = (if p \<in> inside (policy_of g) then [Disconnect p] else [])"
      by (auto simp: Revoke guard_step_def handle_command_def auth_revoke_def Let_def split: bool.split)
    ultimately show ?thesis using policy_step.unlist [of K "policy_of g" p now] by (simp add: Revoke)
  next
    case (Allow p rs)
    have "policy_of (snd ?t) = (policy_of g)\<lparr>listed := (listed (policy_of g))(p \<mapsto> rs)\<rparr>"
      by (intro policy_eqI) (auto simp: Allow guard_step_auth whitelist_mut_def closing_turn wl.get_insert [OF wwf])
    with policy_step.enlist [of K "policy_of g" p rs now] show ?thesis
      by (simp add: Allow guard_step_def handle_command_def)
  next
    case (ReloadWhitelist w)
    let ?gone = "fst (reload_whitelist w (authenticator g))"
    have w: "whitelist_wf w" using assms(2) by (simp add: ReloadWhitelist)
    have gone: "set ?gone = {p \<in> inside (policy_of g). roles w p = None}"
      using wf by (auto simp: reload_cut authenticated_peers_def hm_keys_iff)
    have "policy_of (snd ?t) = forget (set ?gone) ((policy_of g)\<lparr>listed := roles w\<rparr>)"
      unfolding gone
      by (intro policy_eqI) (auto simp: ReloadWhitelist guard_step_auth reload_fields [OF wf w] closing_turn split: if_splits)
    moreover have "fst ?t = map Disconnect ?gone"
      by (simp add: ReloadWhitelist guard_step_def handle_command_def split: prod.split)
    ultimately show ?thesis using policy_step.relist [OF gone, of K now] by (simp add: ReloadWhitelist)
  next
    case (Shutdown d)
    have "policy_of (snd ?t) = (policy_of g)\<lparr>closing := True\<rparr>"
      by (intro policy_eqI) (auto simp: Shutdown guard_step_auth closing_turn)
    with policy_step.shut [of K "policy_of g" d now] show ?thesis
      by (simp add: Shutdown guard_step_def handle_command_def)
  qed
qed

lemma closed_simulates:
  "policy_step K (policy_of g) (ConnectionClosed p n, fst (guard_step K S (ConnectionClosed p n) g))
    (policy_of (snd (guard_step K S (ConnectionClosed p n) g)))"
  (is "policy_step K _ (_, fst ?t) (policy_of (snd ?t))")
proof (cases "n = 0")
  case True
  have "policy_of (snd ?t) = forget {p} (policy_of g)"
    by (intro policy_eqI) (auto simp: True guard_step_auth end_session_def closing_turn split: if_splits)
  with policy_step.leave [of K "policy_of g" p] show ?thesis
    by (simp add: True guard_step_def handle_guard_event_def)
next
  case False
  have "policy_of (snd ?t) = policy_of g"
    using False by (intro policy_of_cong) (simp_all add: guard_step_auth closing_turn)
  with False policy_step.still_here [of n K "policy_of g" p] show ?thesis
    by (simp add: guard_step_def handle_guard_event_def)
qed

lemma turn_simulates:
  assumes "auth_inv (authenticator g)" "sound_event ev"
  shows "policy_step K (policy_of g) (ev, fst (guard_step K S ev g)) (policy_of (snd (guard_step K S ev g)))"
proof -
  have unseen: ?thesis if ev: "ev = OtherSwarmEvent \<or> ev = ControlClosed \<or> (\<exists>t. ev = DrainTick t) \<or> (\<exists>k out. ev = TaskFinished k out)"
  proof -
    have "policy_of (snd (guard_step K S ev g)) = policy_of g"
      using ev by (intro policy_of_cong) (auto simp: guard_step_auth closing_turn)
    moreover have "fst (guard_step K S ev g) = []"
      using ev by (auto simp: guard_step_def handle_guard_event_def drain_tick_def task_finished_def Let_def split: option.split)
    ultimately show ?thesis using policy_step.unseen [OF ev] by simp
  qed
  show ?thesis
  proof (cases ev)
    case (AuthRequest p r now n)
    then show ?thesis by (cases r) (simp_all only: handshake_simulates answer_simulates)
  next
    case (IncomingStream p)
    then show ?thesis using stream_simulates [OF assms(1)] by simp
  next
    case (Command cmd now)
    then show ?thesis using command_simulates [OF assms(1)] assms(2) by simp
  next
    case (ConnectionClosed p n)
    then show ?thesis using closed_simulates by simp
  qed (use unseen in auto)
qed

interpretation guard: implementation "labelled_turn K S" "policy_step K" policy_of "\<lambda>g. auth_inv (authenticator g)"
    "\<lambda>l. sound_event (fst l)" for K :: "'pk key_lib" and S :: "'s sem_lib"
proof unfold_locales
  fix c l c'
  assume *: "auth_inv (authenticator c)" "sound_event (fst l)" "labelled_turn K S c l c'"
  then show "auth_inv (authenticator c')"
    using guard_auth_inv_step [of c "fst l" K S] by (auto simp: guard_turn_iff)
  from * turn_simulates [of c "fst l" K S] show "policy_step K (policy_of c) l (policy_of c')"
    by (auto simp: guard_turn_iff)
qed

section \<open>Turns that no command starts\<close>

text \<open>What comes from the network and the timers neither lists a peer nor ends the loop before a shutdown was asked.\<close>

fun from_network :: "event \<Rightarrow> bool" where
  "from_network (Command _ _) = False"
| "from_network ControlClosed = False"
| "from_network _ = True"

lemma returned_step:
  assumes "enabled ev g" "shutdown_deadline g = None"
  shows "\<not> returned (snd (guard_step K S ev g))"
proof (cases ev)
  case (IncomingStream p)
  with assms show ?thesis
    using peer_semaphore_frame(8) [of S p g]
    by (cases rule: handle_stream_cases [where g = g and S = S and p = p]) (auto simp: guard_step_def enabled_def)
qed (use assms in \<open>auto simp: enabled_def guard_step_def handle_guard_event_def handle_auth_request_def handle_command_def
    task_finished_def Let_def split: guard_control.split prod.split bool.split option.split nux_request.split auth_outcome.split\<close>)

lemma control_step: "ev \<noteq> ControlClosed \<Longrightarrow> control_open (snd (guard_step K S ev g)) = control_open g"
proof (cases ev)
  case (IncomingStream p)
  then show ?thesis
    using peer_semaphore_frame(7) [of S p g]
    by (cases rule: handle_stream_cases [where g = g and S = S and p = p]) (auto simp: guard_step_def)
qed (auto simp: guard_step_def handle_guard_event_def handle_auth_request_def handle_command_def drain_tick_def
    task_finished_def Let_def split: guard_control.split prod.split bool.split option.split nux_request.split auth_outcome.split)

lemma network_roles:
  assumes "auth_inv (authenticator g)" "from_network ev"
  shows "roles (whitelist (authenticator (snd (guard_step K S ev g)))) = roles (whitelist (authenticator g))"
proof -
  have wf: "auth_wf (authenticator g)" using assms(1) by (simp add: auth_inv_def)
  show ?thesis
    using assms(2) by (cases "(ev, g)" rule: guard_ops.cases) (auto simp: guard_step_auth auth_step_roles [OF wf] end_session_def fun_eq_iff)
qed

lemma from_network_open: "from_network ev \<Longrightarrow> sound_event ev \<and> ev \<noteq> ControlClosed \<and> (\<forall>d now. ev \<noteq> Command (Shutdown d) now)"
  by (cases ev) auto

section \<open>What the policy keeps\<close>

text \<open>Who is inside is listed: shown on the policy alone.\<close>

lemma policy_keeps_listed:
  "policy_step K s l t \<Longrightarrow> inside s \<subseteq> dom (listed s) \<Longrightarrow> inside t \<subseteq> dom (listed t)"
  by (induction rule: policy_step.induct) auto

section \<open>Properties\<close>

text \<open>C2 (refinement of the access policy): whatever happens to a running Guard, what it does to the outside is a run of
  the policy, which knows no table, semaphore or counter. A challenge goes to a listed peer of a Guard that is not closing; a
  peer gets inside only by proving its key against the last thing it was asked; a stream is served only to a peer
  inside, with the roles it is listed with; leaving, revocation and reload forget the peer; and
  at every moment who is inside is listed.\<close>

theorem guard_refines_policy:
  assumes "guard_run K S (guard_start S (authenticator_new w) G c) tr g" "whitelist_wf w"
    and "list_all (\<lambda>l. sound_event (fst l)) tr"
  shows "steps (policy_step K) (policy_start w) tr (policy_of g) \<and> inside (policy_of g) \<subseteq> dom (listed (policy_of g))"
proof -
  let ?g0 = "guard_start S (authenticator_new w) G c"
  have inv: "auth_inv (authenticator ?g0)" using auth_inv_new [OF assms(2)] by (simp add: guard_start_def)
  note run = guard_run_steps [OF assms(1)]
  have "inside (policy_of ?g0) \<subseteq> dom (listed (policy_of ?g0))" by (simp add: policy_of_start policy_start_def)
  with guard.spec_invariant [of "\<lambda>s. inside s \<subseteq> dom (listed s)" K, OF _ inv _ assms(3) run] policy_keeps_listed
  have "inside (policy_of g) \<subseteq> dom (listed (policy_of g))" by blast
  moreover from guard.steps_simulate [OF inv assms(3) run] have "steps (policy_step K) (policy_start w) tr (policy_of g)"
    by (simp only: policy_of_start)
  ultimately show ?thesis by blast
qed

theorem guard_refines_policy_witness:
  "\<exists>s. steps (policy_step sample_keys) (policy_start sample_whitelist)
     ([sample_challenged] @ [(sample_answered, sample_granted)]) s \<and> inside s \<subseteq> dom (listed s)"
proof (rule sample_turns)
  fix g g1
  assume run: "guard_run sample_keys sample_sems sample_guard ([sample_challenged] @ [(sample_answered, sample_granted)]) g1"
  have "list_all (\<lambda>l. sound_event (fst l)) ([sample_challenged] @ [(sample_answered, sample_granted)])" by simp
  from guard_refines_policy [OF run [unfolded sample_guard_def] sample_whitelist_wf this] show ?thesis by blast
qed

end
