(* ===== verification/Embedded_Guard.thy ===== *)
theory Embedded_Guard imports Guard_Refinement begin

text \<open>
  The interface between the loop of a Guard and the programs that run it among other tasks: the daemon of \<^verbatim>\<open>cli/main.rs\<close> and the
  Gateway of \<^verbatim>\<open>gw/main.rs\<close>. The state of such a program holds a Guard (\<open>guard_of\<close>, \<open>put_guard\<close>); some of its labels are turns of the loop
  (\<open>turn\<close>); a turn that no command starts is a step at any time.
\<close>

locale embedded_guard =
  fixes K :: "'pk key_lib" and S :: "'s sem_lib"
    and step :: "'c \<Rightarrow> 'l \<Rightarrow> 'c \<Rightarrow> bool"
    and guard_of :: "'c \<Rightarrow> 's guard"
    and put_guard :: "'s guard \<Rightarrow> 'c \<Rightarrow> 'c"
    and turn :: "event \<Rightarrow> effect list \<Rightarrow> 'l"
  assumes guard_of_put: "guard_of (put_guard G s) = G"
    and put_put: "put_guard G (put_guard G' s) = put_guard G s"
    and put_guard_of: "put_guard (guard_of s) s = s"
    and turn_is_guard_turn: "step s (turn ev effs) s' \<Longrightarrow> guard_turn K S (guard_of s) ev effs (guard_of s')"
    and network_is_step: "from_network ev \<Longrightarrow> guard_turn K S (guard_of s) ev effs G \<Longrightarrow> step s (turn ev effs) (put_guard G s)"
begin

text \<open>A relay is spawned with the roles that the whitelist has at that moment.\<close>

lemma spawned_roles:
  assumes "step s (turn ev effs) s'" "Spawn p rs \<in> set effs"
  shows "roles (whitelist (authenticator (guard_of s))) p = Some rs"
proof -
  have "effs = fst (guard_step K S ev (guard_of s))"
    using turn_is_guard_turn [OF assms(1)] by (auto simp: guard_turn_iff)
  with assms(2) stream_effects [of p rs K S ev "guard_of s"] show ?thesis
    by (auto simp: session_roles_def split: if_splits)
qed

text \<open>What the loop alone does on events of the network, the program can do.\<close>

lemma network_run:
  "guard_exec K S evs (guard_of s) = Some (tr, g) \<Longrightarrow> list_all from_network evs \<Longrightarrow>
     steps step s (map (\<lambda>(ev, effs). turn ev effs) tr) (put_guard g s)"
proof (induction evs arbitrary: s tr)
  case Nil
  then show ?case using put_guard_of [of s] by auto
next
  case (Cons ev evs)
  then obtain effs g1 tr1 where *: "enabled ev (guard_of s)" "guard_step K S ev (guard_of s) = (effs, g1)"
      "guard_exec K S evs g1 = Some (tr1, g)" "tr = (ev, effs) # tr1"
    by (auto split: if_splits prod.splits)
  have "step s (turn ev effs) (put_guard g1 s)"
    using Cons.prems(2) *(1,2) by (intro network_is_step) (auto simp: guard_turn_iff)
  moreover have "steps step (put_guard g1 s) (map (\<lambda>(ev, effs). turn ev effs) tr1) (put_guard g (put_guard g1 s))"
    using Cons.IH [of "put_guard g1 s" tr1] Cons.prems(2) *(3) by (simp add: guard_of_put)
  ultimately show ?case using *(4) by (auto simp: put_put)
qed

end

end
