(* ===== verification/Guard_Config.thy ===== *)
theory Guard_Config imports Tunnel Rate_Limit Whitelist Text "HOL-Library.AList" "HOL-Library.Countable" begin

text \<open>
  \<^verbatim>\<open>crates/nux-cli/src/guard_config.rs\<close>: the configuration file of a Guard, its validation, and the
  rewriting of three of its sections from a configuration pushed by the Gateway.

  The TOML crates, the parsers of addresses, peers and IPs, the hex crate and the length check of
  rendezvous namespaces are the parameter \<open>config_lib\<close>. A document is its data; \<open>TomlTables\<close> is
  an array of tables, which is printed as one section per element and so not at all when empty.
  What \<^verbatim>\<open>derive(Deserialize)\<close> generates from the source's structs is written out: a field by its
  name, its default, the range of its integer type; unknown keys are ignored. (serde would also
  take a positional array for a struct, which is an error here.)
\<close>

section \<open>TOML\<close>

datatype toml =
    TomlString string
  | TomlInt int
  | TomlArray "toml list"
  | TomlTables "(string \<times> toml) list list"
  | TomlTable "(string \<times> toml) list"
  | TomlOther string

type_synonym toml_doc = "(string \<times> toml) list"

record config_lib =
  toml_parse :: "string \<Rightarrow> string + toml_doc"
  toml_print :: "toml_doc \<Rightarrow> string"
  parse_multiaddr :: "string \<Rightarrow> string + multiaddr"
  parse_ip :: "string \<Rightarrow> string + ip_addr"
  parse_peer :: "string \<Rightarrow> string + peer_id"
  hex_bytes :: "string \<Rightarrow> string + bytes"
  namespace_fits :: "string \<Rightarrow> bool"

definition written_doc :: "toml_doc \<Rightarrow> toml_doc" where
  "written_doc d = filter (\<lambda>(k, v). v \<noteq> TomlTables []) d"

text \<open>
  What may be put in a document: strings, integers of 64 bits, arrays and tables of such values, and
  an array of tables of them at the top.
\<close>

fun toml_plain :: "toml \<Rightarrow> bool" and toml_plain_table :: "toml_doc \<Rightarrow> bool" where
  "toml_plain (TomlString s) = True"
| "toml_plain (TomlInt i) = (- (2 ^ 63) \<le> i \<and> i < 2 ^ 63)"
| "toml_plain (TomlArray xs) = list_all toml_plain xs"
| "toml_plain (TomlTables ts) = False"
| "toml_plain (TomlTable t) = (distinct (map fst t) \<and> toml_plain_table t)"
| "toml_plain (TomlOther s) = False"
| "toml_plain_table [] = True"
| "toml_plain_table ((k, v) # t) = (toml_plain v \<and> toml_plain_table t)"

definition toml_writable :: "toml \<Rightarrow> bool" where
  "toml_writable v = (case v of TomlTables ts \<Rightarrow> list_all (\<lambda>t. toml_plain (TomlTable t)) ts | _ \<Rightarrow> toml_plain v)"

text \<open>
  A document that was read has each key once and no empty array of tables, which the syntax cannot
  write. After keys of it were set to values of the kinds above it is printed to a text that is read
  back, key by key. Nothing is asked of documents that were not read.
\<close>

definition toml_ok :: "config_lib \<Rightarrow> bool" where
  "toml_ok L \<longleftrightarrow> (\<forall>s d. toml_parse L s = Inr d \<longrightarrow>
     distinct (map fst d) \<and> (\<forall>k. (k, TomlTables []) \<notin> set d) \<and>
     (\<forall>edits. list_all (\<lambda>(k, v). toml_writable v) edits \<longrightarrow>
        (\<exists>d'. toml_parse L (toml_print L (AList.updates (map fst edits) (map snd edits) d)) = Inr d' \<and>
              map_of d' = map_of (written_doc (AList.updates (map fst edits) (map snd edits) d)))))"

definition de_string :: "toml \<Rightarrow> string + string" where
  "de_string v = (case v of TomlString s \<Rightarrow> Inr s | _ \<Rightarrow> Inl ''expected a string'')"

definition de_uint :: "toml \<Rightarrow> string + 'a::len word" where
  "de_uint v = (case v of
       TomlInt i \<Rightarrow> if 0 \<le> i \<and> i < 2 ^ LENGTH('a) then Inr (word_of_int i) else Inl ''integer out of range''
     | _ \<Rightarrow> Inl ''expected an integer'')"

definition de_seq :: "(toml \<Rightarrow> string + 'a) \<Rightarrow> toml \<Rightarrow> string + 'a list" where
  "de_seq f v = (case v of
       TomlArray xs \<Rightarrow> traverse f xs
     | TomlTables ts \<Rightarrow> traverse f (map TomlTable ts)
     | _ \<Rightarrow> Inl ''expected a sequence'')"

definition de_table :: "(toml_doc \<Rightarrow> string + 'a) \<Rightarrow> toml \<Rightarrow> string + 'a" where
  "de_table f v = (case v of TomlTable t \<Rightarrow> f t | _ \<Rightarrow> Inl ''expected a table'')"

definition required :: "(toml \<Rightarrow> string + 'a) \<Rightarrow> string \<Rightarrow> toml_doc \<Rightarrow> string + 'a" where
  "required f k t = (case map_of t k of Some v \<Rightarrow> f v | None \<Rightarrow> Inl (''missing field '' @ k))"

definition defaulted :: "(toml \<Rightarrow> string + 'a) \<Rightarrow> 'a \<Rightarrow> string \<Rightarrow> toml_doc \<Rightarrow> string + 'a" where
  "defaulted f d k t = (case map_of t k of Some v \<Rightarrow> f v | None \<Rightarrow> Inr d)"

definition optional :: "(toml \<Rightarrow> string + 'a) \<Rightarrow> string \<Rightarrow> toml_doc \<Rightarrow> string + 'a option" where
  "optional f k t = (case map_of t k of Some v \<Rightarrow> map_sum id Some (f v) | None \<Rightarrow> Inr None)"

section \<open>The file's structs\<close>

record raw_rate_limit =
  rl_max :: u32
  rl_window_secs :: u64
  rl_exempt :: "string list"

record raw_allow =
  allow_peer :: string
  allow_roles :: "string list"

record raw_expose =
  expose_name :: string
  expose_port :: u16
  expose_role :: "string option"

record raw_checksum_bin =
  checksum_peer :: string
  checksum_sha256 :: string

record raw_config =
  raw_listen :: string
  raw_rate :: raw_rate_limit
  raw_allows :: "raw_allow list"
  raw_exposes :: "raw_expose list"
  raw_checksums :: "raw_checksum_bin list"
  raw_relay :: "string option"
  raw_namespace :: "string option"

record guard_config =
  cfg_listen :: multiaddr
  cfg_rate_limit_max :: u32
  cfg_rate_limit_window :: duration
  cfg_rate_limit_exempt :: "ip_addr list"
  cfg_whitelist :: whitelist
  cfg_expose :: "(string \<times> u16 \<times> string option) list"
  cfg_checksum_bin :: "(peer_id \<times> bytes) list"
  cfg_relay :: "multiaddr option"
  cfg_namespace :: "string option"

definition default_listen :: string where
  "default_listen = ''/ip4/0.0.0.0/tcp/4588''"

definition default_rate_max :: u32 where
  "default_rate_max = DEFAULT_MAX_PER_WINDOW"

definition default_rate_window_secs :: u64 where
  "default_rate_window_secs = of_nat (as_secs DEFAULT_WINDOW)"

definition raw_rate_limit_default :: raw_rate_limit where
  "raw_rate_limit_default = \<lparr>rl_max = default_rate_max, rl_window_secs = default_rate_window_secs, rl_exempt = []\<rparr>"

definition de_rate_limit :: "toml_doc \<Rightarrow> string + raw_rate_limit" where
  "de_rate_limit t =
     and_then (defaulted de_uint default_rate_max ''max'' t) (\<lambda>m.
     and_then (defaulted de_uint default_rate_window_secs ''window_secs'' t) (\<lambda>w.
     and_then (defaulted (de_seq de_string) [] ''exempt'' t) (\<lambda>ips.
       Inr \<lparr>rl_max = m, rl_window_secs = w, rl_exempt = ips\<rparr>)))"

definition de_allow :: "toml_doc \<Rightarrow> string + raw_allow" where
  "de_allow t =
     and_then (required de_string ''peer'' t) (\<lambda>p.
     and_then (defaulted (de_seq de_string) [] ''roles'' t) (\<lambda>rs.
       Inr \<lparr>allow_peer = p, allow_roles = rs\<rparr>))"

definition de_expose :: "toml_doc \<Rightarrow> string + raw_expose" where
  "de_expose t =
     and_then (required de_string ''name'' t) (\<lambda>n.
     and_then (required de_uint ''port'' t) (\<lambda>p.
     and_then (optional de_string ''role'' t) (\<lambda>r.
       Inr \<lparr>expose_name = n, expose_port = p, expose_role = r\<rparr>)))"

definition de_checksum :: "toml_doc \<Rightarrow> string + raw_checksum_bin" where
  "de_checksum t =
     and_then (required de_string ''peer'' t) (\<lambda>p.
     and_then (required de_string ''sha256'' t) (\<lambda>h.
       Inr \<lparr>checksum_peer = p, checksum_sha256 = h\<rparr>))"

definition de_config :: "toml_doc \<Rightarrow> string + raw_config" where
  "de_config d =
     and_then (defaulted de_string default_listen ''listen'' d) (\<lambda>l.
     and_then (defaulted (de_table de_rate_limit) raw_rate_limit_default ''rate_limit'' d) (\<lambda>r.
     and_then (defaulted (de_seq (de_table de_allow)) [] ''allow'' d) (\<lambda>al.
     and_then (defaulted (de_seq (de_table de_expose)) [] ''expose'' d) (\<lambda>ex.
     and_then (defaulted (de_seq (de_table de_checksum)) [] ''checksum_bin'' d) (\<lambda>cs.
     and_then (optional de_string ''relay'' d) (\<lambda>re.
     and_then (optional de_string ''namespace'' d) (\<lambda>ns.
       Inr \<lparr>raw_listen = l, raw_rate = r, raw_allows = al, raw_exposes = ex, raw_checksums = cs,
            raw_relay = re, raw_namespace = ns\<rparr>)))))))"

section \<open>Loading\<close>

definition invalid :: "string \<Rightarrow> string \<Rightarrow> string \<Rightarrow> nux_error" where
  "invalid field value e = Config (FieldInvalid field value (LibError e))"

definition parse_sha256_hex :: "config_lib \<Rightarrow> string \<Rightarrow> diagnostic + bytes" where
  "parse_sha256_hex L value =
     and_then (map_err (\<lambda>_. KeyHexInvalid) (hex_bytes L (trim value))) (\<lambda>b.
       if length b = SHA256_LEN then Inr b else Inl (KeyLength (length b)))"

definition load_exempt :: "config_lib \<Rightarrow> string list \<Rightarrow> nux_error + ip_addr list" where
  "load_exempt L ips = traverse (\<lambda>ip. map_err (invalid ''rate_limit.exempt'' ip) (parse_ip L ip)) ips"

fun load_allow :: "config_lib \<Rightarrow> raw_allow list \<Rightarrow> whitelist \<Rightarrow> nux_error + whitelist" where
  "load_allow L [] w = Inr w"
| "load_allow L (entry # rest) w =
     and_then (map_err (invalid ''allow.peer'' (allow_peer entry)) (parse_peer L (allow_peer entry))) (\<lambda>peer.
       load_allow L rest (allow peer (allow_roles entry) w))"

fun load_expose :: "raw_expose list \<Rightarrow> string set \<Rightarrow> nux_error + (string \<times> u16 \<times> string option) list" where
  "load_expose [] seen = Inr []"
| "load_expose (entry # rest) seen =
     (if expose_name entry \<in> seen then Inl (Config (DuplicateService (expose_name entry)))
      else and_then (load_expose rest (insert (expose_name entry) seen)) (\<lambda>es.
        Inr ((expose_name entry, expose_port entry, expose_role entry) # es)))"

definition load_checksums :: "config_lib \<Rightarrow> raw_checksum_bin list \<Rightarrow> nux_error + (peer_id \<times> bytes) list" where
  "load_checksums L es = traverse (\<lambda>entry.
     and_then (map_err (invalid ''checksum_bin.peer'' (checksum_peer entry)) (parse_peer L (checksum_peer entry))) (\<lambda>peer.
     and_then (map_err (\<lambda>e. Config (FieldInvalid ''checksum_bin.sha256'' (checksum_sha256 entry) e))
         (parse_sha256_hex L (checksum_sha256 entry))) (\<lambda>sha256.
       Inr (peer, sha256)))) es"

definition validate :: "config_lib \<Rightarrow> raw_config \<Rightarrow> nux_error + guard_config" where
  "validate L raw =
     and_then (map_err (invalid ''listen'' (raw_listen raw)) (parse_multiaddr L (raw_listen raw))) (\<lambda>listen.
     if rl_window_secs (raw_rate raw) = 0 then Inl (Config WindowSecsZero) else
     and_then (load_exempt L (rl_exempt (raw_rate raw))) (\<lambda>exempts.
     and_then (load_allow L (raw_allows raw) whitelist_new) (\<lambda>w.
     and_then (load_expose (raw_exposes raw) {}) (\<lambda>ex.
     and_then (load_checksums L (raw_checksums raw)) (\<lambda>cs.
     and_then (case raw_relay raw of None \<Rightarrow> Inr None
       | Some a \<Rightarrow> map_err (invalid ''relay'' a) (map_sum id Some (parse_multiaddr L a))) (\<lambda>relay.
     and_then (case raw_namespace raw of None \<Rightarrow> Inr None
       | Some ns \<Rightarrow> if namespace_fits L ns then Inr (Some ns) else Inl (Config (NamespaceTooLong ns))) (\<lambda>ns.
     if ns \<noteq> None \<and> relay = None then Inl (Config NamespaceNeedsRelay) else
       Inr \<lparr>cfg_listen = listen, cfg_rate_limit_max = rl_max (raw_rate raw),
            cfg_rate_limit_window = from_secs (unat (rl_window_secs (raw_rate raw))), cfg_rate_limit_exempt = exempts,
            cfg_whitelist = w, cfg_expose = ex, cfg_checksum_bin = cs, cfg_relay = relay, cfg_namespace = ns\<rparr>)))))))"

text \<open>\<open>file\<close> is what \<^verbatim>\<open>read_to_string\<close> finds.\<close>

definition read_doc :: "config_lib \<Rightarrow> string \<Rightarrow> io_error + string \<Rightarrow> nux_error + toml_doc" where
  "read_doc L path file =
     and_then (map_err (\<lambda>e. invalid ''read'' path (reason e)) file) (\<lambda>text.
       map_err (invalid ''TOML'' path) (toml_parse L text))"

definition load :: "config_lib \<Rightarrow> string \<Rightarrow> io_error + string \<Rightarrow> nux_error + guard_config" where
  "load L path file =
     and_then (read_doc L path file) (\<lambda>doc.
     and_then (map_err (invalid ''TOML'' path) (de_config doc)) (validate L))"

section \<open>The configuration pushed by the Gateway\<close>

record remote_config =
  remote_rate :: raw_rate_limit
  remote_allow :: "raw_allow list"
  remote_check_sum :: "raw_checksum_bin list"
  updated_at :: string

text \<open>\<^verbatim>\<open>i64::try_from(..).unwrap_or(i64::MAX)\<close> of an unsigned 64-bit integer.\<close>

definition to_i64 :: "u64 \<Rightarrow> int" where
  "to_i64 w = (if uint w < 2 ^ 63 then uint w else 2 ^ 63 - 1)"

definition strings :: "string list \<Rightarrow> toml" where
  "strings xs = TomlArray (map TomlString xs)"

definition rate_limit_item :: "raw_rate_limit \<Rightarrow> toml" where
  "rate_limit_item r = TomlTable [(''max'', TomlInt (uint (rl_max r))), (''window_secs'', TomlInt (to_i64 (rl_window_secs r))),
     (''exempt'', strings (rl_exempt r))]"

definition allow_item :: "raw_allow list \<Rightarrow> toml" where
  "allow_item es = TomlTables (map (\<lambda>e. [(''peer'', TomlString (allow_peer e)), (''roles'', strings (allow_roles e))]) es)"

definition checksum_item :: "raw_checksum_bin list \<Rightarrow> toml" where
  "checksum_item es = TomlTables (map (\<lambda>e. [(''peer'', TomlString (checksum_peer e)), (''sha256'', TomlString (checksum_sha256 e))]) es)"

definition edit_doc :: "remote_config \<Rightarrow> toml_doc \<Rightarrow> toml_doc" where
  "edit_doc remote doc =
     AList.update ''checksum_bin'' (checksum_item (remote_check_sum remote))
     (AList.update ''allow'' (allow_item (remote_allow remote))
     (AList.update ''rate_limit'' (rate_limit_item (remote_rate remote)) doc))"

text \<open>The result, and the file afterwards; a failing write leaves \<open>failing\<close>'s second component.\<close>

definition apply_remote_config :: "config_lib \<Rightarrow> string \<Rightarrow> remote_config \<Rightarrow> (io_error \<times> string) option \<Rightarrow>
    io_error + string \<Rightarrow> (nux_error + unit) \<times> (io_error + string)" where
  "apply_remote_config L path remote failing file =
     (case read_doc L path file of
        Inl e \<Rightarrow> (Inl e, file)
      | Inr doc \<Rightarrow> (case failing of
            Some (e, left) \<Rightarrow> (Inl (invalid ''write'' path (reason e)), Inr left)
          | None \<Rightarrow> (Inr (), Inr (toml_print L (edit_doc remote doc)))))"

section \<open>Reading back what was written\<close>

lemma map_of_filter_value:
  "distinct (map fst d) \<Longrightarrow> map_of (filter (\<lambda>(k, v). P v) d) k =
     (case map_of d k of Some v \<Rightarrow> if P v then Some v else None | None \<Rightarrow> None)"
proof (induction d)
  case Nil
  then show ?case by simp
next
  case (Cons kv d)
  then show ?case
    by (cases kv) (auto split: option.splits intro: map_of_SomeD dest: map_of_SomeD simp: rev_image_eqI)
qed

lemma de_uint_uint [simp]: "de_uint (TomlInt (uint w)) = Inr (w :: 'a::len word)"
  using uint_lt2p [of w] by (simp add: de_uint_def)

lemma de_strings [simp]: "de_seq de_string (strings xs) = Inr xs"
  by (simp add: de_seq_def strings_def traverse_map de_string_def traverse_id)

definition i64_secs :: "u64 \<Rightarrow> u64" where
  "i64_secs w = (if uint w < 2 ^ 63 then w else 0x7FFFFFFFFFFFFFFF)"

lemma unat_i64_secs: "unat (i64_secs w) = min (unat w) (2 ^ 63 - 1)"
proof (cases "uint w < 2 ^ 63")
  case True
  then have "unat w < 2 ^ 63" by (simp only: unsigned_of_nat nat_less_numeral_power_cancel_iff flip: nat_uint_eq)
  with True show ?thesis by (simp add: i64_secs_def)
next
  case False
  then have "\<not> unat w < 2 ^ 63" by (metis of_nat_less_iff of_nat_numeral of_nat_power uint_nat)
  with False show ?thesis by (simp add: i64_secs_def)
qed

lemma de_uint_to_i64 [simp]: "de_uint (TomlInt (to_i64 w)) = Inr (i64_secs w)"
  by (simp add: de_uint_def to_i64_def i64_secs_def)

lemma de_rate_limit_item [simp]:
  "de_table de_rate_limit (rate_limit_item r) = Inr (r\<lparr>rl_window_secs := i64_secs (rl_window_secs r)\<rparr>)"
  by (simp add: de_table_def rate_limit_item_def de_rate_limit_def defaulted_def)

lemma de_allow_item [simp]: "de_seq (de_table de_allow) (allow_item es) = Inr es"
  by (simp add: de_seq_def allow_item_def traverse_map)
    (rule traverse_id, simp add: de_table_def de_allow_def required_def defaulted_def de_string_def)

lemma de_checksum_item [simp]: "de_seq (de_table de_checksum) (checksum_item es) = Inr es"
  by (simp add: de_seq_def checksum_item_def traverse_map)
    (rule traverse_id, simp add: de_table_def de_checksum_def required_def de_string_def)

lemma items_empty [simp]:
  "allow_item es = TomlTables [] \<longleftrightarrow> es = []" "checksum_item cs = TomlTables [] \<longleftrightarrow> cs = []"
  "rate_limit_item r \<noteq> TomlTables []"
  by (simp_all add: allow_item_def checksum_item_def rate_limit_item_def)

definition merged :: "remote_config \<Rightarrow> raw_config \<Rightarrow> raw_config" where
  "merged remote raw = raw\<lparr>
     raw_rate := (remote_rate remote)\<lparr>rl_window_secs := i64_secs (rl_window_secs (remote_rate remote))\<rparr>,
     raw_allows := remote_allow remote, raw_checksums := remote_check_sum remote\<rparr>"

text \<open>The edits are of the kind the libraries of TOML are asked to keep.\<close>

definition edits_of :: "remote_config \<Rightarrow> toml_doc" where
  "edits_of remote = [(''rate_limit'', rate_limit_item (remote_rate remote)), (''allow'', allow_item (remote_allow remote)),
     (''checksum_bin'', checksum_item (remote_check_sum remote))]"

lemma edit_doc_updates: "edit_doc remote d = AList.updates (map fst (edits_of remote)) (map snd (edits_of remote)) d"
  by (simp add: edit_doc_def edits_of_def)

lemma toml_plain_strings [simp]: "toml_plain (strings xs)"
  by (simp add: strings_def list_all_iff)

lemma uint_u32_range: "uint (w :: u32) < 2 ^ 63"
  using uint_lt2p [of w] by simp

lemma toml_writable_items [simp]: "toml_writable (rate_limit_item r)" "toml_writable (allow_item es)" "toml_writable (checksum_item cs)"
  using uint_u32_range [of "rl_max r"]
  by (simp_all add: toml_writable_def rate_limit_item_def allow_item_def checksum_item_def to_i64_def list_all_iff
      order_trans [OF _ uint_ge_0])

lemma edited_lookup:
  assumes "toml_ok L" "toml_parse L text = Inr d"
  shows "\<exists>d'. toml_parse L (toml_print L (edit_doc remote d)) = Inr d' \<and>
    map_of d' ''rate_limit'' = Some (rate_limit_item (remote_rate remote)) \<and>
    map_of d' ''allow'' = (if remote_allow remote = [] then None else Some (allow_item (remote_allow remote))) \<and>
    map_of d' ''checksum_bin'' =
      (if remote_check_sum remote = [] then None else Some (checksum_item (remote_check_sum remote))) \<and>
    (\<forall>k. k \<notin> {''rate_limit'', ''allow'', ''checksum_bin''} \<longrightarrow> map_of d' k = map_of d k)"
proof -
  let ?e = "edit_doc remote d"
  have d: "distinct (map fst d)" "\<And>k v. map_of d k = Some v \<Longrightarrow> v \<noteq> TomlTables []"
    using assms by (auto simp: toml_ok_def dest: map_of_SomeD)
  have e: "distinct (map fst ?e)" by (simp add: edit_doc_def distinct_update d(1))
  have "list_all (\<lambda>(k, v). toml_writable v) (edits_of remote)" by (simp add: edits_of_def)
  then obtain d' where d': "toml_parse L (toml_print L ?e) = Inr d'" "map_of d' = map_of (written_doc ?e)"
    using assms unfolding toml_ok_def edit_doc_updates by blast
  have "map_of d' k = (case map_of ?e k of Some v \<Rightarrow> if v \<noteq> TomlTables [] then Some v else None | None \<Rightarrow> None)" for k
    unfolding d'(2) written_doc_def by (rule map_of_filter_value [OF e])
  then show ?thesis
    using d' d(2) by (auto simp: edit_doc_def update_conv' split: option.splits)
qed

lemma de_config_merged:
  assumes "toml_ok L" "toml_parse L text = Inr d" "de_config d = Inr raw"
  shows "\<exists>d'. toml_parse L (toml_print L (edit_doc remote d)) = Inr d' \<and> de_config d' = Inr (merged remote raw)"
proof -
  obtain d' where d': "toml_parse L (toml_print L (edit_doc remote d)) = Inr d'"
    "map_of d' ''rate_limit'' = Some (rate_limit_item (remote_rate remote))"
    "map_of d' ''allow'' = (if remote_allow remote = [] then None else Some (allow_item (remote_allow remote)))"
    "map_of d' ''checksum_bin'' =
      (if remote_check_sum remote = [] then None else Some (checksum_item (remote_check_sum remote)))"
    "\<And>k. k \<notin> {''rate_limit'', ''allow'', ''checksum_bin''} \<Longrightarrow> map_of d' k = map_of d k"
    using edited_lookup [OF assms(1,2), of remote] by blast
  have same: "map_of d' ''listen'' = map_of d ''listen''" "map_of d' ''expose'' = map_of d ''expose''"
    "map_of d' ''relay'' = map_of d ''relay''" "map_of d' ''namespace'' = map_of d ''namespace''"
    by (simp_all add: d'(5))
  have "de_config d' = Inr (merged remote raw)"
    using assms(3)
    by (auto simp: de_config_def and_then_Inr_iff defaulted_def optional_def d'(2-4) same merged_def)
  with d'(1) show ?thesis by blast
qed

section \<open>What loading checks\<close>

definition listed_as :: "config_lib \<Rightarrow> raw_allow \<Rightarrow> peer_id \<times> role list \<Rightarrow> bool" where
  "listed_as L e pr \<longleftrightarrow> parse_peer L (allow_peer e) = Inr (fst pr) \<and> allow_roles e = snd pr"

lemma load_allow_Inr:
  "load_allow L es w = Inr w' \<longleftrightarrow>
     (\<exists>listed. list_all2 (listed_as L) es listed \<and> w' = fold (\<lambda>(p, rs). allow p rs) listed w)"
proof (induction es arbitrary: w)
  case Nil
  then show ?case by auto
next
  case (Cons e es)
  show ?case
    by (cases "parse_peer L (allow_peer e)")
      (force simp: Cons.IH list_all2_Cons1 listed_as_def)+
qed

lemma load_expose_Inr:
  "load_expose es seen = Inr r \<longleftrightarrow> distinct (map expose_name es) \<and> set (map expose_name es) \<inter> seen = {} \<and>
     r = map (\<lambda>e. (expose_name e, expose_port e, expose_role e)) es"
  by (induction es seen arbitrary: r rule: load_expose.induct) (auto simp: and_then_Inr_iff)

lemma load_checksums_lengths: "load_checksums L es = Inr cs \<Longrightarrow> (p, h) \<in> set cs \<Longrightarrow> length h = SHA256_LEN"
  unfolding load_checksums_def
  by (induction es arbitrary: cs) (auto simp: result_iffs parse_sha256_hex_def split: if_splits)

lemma validate_Inr:
  "validate L raw = Inr cfg \<longleftrightarrow>
     parse_multiaddr L (raw_listen raw) = Inr (cfg_listen cfg) \<and> rl_window_secs (raw_rate raw) \<noteq> 0 \<and>
     cfg_rate_limit_max cfg = rl_max (raw_rate raw) \<and>
     cfg_rate_limit_window cfg = from_secs (unat (rl_window_secs (raw_rate raw))) \<and>
     load_exempt L (rl_exempt (raw_rate raw)) = Inr (cfg_rate_limit_exempt cfg) \<and>
     load_allow L (raw_allows raw) whitelist_new = Inr (cfg_whitelist cfg) \<and>
     load_expose (raw_exposes raw) {} = Inr (cfg_expose cfg) \<and>
     load_checksums L (raw_checksums raw) = Inr (cfg_checksum_bin cfg) \<and>
     (case raw_relay raw of None \<Rightarrow> cfg_relay cfg = None
      | Some a \<Rightarrow> \<exists>m. parse_multiaddr L a = Inr m \<and> cfg_relay cfg = Some m) \<and>
     cfg_namespace cfg = raw_namespace raw \<and>
     (\<forall>ns. raw_namespace raw = Some ns \<longrightarrow> namespace_fits L ns \<and> cfg_relay cfg \<noteq> None)"
  by (cases cfg)
    (auto simp: validate_def result_iffs map_sum_def split: option.splits sum.splits if_splits)

lemma load_Inr:
  "load L path file = Inr cfg \<longleftrightarrow> (\<exists>text doc raw. file = Inr text \<and> toml_parse L text = Inr doc \<and>
     de_config doc = Inr raw \<and> validate L raw = Inr cfg)"
  by (auto simp: load_def read_doc_def and_then_Inr_iff)

lemma loaded_roles:
  assumes "load_allow L es whitelist_new = Inr w"
  shows "whitelist_wf w \<and> (\<exists>listed. list_all2 (listed_as L) es listed \<and> (\<forall>p. roles w p = map_of (rev listed) p))"
  using assms wl.get_fold_insert_empty wl.wf_fold_insert [OF wl.wf_empty]
  unfolding load_allow_Inr by blast

text \<open>Which inputs each step of the validation accepts.\<close>

lemma load_exempt_accepts: "is_ok (load_exempt L ips) \<longleftrightarrow> list_all (\<lambda>ip. is_ok (parse_ip L ip)) ips"
  unfolding load_exempt_def by (induction ips) (auto simp: is_ok_iff and_then_Inr_iff)

lemma load_allow_accepts: "is_ok (load_allow L es w) \<longleftrightarrow> list_all (\<lambda>e. is_ok (parse_peer L (allow_peer e))) es"
  by (induction es arbitrary: w) (auto simp: is_ok_iff and_then_Inr_iff)

lemma load_checksums_accepts:
  "is_ok (load_checksums L es) \<longleftrightarrow>
     list_all (\<lambda>e. is_ok (parse_peer L (checksum_peer e)) \<and> is_ok (parse_sha256_hex L (checksum_sha256 e))) es"
  unfolding load_checksums_def by (induction es) (auto simp: is_ok_iff and_then_Inr_iff)

lemma validate_accepts:
  "is_ok (validate L raw) \<longleftrightarrow>
     is_ok (parse_multiaddr L (raw_listen raw)) \<and> rl_window_secs (raw_rate raw) \<noteq> 0 \<and>
     is_ok (load_exempt L (rl_exempt (raw_rate raw))) \<and> is_ok (load_allow L (raw_allows raw) whitelist_new) \<and>
     distinct (map expose_name (raw_exposes raw)) \<and> is_ok (load_checksums L (raw_checksums raw)) \<and>
     list_all (\<lambda>a. is_ok (parse_multiaddr L a)) (case raw_relay raw of None \<Rightarrow> [] | Some a \<Rightarrow> [a]) \<and>
     list_all (namespace_fits L) (case raw_namespace raw of None \<Rightarrow> [] | Some ns \<Rightarrow> [ns]) \<and>
     \<not> (raw_namespace raw \<noteq> None \<and> raw_relay raw = None)"
  by (auto simp: validate_def is_ok_iff and_then_Inr_iff load_expose_Inr map_sum_def
      split: option.splits sum.splits if_splits)

lemmas accepts_iffs = validate_accepts load_exempt_accepts load_allow_accepts load_checksums_accepts

section \<open>Properties\<close>

text \<open>A library for the examples: a document is printed as a word of its number in an enumeration.\<close>

instance toml :: countable by countable_datatype

definition enumerated_parse :: "string \<Rightarrow> string + toml_doc" where
  "enumerated_parse s = (let d = written_doc (from_nat (length s)) in if distinct (map fst d) then Inr d else Inl ''repeated key'')"

definition enumerated_print :: "toml_doc \<Rightarrow> string" where
  "enumerated_print d = replicate (to_nat d) CHR ''x''"

definition sample_lib :: config_lib where
  "sample_lib = \<lparr>toml_parse = enumerated_parse, toml_print = enumerated_print,
     parse_multiaddr = (\<lambda>_. Inr [Tcp 4588]), parse_ip = (\<lambda>_. Inr (V4 1)),
     parse_peer = (\<lambda>s. if s = ''B'' then Inr (PeerId [2]) else if s = ''A'' then Inr (PeerId [1]) else Inl ''base58''),
     hex_bytes = (\<lambda>_. Inr (replicate 32 0)), namespace_fits = (\<lambda>_. True)\<rparr>"

lemma parse_print: "distinct (map fst d) \<Longrightarrow> enumerated_parse (enumerated_print d) = Inr (written_doc d)"
  by (simp add: enumerated_parse_def enumerated_print_def Let_def written_doc_def distinct_map_filter)

lemma enumerated_parse_sound: "enumerated_parse s = Inr d \<Longrightarrow> distinct (map fst d) \<and> (\<forall>k. (k, TomlTables []) \<notin> set d)"
  by (auto simp: enumerated_parse_def written_doc_def Let_def split: if_splits)

lemma sample_lib_ok: "toml_ok sample_lib"
  unfolding toml_ok_def sample_lib_def using enumerated_parse_sound
  by (fastforce intro: parse_print AList.distinct_updates)

definition sample_doc :: toml_doc where
  "sample_doc = [(''listen'', TomlString ''/ip4/0.0.0.0/tcp/4588''), (''allow'', TomlTables [[(''peer'', TomlString ''A'')]])]"

definition sample_file :: "io_error + string" where
  "sample_file = Inr (enumerated_print sample_doc)"

definition sample_remote :: remote_config where
  "sample_remote = \<lparr>remote_rate = \<lparr>rl_max = 7, rl_window_secs = 60, rl_exempt = []\<rparr>,
     remote_allow = [\<lparr>allow_peer = ''B'', allow_roles = [''admin'']\<rparr>], remote_check_sum = [], updated_at = ''1''\<rparr>"

lemma sample_parse: "toml_parse sample_lib (enumerated_print sample_doc) = Inr sample_doc"
  by (simp add: sample_lib_def parse_print sample_doc_def) (simp add: written_doc_def)

lemma sample_config: "de_config sample_doc = Inr \<lparr>raw_listen = ''/ip4/0.0.0.0/tcp/4588'', raw_rate = raw_rate_limit_default,
    raw_allows = [\<lparr>allow_peer = ''A'', allow_roles = []\<rparr>], raw_exposes = [], raw_checksums = [], raw_relay = None,
    raw_namespace = None\<rparr>"
  by (simp add: de_config_def sample_doc_def defaulted_def optional_def de_seq_def de_table_def de_allow_def
      required_def de_string_def)

text \<open>C25 (\<open>guard_config.rs\<close>, \<open>load\<close>): what a loaded configuration guarantees: a window of at least one second,
  services exposed under distinct names, a namespace only with a relay, fingerprints of 32 bytes, and a
  whitelist that gives each peer the roles of the last \<open>allow\<close> entry naming it and lists nobody else.\<close>

theorem load_sound:
  assumes "load L path file = Inr cfg"
  shows "from_secs 1 \<le> cfg_rate_limit_window cfg \<and> distinct (map fst (cfg_expose cfg)) \<and>
    (cfg_namespace cfg \<noteq> None \<longrightarrow> cfg_relay cfg \<noteq> None) \<and>
    (\<forall>(p, h) \<in> set (cfg_checksum_bin cfg). length h = SHA256_LEN) \<and>
    whitelist_wf (cfg_whitelist cfg) \<and>
    (\<exists>text doc raw listed. file = Inr text \<and> toml_parse L text = Inr doc \<and> de_config doc = Inr raw \<and>
       list_all2 (listed_as L) (raw_allows raw) listed \<and> (\<forall>p. roles (cfg_whitelist cfg) p = map_of (rev listed) p))"
proof -
  obtain contents doc raw where l: "file = Inr contents" "toml_parse L contents = Inr doc" "de_config doc = Inr raw"
    and v: "validate L raw = Inr cfg"
    using assms by (auto simp: load_Inr)
  from v have w: "rl_window_secs (raw_rate raw) \<noteq> 0" "cfg_rate_limit_window cfg = from_secs (unat (rl_window_secs (raw_rate raw)))"
    "load_allow L (raw_allows raw) whitelist_new = Inr (cfg_whitelist cfg)"
    "load_expose (raw_exposes raw) {} = Inr (cfg_expose cfg)"
    "load_checksums L (raw_checksums raw) = Inr (cfg_checksum_bin cfg)"
    "cfg_namespace cfg \<noteq> None \<longrightarrow> cfg_relay cfg \<noteq> None"
    by (auto simp: validate_Inr)
  have "from_secs 1 \<le> cfg_rate_limit_window cfg" using w(1,2) by (simp add: from_secs_def Suc_le_eq unat_gt_0)
  moreover have "distinct (map fst (cfg_expose cfg))" using w(4) by (simp add: load_expose_Inr comp_def)
  ultimately show ?thesis
    using loaded_roles [OF w(3)] load_checksums_lengths [OF w(5)] w(6) l by blast
qed

lemma sample_load: "\<exists>cfg. load sample_lib ''guard.toml'' sample_file = Inr cfg"
proof -
  have "load sample_lib ''guard.toml'' sample_file = validate sample_lib (projr (de_config sample_doc))"
    by (simp add: load_def read_doc_def sample_file_def sample_parse sample_config)
  also have "is_ok \<dots>"
    by (simp add: sample_config validate_def sample_lib_def raw_rate_limit_default_def load_exempt_def load_checksums_def
        default_rate_window_secs_def DEFAULT_WINDOW_def)
  finally show ?thesis by (simp add: is_ok_iff)
qed

theorem load_sound_witness:
  "from_secs 1 \<le> cfg_rate_limit_window (projr (load sample_lib ''guard.toml'' sample_file))"
  using sample_load load_sound [of sample_lib "''guard.toml''" sample_file] by fastforce

text \<open>C24 (\<open>guard_config.rs\<close>, \<open>load\<close>): the configurations accepted are exactly those whose file is readable TOML
  of the expected shape, whose every address, IP, peer, fingerprint and namespace parses, whose window is not zero,
  whose services have distinct names, and whose namespace comes with a relay. There is no other reason
  to refuse one, and no field is skipped.\<close>

theorem load_accepts_iff:
  "is_ok (load L path file) \<longleftrightarrow> (\<exists>text doc raw. file = Inr text \<and> toml_parse L text = Inr doc \<and> de_config doc = Inr raw \<and>
     is_ok (parse_multiaddr L (raw_listen raw)) \<and> rl_window_secs (raw_rate raw) \<noteq> 0 \<and>
     list_all (\<lambda>ip. is_ok (parse_ip L ip)) (rl_exempt (raw_rate raw)) \<and>
     list_all (\<lambda>e. is_ok (parse_peer L (allow_peer e))) (raw_allows raw) \<and>
     distinct (map expose_name (raw_exposes raw)) \<and>
     list_all (\<lambda>e. is_ok (parse_peer L (checksum_peer e)) \<and> is_ok (parse_sha256_hex L (checksum_sha256 e))) (raw_checksums raw) \<and>
     list_all (\<lambda>a. is_ok (parse_multiaddr L a)) (case raw_relay raw of None \<Rightarrow> [] | Some a \<Rightarrow> [a]) \<and>
     list_all (namespace_fits L) (case raw_namespace raw of None \<Rightarrow> [] | Some ns \<Rightarrow> [ns]) \<and>
     \<not> (raw_namespace raw \<noteq> None \<and> raw_relay raw = None))"
proof -
  have "is_ok (load L path file) \<longleftrightarrow> (\<exists>text doc raw. file = Inr text \<and> toml_parse L text = Inr doc \<and>
      de_config doc = Inr raw \<and> is_ok (validate L raw))"
    by (auto simp: load_Inr is_ok_iff)
  then show ?thesis by (simp only: accepts_iffs)
qed

text \<open>C26 (\<open>guard_config.rs\<close>, \<open>apply_remote_config\<close>): once a configuration of the Gateway has been applied to a valid
  file, loading the file again keeps the listening address, the exposed services, the relay and the
  namespace, and takes the rate limit, the whitelist and the fingerprints from the Gateway alone.
  The window is only cut down to the largest 64-bit integer of TOML.\<close>

theorem remote_config_applied:
  assumes "toml_ok L" "load L path file = Inr cfg" "apply_remote_config L path remote failing file = (Inr (), file')"
    and "load L path file' = Inr cfg'"
  shows "cfg_listen cfg' = cfg_listen cfg \<and> cfg_expose cfg' = cfg_expose cfg \<and> cfg_relay cfg' = cfg_relay cfg \<and>
    cfg_namespace cfg' = cfg_namespace cfg \<and>
    cfg_rate_limit_max cfg' = rl_max (remote_rate remote) \<and>
    cfg_rate_limit_window cfg' = from_secs (min (unat (rl_window_secs (remote_rate remote))) (2 ^ 63 - 1)) \<and>
    load_exempt L (rl_exempt (remote_rate remote)) = Inr (cfg_rate_limit_exempt cfg') \<and>
    load_checksums L (remote_check_sum remote) = Inr (cfg_checksum_bin cfg') \<and>
    (\<exists>listed. list_all2 (listed_as L) (remote_allow remote) listed \<and>
       (\<forall>p. roles (cfg_whitelist cfg') p = map_of (rev listed) p))"
proof -
  obtain contents d raw where l: "file = Inr contents" "toml_parse L contents = Inr d" "de_config d = Inr raw" "validate L raw = Inr cfg"
    using assms(2) by (auto simp: load_Inr)
  then have file': "file' = Inr (toml_print L (edit_doc remote d))"
    using assms(3) by (auto simp: apply_remote_config_def read_doc_def split: option.splits prod.splits)
  obtain d' where "toml_parse L (toml_print L (edit_doc remote d)) = Inr d'" "de_config d' = Inr (merged remote raw)"
    using de_config_merged [OF assms(1) l(2,3)] by blast
  then have v: "validate L (merged remote raw) = Inr cfg'"
    using assms(4) by (auto simp: load_Inr file')
  from v have new: "cfg_rate_limit_max cfg' = rl_max (remote_rate remote)"
    "cfg_rate_limit_window cfg' = from_secs (min (unat (rl_window_secs (remote_rate remote))) (2 ^ 63 - 1))"
    "load_exempt L (rl_exempt (remote_rate remote)) = Inr (cfg_rate_limit_exempt cfg')"
    "load_checksums L (remote_check_sum remote) = Inr (cfg_checksum_bin cfg')"
    "load_allow L (remote_allow remote) whitelist_new = Inr (cfg_whitelist cfg')"
    by (simp_all add: validate_Inr merged_def unat_i64_secs)
  have "cfg_listen cfg' = cfg_listen cfg" "cfg_namespace cfg' = cfg_namespace cfg" "cfg_expose cfg' = cfg_expose cfg"
    using v l(4) by (simp_all add: validate_Inr merged_def load_expose_Inr)
  moreover have "cfg_relay cfg' = cfg_relay cfg"
    using v l(4) by (cases "raw_relay raw") (auto simp: validate_Inr merged_def)
  ultimately show ?thesis
    using new loaded_roles [OF new(5)] by blast
qed

definition sample_edited :: "io_error + string" where
  "sample_edited = snd (apply_remote_config sample_lib ''guard.toml'' sample_remote None sample_file)"

lemma sample_apply: "apply_remote_config sample_lib ''guard.toml'' sample_remote None sample_file = (Inr (), sample_edited)"
  by (simp add: sample_edited_def apply_remote_config_def read_doc_def sample_file_def sample_parse)

lemma edited_load:
  assumes "toml_ok L" "toml_parse L text = Inr d" "de_config d = Inr raw"
  shows "load L path (snd (apply_remote_config L path remote None (Inr text))) = validate L (merged remote raw)"
  using de_config_merged [OF assms, of remote] assms(2)
  by (auto simp: apply_remote_config_def read_doc_def load_def)

lemma sample_edited_loads: "\<exists>cfg. load sample_lib ''guard.toml'' sample_edited = Inr cfg"
proof -
  have "load sample_lib ''guard.toml'' sample_edited =
      validate sample_lib (merged sample_remote (projr (de_config sample_doc)))"
    unfolding sample_edited_def sample_file_def
    by (rule edited_load [OF sample_lib_ok sample_parse]) (simp add: sample_config)
  also have "is_ok \<dots>"
    by (simp add: sample_config validate_def sample_lib_def merged_def sample_remote_def load_exempt_def
        load_checksums_def i64_secs_def)
  finally show ?thesis by (simp add: is_ok_iff)
qed

theorem remote_config_applied_witness:
  "cfg_rate_limit_max (projr (load sample_lib ''guard.toml'' sample_edited)) = 7"
proof -
  obtain cfg cfg' where cfg: "load sample_lib ''guard.toml'' sample_file = Inr cfg"
    and cfg': "load sample_lib ''guard.toml'' sample_edited = Inr cfg'"
    using sample_load sample_edited_loads by blast
  from remote_config_applied [OF sample_lib_ok cfg sample_apply cfg'] cfg' show ?thesis
    by (simp add: sample_remote_def)
qed

text \<open>The Gateway's configuration is written without validation: a window of zero seconds is
  accepted by \<open>apply_remote_config\<close>, and the file it leaves is one that \<open>load\<close> refuses.\<close>

lemma unvalidated_config_breaks_the_file:
  assumes "remote = sample_remote\<lparr>remote_rate := \<lparr>rl_max = 7, rl_window_secs = 0, rl_exempt = []\<rparr>\<rparr>"
  shows "fst (apply_remote_config sample_lib ''guard.toml'' remote None sample_file) = Inr () \<and>
    load sample_lib ''guard.toml'' (snd (apply_remote_config sample_lib ''guard.toml'' remote None sample_file)) =
      Inl (Config WindowSecsZero)"
proof
  show "fst (apply_remote_config sample_lib ''guard.toml'' remote None sample_file) = Inr ()"
    by (simp add: apply_remote_config_def read_doc_def sample_file_def sample_parse)
  have "load sample_lib ''guard.toml'' (snd (apply_remote_config sample_lib ''guard.toml'' remote None sample_file)) =
      validate sample_lib (merged remote (projr (de_config sample_doc)))"
    unfolding sample_file_def by (rule edited_load [OF sample_lib_ok sample_parse]) (simp add: sample_config)
  then show "load sample_lib ''guard.toml'' (snd (apply_remote_config sample_lib ''guard.toml'' remote None sample_file)) =
      Inl (Config WindowSecsZero)"
    by (simp add: assms sample_config validate_def sample_lib_def merged_def i64_secs_def)
qed

end
