(* ===== verification/Cli_Args.thy ===== *)
theory Cli_Args imports Guard_Config begin

text \<open>
  The command line of \<^verbatim>\<open>crates/nux-cli/src/main.rs\<close>: the parsers of the arguments that clap calls, and
  the peer an address designates. The parser of multiaddrs is \<open>config_lib\<close>'s.
\<close>

datatype arg_error =
    ForwardFormat | LocalPortInvalid | ServiceEmpty | SocketPathMissing | ServiceMissing | UidsMissing
  | UidInvalid string | NoUid | DiscoverFormat | NamespaceEmpty | RendezvousInvalid string | MultiaddrInvalid string
  | PeerIdInvalid string

definition parse_forward :: "string \<Rightarrow> arg_error + (u16 \<times> string)" where
  "parse_forward v =
     and_then (ok_or ForwardFormat (split_once (CHR '':'') v)) (\<lambda>(port, service).
     and_then (ok_or LocalPortInvalid (parse_unsigned (2 ^ 16 - 1) (trim port))) (\<lambda>p.
       let service = trim service in
       if service = [] then Inl ServiceEmpty else Inr (of_nat p, service)))"

text \<open>\<^verbatim>\<open>splitn(n, c)\<close> and \<^verbatim>\<open>split(c)\<close>: the last part of \<open>splitn\<close> keeps its separators.\<close>

fun splitn :: "nat \<Rightarrow> char \<Rightarrow> string \<Rightarrow> string list" where
  "splitn 0 c s = []"
| "splitn (Suc 0) c s = [s]"
| "splitn (Suc (Suc n)) c s = (case split_once c s of None \<Rightarrow> [s] | Some (a, b) \<Rightarrow> a # splitn (Suc n) c b)"

function split_on :: "char \<Rightarrow> string \<Rightarrow> string list" where
  "split_on c s = (case split_once c s of None \<Rightarrow> [s] | Some (a, b) \<Rightarrow> a # split_on c b)"
  by auto

termination split_on
  by (relation "measure (length \<circ> snd)") (auto simp: split_once_Some)

declare split_on.simps [simp del]

definition part :: "nat \<Rightarrow> string list \<Rightarrow> string option" where
  "part i xs = (if i < length xs then Some (xs ! i) else None)"

definition nonempty :: "string option \<Rightarrow> string option" where
  "nonempty x = (case x of None \<Rightarrow> None | Some s \<Rightarrow> if s = [] then None else Some s)"

definition parse_forward_unix :: "string \<Rightarrow> arg_error + (string \<times> string \<times> u32 list)" where
  "parse_forward_unix v =
     (let parts = splitn 3 (CHR '':'') v in
      and_then (ok_or SocketPathMissing (nonempty (map_option trim (part 0 parts)))) (\<lambda>path.
      and_then (ok_or ServiceMissing (nonempty (map_option trim (part 1 parts)))) (\<lambda>service.
      and_then (ok_or UidsMissing (part 2 parts)) (\<lambda>uids_raw.
      and_then (traverse (\<lambda>u. map_err (\<lambda>_. UidInvalid u) (ok_or () (map_option of_nat (parse_unsigned (2 ^ 32 - 1) u))))
          (filter (\<lambda>u. u \<noteq> []) (map trim (split_on (CHR '','') uids_raw)))) (\<lambda>uids.
        if uids = [] then Inl NoUid else Inr (path, service, uids))))))"

datatype dial_target = Address multiaddr | Discover (namespace: string) (rendezvous: multiaddr)

definition strip_prefix :: "string \<Rightarrow> string \<Rightarrow> string option" where
  "strip_prefix p s = (if prefix p s then Some (drop (length p) s) else None)"

definition parse_dial_target :: "config_lib \<Rightarrow> string \<Rightarrow> arg_error + dial_target" where
  "parse_dial_target L v = (case strip_prefix ''discover:'' v of
       Some rest \<Rightarrow>
         and_then (ok_or DiscoverFormat (split_once (CHR ''@'') rest)) (\<lambda>(ns, rz).
           if ns = [] then Inl NamespaceEmpty
           else and_then (map_err RendezvousInvalid (parse_multiaddr L rz)) (\<lambda>a. Inr (Discover ns a)))
     | None \<Rightarrow> map_err MultiaddrInvalid (map_sum id Address (parse_multiaddr L v)))"

definition parse_peer_id :: "config_lib \<Rightarrow> string \<Rightarrow> arg_error + peer_id" where
  "parse_peer_id L v = map_err PeerIdInvalid (parse_peer L v)"

fun last_p2p :: "multiaddr \<Rightarrow> peer_id option \<Rightarrow> peer_id option" where
  "last_p2p [] acc = acc"
| "last_p2p (P2p p # rest) acc = last_p2p rest (Some p)"
| "last_p2p (_ # rest) acc = last_p2p rest acc"

definition target_peer_id :: "multiaddr \<Rightarrow> peer_id option" where
  "target_peer_id addr = last_p2p addr None"

lemma target_peer_id_append: "target_peer_id (addr @ [P2p p]) = Some p"
proof -
  have "last_p2p (addr @ [P2p p]) acc = Some p" for acc
    by (induction addr acc rule: last_p2p.induct) simp_all
  then show ?thesis by (simp add: target_peer_id_def)
qed

lemma target_peer_id_Some:
  "target_peer_id addr = Some p \<Longrightarrow> \<exists>a b. addr = a @ P2p p # b \<and> (\<forall>q. P2p q \<notin> set b)"
proof -
  have "last_p2p addr acc = Some p \<Longrightarrow>
      (\<exists>a b. addr = a @ P2p p # b \<and> (\<forall>q. P2p q \<notin> set b)) \<or> (acc = Some p \<and> (\<forall>q. P2p q \<notin> set addr))" for acc
  proof (induction addr acc rule: last_p2p.induct)
    case (1 acc)
    then show ?case by simp
  next
    case (2 q rest acc)
    then show ?case by simp (metis append_Cons append_Nil)
  qed (simp; metis append_Cons protocol.distinct)+
  then show "target_peer_id addr = Some p \<Longrightarrow> ?thesis" by (force simp: target_peer_id_def)
qed

lemma split_on_none: "c \<notin> set s \<Longrightarrow> split_on c s = [s]"
  by (subst split_on.simps) (simp add: split_once_None [THEN iffD2])

lemma split_on_cons: "c \<notin> set a \<Longrightarrow> split_on c (a @ c # b) = a # split_on c b"
  by (subst split_on.simps) (simp add: split_once_Some [THEN iffD2])

section \<open>Arguments that are read back\<close>

definition visible :: "char \<Rightarrow> bool" where
  "visible c \<longleftrightarrow> 33 \<le> (of_char c :: nat) \<and> (of_char c :: nat) \<le> 126"

lemma white_space_invisible: "list_all (\<lambda>p. p \<noteq> [] \<and> \<not> visible (hd p) \<and> \<not> visible (last p)) white_space"
  by (simp add: white_space_def visible_def)

lemma trim_visible:
  assumes "list_all visible s"
  shows "trim s = s"
proof -
  have "starting white_space s = None"
    using white_space_invisible assms
    by (auto simp: starting_def find_None_iff list_all_iff prefix_def neq_Nil_conv)
  moreover have "starting (map rev white_space) (rev s) = None"
  proof -
    have "\<not> prefix (rev p) (rev s)" if p: "p \<in> set white_space" for p
    proof
      assume "prefix (rev p) (rev s)"
      then have "suffix p s" by (simp add: suffix_to_prefix)
      moreover have "p \<noteq> []" "\<not> visible (last p)" using p white_space_invisible by (auto simp: list_all_iff)
      ultimately show False using assms by (auto simp: suffix_def list_all_iff)
    qed
    then show ?thesis by (auto simp: starting_def find_None_iff)
  qed
  ultimately show ?thesis by (simp add: trim_def strip_fixed)
qed

lemma trim_decimal [simp]: "trim (decimal n) = decimal n"
  using decimal_digits [of n] by (intro trim_visible) (auto simp: list_all_iff is_digit_def visible_def)

lemma decimal_no_separator: "c \<in> {CHR '':'', CHR '',''} \<Longrightarrow> c \<notin> set (decimal n)"
  using decimal_digits [of n] by (auto simp: list_all_iff is_digit_def)

text \<open>The parts joined by a comma.\<close>

fun joined :: "string list \<Rightarrow> string" where
  "joined [] = []"
| "joined [s] = s"
| "joined (s # t # ss) = s @ CHR '','' # joined (t # ss)"

lemma split_on_joined:
  "ss \<noteq> [] \<Longrightarrow> \<forall>s \<in> set ss. CHR '','' \<notin> set s \<Longrightarrow> split_on (CHR '','') (joined ss) = ss"
  by (induction ss rule: joined.induct) (simp_all add: split_on_none split_on_cons)

definition clean :: "string \<Rightarrow> bool" where
  "clean s \<longleftrightarrow> s \<noteq> [] \<and> trim s = s \<and> CHR '':'' \<notin> set s"

lemma parse_word_decimal:
  "parse_unsigned (2 ^ LENGTH('a) - 1) (decimal (unat (w :: 'a::len word))) = Some (unat w)"
proof (rule parse_decimal)
  have "unat w < 2 ^ LENGTH('a)" by (rule unsigned_less)
  then show "unat w \<le> 2 ^ LENGTH('a) - 1" by linarith
qed

lemma traverse_uids:
  "traverse (\<lambda>u. map_err (\<lambda>_. UidInvalid u) (ok_or () (map_option of_nat (parse_unsigned (2 ^ 32 - 1) u))))
     (map (\<lambda>u. decimal (unat u)) uids) = Inr (uids :: u32 list)"
  using parse_word_decimal [where 'a = 32] by (simp add: traverse_map) (rule traverse_id, simp)

lemma splitn_three:
  "CHR '':'' \<notin> set a \<Longrightarrow> CHR '':'' \<notin> set b \<Longrightarrow>
     splitn 3 (CHR '':'') (a @ CHR '':'' # b @ CHR '':'' # c) = [a, b, c]"
  by (simp add: numeral_3_eq_3 split_once_Some [THEN iffD2])

text \<open>\<open>parse_forward\<close>, \<open>parse_forward_unix\<close>: the redirections written on the command line are the ones understood:
  any port with any service, and any path with any service and any non-empty list of user ids, are
  read back as written. In turn, whatever is accepted names a service, and a Unix redirection
  accepted always has a path and at least one authorised user id.\<close>

theorem forward_arguments_roundtrip:
  assumes "clean path" "clean svc" "uids \<noteq> []"
  shows "parse_forward (decimal (unat port) @ CHR '':'' # svc) = Inr (port, svc) \<and>
    parse_forward_unix (path @ CHR '':'' # svc @ CHR '':'' # joined (map (\<lambda>u. decimal (unat u)) uids)) = Inr (path, svc, uids) \<and>
    (\<forall>v p s. parse_forward v = Inr (p, s) \<longrightarrow> s \<noteq> []) \<and>
    (\<forall>v p s us. parse_forward_unix v = Inr (p, s, us) \<longrightarrow> p \<noteq> [] \<and> s \<noteq> [] \<and> us \<noteq> [])"
proof (intro conjI)
  have "split_once (CHR '':'') (decimal (unat port) @ CHR '':'' # svc) = Some (decimal (unat port), svc)"
    by (simp add: split_once_Some decimal_no_separator)
  moreover have "parse_unsigned (2 ^ 16 - 1) (decimal (unat port)) = Some (unat port)"
    using parse_word_decimal [of port] by simp
  ultimately show "parse_forward (decimal (unat port) @ CHR '':'' # svc) = Inr (port, svc)"
    using assms(2) by (simp add: parse_forward_def clean_def)
  have "split_on (CHR '','') (joined (map (\<lambda>u. decimal (unat u)) uids)) = map (\<lambda>u. decimal (unat u)) uids"
    using assms(3) by (intro split_on_joined) (auto simp: decimal_no_separator)
  then show "parse_forward_unix (path @ CHR '':'' # svc @ CHR '':'' # joined (map (\<lambda>u. decimal (unat u)) uids)) = Inr (path, svc, uids)"
    using assms traverse_uids [of uids]
    by (simp add: parse_forward_unix_def clean_def splitn_three Let_def part_def nonempty_def comp_def)
  show "\<forall>v p s. parse_forward v = Inr (p, s) \<longrightarrow> s \<noteq> []"
    by (auto simp: parse_forward_def and_then_Inr_iff Let_def split: if_splits)
  show "\<forall>v p s us. parse_forward_unix v = Inr (p, s, us) \<longrightarrow> p \<noteq> [] \<and> s \<noteq> [] \<and> us \<noteq> []"
    by (auto simp: parse_forward_unix_def and_then_Inr_iff nonempty_def Let_def split: if_splits option.splits)
qed

theorem forward_arguments_roundtrip_witness:
  "parse_forward_unix (''/run/a'' @ CHR '':'' # ''db'' @ CHR '':'' # joined (map (\<lambda>u. decimal (unat (u :: u32))) [1000, 33])) =
     Inr (''/run/a'', ''db'', [1000, 33])"
proof -
  have "clean ''/run/a''" "clean ''db''"
    unfolding clean_def by (intro conjI trim_visible; simp add: visible_def)+
  from forward_arguments_roundtrip [OF this, of "[1000, 33]"] show ?thesis by simp
qed

end
