(* ===== verification/Waiting.thy ===== *)
theory Waiting imports Client begin

text \<open>
  What the waiting loops of \<open>Client\<close> have in common: what a loop consumes of the events alone decides its result. The locale
  \<open>wait_loop\<close> is that contract; the loops that wait for one event are instances of \<open>scan\<close>, and the handshake and the
  reconnection satisfy it too.
\<close>

section \<open>Waiting loops consume a prefix\<close>

locale wait_loop =
  fixes wait :: "client_event list \<Rightarrow> 'a outcome"
  assumes consumes: "wait evs = Ready a rest \<Longrightarrow> \<exists>used. evs = used @ rest \<and> (\<forall>later. wait (used @ later) = Ready a later)"
begin

lemma extends: "wait evs = Ready a rest \<Longrightarrow> wait (evs @ later) = Ready a (rest @ later)"
  using consumes [of evs a rest] by auto

lemma pending_before: "wait (evs @ later) = Pending \<Longrightarrow> wait evs = Pending"
  using extends by (cases "wait evs") auto

text \<open>A result comes with the event that decides it, not later.\<close>

lemma decided_at_once: "wait evs = Pending \<Longrightarrow> wait (evs @ [ev]) = Ready a rest \<Longrightarrow> rest = []"
proof (cases rest rule: rev_cases)
  case (snoc r x)
  assume pending: "wait evs = Pending" and ready: "wait (evs @ [ev]) = Ready a rest"
  obtain used where "evs @ [ev] = used @ rest" "\<And>later. wait (used @ later) = Ready a later"
    using consumes [OF ready] by blast
  with snoc have "wait evs = Ready a r" by simp
  with pending show ?thesis by simp
qed simp

lemma pending_prefix:
  assumes "wait used = Ready a []" "used = e @ e'" "e' \<noteq> []"
  shows "wait e = Pending"
  using extends [of e _ _ e'] assms by (cases "wait e") auto

end

section \<open>The loops that wait for one event\<close>

text \<open>Each looks for the first event its reaction answers.\<close>

fun scan :: "(client_event \<Rightarrow> 'a option) \<Rightarrow> client_event list \<Rightarrow> 'a outcome" where
  "scan g [] = Pending"
| "scan g (ev # evs) = (case g ev of Some a \<Rightarrow> Ready a evs | None \<Rightarrow> scan g evs)"

lemma scan_consumes: "scan g evs = Ready a rest \<Longrightarrow> \<exists>used. evs = used @ rest \<and> (\<forall>later. scan g (used @ later) = Ready a later)"
proof (induction evs)
  case (Cons ev evs)
  show ?case
  proof (cases "g ev")
    case None
    with Cons obtain used where "evs = used @ rest" "\<forall>later. scan g (used @ later) = Ready a later" by auto
    with None show ?thesis by (intro exI [of _ "ev # used"]) simp
  next
    case (Some x)
    with Cons.prems show ?thesis by (intro exI [of _ "[ev]"]) simp
  qed
qed simp

interpretation scan: wait_loop "scan g" for g
  by unfold_locales (rule scan_consumes)

lemma scan_Ready: "scan g evs = Ready a rest \<Longrightarrow> \<exists>e ev. evs = e @ ev # rest \<and> g ev = Some a"
proof (induction evs)
  case Nil
  then show ?case by simp
next
  case (Cons ev evs)
  show ?case
  proof (cases "g ev")
    case None
    with Cons show ?thesis by simp (metis append_Cons)
  next
    case (Some x)
    with Cons.prems show ?thesis by (intro exI [of _ "[]"] exI [of _ ev]) simp
  qed
qed

lemma scan_event:
  "scan g evs = Ready a rest \<Longrightarrow> (\<And>ev. g ev = Some a \<Longrightarrow> ev = x) \<Longrightarrow> \<exists>e. evs = e @ x # rest"
  by (drule scan_Ready) blast

lemma next_connection_scan: "next_connection evs = scan (\<lambda>ev. case ev of
     ConnEstablished p \<Rightarrow> Some (Inr p) | OutgoingError _ e \<Rightarrow> Some (Inl (Dial (LibError e))) | _ \<Rightarrow> None) evs"
  by (induction evs) (auto split: client_event.splits)

lemma wait_for_peer_scan: "wait_for_peer peer evs = scan (\<lambda>ev. case ev of
     ConnEstablished p \<Rightarrow> if p = peer then Some (Inr ()) else None
   | OutgoingError (Some p) e \<Rightarrow> if p = peer then Some (Inl (Dial (LibError e))) else None | _ \<Rightarrow> None) evs"
  by (induction evs) (auto split: client_event.splits option.splits)

lemma wait_for_circuit_reservation_scan: "wait_for_circuit_reservation relay evs = scan (\<lambda>ev. case ev of
     ReservationAccepted p \<Rightarrow> if p = relay then Some (Inr ()) else None
   | ConnClosed p _ \<Rightarrow> if p = relay then Some (Inl (Network RelayLostBeforeReservation)) else None | _ \<Rightarrow> None) evs"
  by (induction evs) (auto split: client_event.splits)

lemma await_registered_scan: "await_registered rz ns evs = scan (\<lambda>ev. case ev of
     RdvRegistered p n \<Rightarrow> if p = rz \<and> n = ns then Some (Inr ()) else None
   | RdvRegisterFailed p n e \<Rightarrow> if p = rz \<and> n = ns then Some (Inl (Network (RegistrationRefused e))) else None
   | _ \<Rightarrow> None) evs"
  by (induction evs) (auto split: client_event.splits)

lemma next_connection_ok: "next_connection evs = Ready (Inr p) rest \<Longrightarrow> \<exists>e. evs = e @ ConnEstablished p # rest"
  unfolding next_connection_scan by (erule scan_event) (auto split: client_event.split_asm option.split_asm if_split_asm)

lemma wait_for_peer_ok: "wait_for_peer p evs = Ready (Inr u) rest \<Longrightarrow> \<exists>e. evs = e @ ConnEstablished p # rest"
  unfolding wait_for_peer_scan by (erule scan_event) (auto split: client_event.split_asm option.split_asm if_split_asm)

lemma reservation_ok:
  "wait_for_circuit_reservation relay evs = Ready (Inr u) rest \<Longrightarrow> \<exists>e. evs = e @ ReservationAccepted relay # rest"
  unfolding wait_for_circuit_reservation_scan by (erule scan_event) (auto split: client_event.split_asm option.split_asm if_split_asm)

lemma registered_ok: "await_registered rz ns evs = Ready (Inr u) rest \<Longrightarrow> \<exists>e. evs = e @ RdvRegistered rz ns # rest"
  unfolding await_registered_scan by (erule scan_event) (auto split: client_event.split_asm option.split_asm if_split_asm)

section \<open>The handshake and the reconnection\<close>

text \<open>What one event means to the handshake: nothing, its end, or a request to send.\<close>

definition handshake_react :: "(bytes \<Rightarrow> string + bytes) \<Rightarrow> u64 option \<Rightarrow> peer_id \<Rightarrow> nat \<Rightarrow> bool \<Rightarrow> client_event \<Rightarrow>
    ((nux_error + role list) + nux_request) option" where
  "handshake_react sign now guard awaiting answered ev = (case ev of
     AuthResponse p rid response \<Rightarrow> if p = guard \<and> rid = awaiting then Some (on_response sign now answered response) else None
   | AuthOutboundFailure p rid \<Rightarrow> if p = guard \<and> rid = awaiting then Some (Inl (Inl AccessDenied)) else None
   | ConnClosed p _ \<Rightarrow> if p = guard then Some (Inl (Inl AccessDenied)) else None
   | _ \<Rightarrow> None)"

lemma handshake_loop_react:
  "handshake_loop sign now guard awaiting answered next_id sent (ev # evs) =
     (case handshake_react sign now guard awaiting answered ev of
        None \<Rightarrow> handshake_loop sign now guard awaiting answered next_id sent evs
      | Some (Inl r) \<Rightarrow> (sent, next_id, Ready r evs)
      | Some (Inr answer) \<Rightarrow> handshake_loop sign now guard next_id True (Suc next_id) (sent @ [(next_id, guard, answer)]) evs)"
  by (cases ev) (auto simp: handshake_react_def split: sum.split)

lemma handshake_loop_consumes:
  "handshake_loop sign now guard awaiting answered next_id sent evs = (sent', next', Ready r rest) \<Longrightarrow>
     \<exists>used. evs = used @ rest \<and>
       (\<forall>later. handshake_loop sign now guard awaiting answered next_id sent (used @ later) = (sent', next', Ready r later))"
proof (induction evs arbitrary: awaiting answered next_id sent)
  case (Cons ev evs)
  note react = handshake_loop_react [of sign now guard awaiting answered next_id sent ev]
  let ?step = "handshake_react sign now guard awaiting answered ev"
  show ?case
  proof (cases "\<exists>r. ?step = Some (Inl r)")
    case True
    with Cons.prems show ?thesis by (intro exI [of _ "[ev]"]) (auto simp only: react option.case sum.case append.simps prod.inject outcome.inject)
  next
    case False
    then obtain awaiting1 answered1 next1 sent1 where go:
        "\<And>es. handshake_loop sign now guard awaiting answered next_id sent (ev # es) = handshake_loop sign now guard awaiting1 answered1 next1 sent1 es"
      by (cases ?step; cases "the ?step") (simp_all only: react option.case sum.case option.sel, blast+)
    from Cons.IH [of awaiting1 answered1 next1 sent1] Cons.prems obtain used where "evs = used @ rest"
      "\<forall>later. handshake_loop sign now guard awaiting1 answered1 next1 sent1 (used @ later) = (sent', next', Ready r later)"
      unfolding go by blast
    then show ?thesis by (intro exI [of _ "ev # used"]) (simp only: go append.simps simp_thms)
  qed
qed simp

lemma wait_for_peer_consumes:
  "wait_for_peer p evs = Ready a rest \<Longrightarrow> \<exists>used. evs = used @ rest \<and> (\<forall>later. wait_for_peer p (used @ later) = Ready a later)"
  unfolding wait_for_peer_scan by (rule scan_consumes)

lemma authenticate_consumes:
  assumes "authenticate sign now connected guard next_id evs = (sent, next', Ready r rest)"
  shows "\<exists>used. evs = used @ rest \<and> (\<forall>later. authenticate sign now connected guard next_id (used @ later) = (sent, next', Ready r later))"
proof -
  define start where "start es = (if connected then Ready (Inr ()) es else wait_for_peer guard es)" for es
  have step: "authenticate sign now connected guard next_id es = (case start es of
      Pending \<Rightarrow> ([], next_id, Pending) | Ready (Inl e) rest \<Rightarrow> ([], next_id, Ready (Inl e) rest)
    | Ready (Inr _) rest \<Rightarrow> handshake_loop sign now guard next_id False (Suc next_id) [(next_id, guard, HandshakeInit)] rest)" for es
    by (simp add: authenticate_def start_def)
  have start: "\<exists>used. evs = used @ rest1 \<and> (\<forall>later. start (used @ later) = Ready a later)" if "start evs = Ready a rest1" for a rest1
    using that wait_for_peer_consumes [of guard evs a rest1] by (auto simp: start_def split: if_splits)
  obtain a rest1 where s: "start evs = Ready a rest1" using assms by (cases "start evs") (simp_all add: step)
  from start [OF s] obtain used where u: "evs = used @ rest1" "\<And>later. start (used @ later) = Ready a later" by blast
  show ?thesis
  proof (cases a)
    case (Inl e)
    with assms s have "sent = []" "next' = next_id" "r = Inl e" "rest = rest1" by (simp_all add: step)
    with u Inl show ?thesis by (intro exI [of _ used]) (simp add: step)
  next
    case (Inr x)
    with assms s have "handshake_loop sign now guard next_id False (Suc next_id) [(next_id, guard, HandshakeInit)] rest1 = (sent, next', Ready r rest)"
      by (simp add: step)
    from handshake_loop_consumes [OF this] obtain used' where "rest1 = used' @ rest"
      "\<And>later. handshake_loop sign now guard next_id False (Suc next_id) [(next_id, guard, HandshakeInit)] (used' @ later) = (sent, next', Ready r later)"
      by blast
    with u Inr show ?thesis by (intro exI [of _ "used @ used'"]) (simp add: step)
  qed
qed

lemma reauthenticate_loop_consumes:
  "reauthenticate_loop sign guard backoff tries next_id evs slept = (slept', tries', next', Ready rs rest) \<Longrightarrow>
     \<exists>used. evs = used @ rest \<and>
       (\<forall>later. reauthenticate_loop sign guard backoff tries next_id (used @ later) slept = (slept', tries', next', Ready rs later))"
proof (induction tries arbitrary: backoff next_id evs slept)
  case (Cons t tries)
  define attempt where "attempt es = (case redial_result t of Inl e \<Rightarrow> (next_id, Ready (Inl (Dial (LibError e))) es)
     | Inr _ \<Rightarrow> snd (authenticate sign (clock_reading t) (already_connected t) guard next_id es))" for es
  have attempt: "\<exists>used. evs = used @ rest1 \<and> (\<forall>later. attempt (used @ later) = (n, Ready r later))" if "attempt evs = (n, Ready r rest1)" for n r rest1
  proof (cases "redial_result t")
    case (Inl e)
    with that show ?thesis by (intro exI [of _ "[]"]) (simp add: attempt_def)
  next
    case (Inr u)
    with that obtain sent where "authenticate sign (clock_reading t) (already_connected t) guard next_id evs = (sent, n, Ready r rest1)"
      by (cases "authenticate sign (clock_reading t) (already_connected t) guard next_id evs") (auto simp: attempt_def)
    from authenticate_consumes [OF this] Inr show ?thesis by (auto simp: attempt_def)
  qed
  have loop: "reauthenticate_loop sign guard backoff (t # tries) next_id es slept = (case attempt es of (n, out) \<Rightarrow> (case out of
      Pending \<Rightarrow> (slept, tries, n, Pending) | Ready (Inr rs) rest \<Rightarrow> (slept, tries, n, Ready rs rest)
    | Ready (Inl _) rest \<Rightarrow> reauthenticate_loop sign guard (min (backoff * 2) MAX_BACKOFF_SECS) tries n rest (slept @ [backoff])))" for es
    by (simp add: attempt_def)
  obtain n r rest1 where a: "attempt evs = (n, Ready r rest1)"
    using Cons.prems unfolding loop by (auto split: prod.split_asm outcome.split_asm)
  from attempt [OF a] obtain used where u: "evs = used @ rest1" "\<And>later. attempt (used @ later) = (n, Ready r later)" by blast
  show ?case
  proof (cases r)
    case (Inr rs1)
    with Cons.prems a u show ?thesis unfolding loop by (intro exI [of _ used]) simp
  next
    case (Inl e)
    with Cons.prems a have "reauthenticate_loop sign guard (min (backoff * 2) MAX_BACKOFF_SECS) tries n rest1 (slept @ [backoff]) =
        (slept', tries', next', Ready rs rest)" unfolding loop by simp
    from Cons.IH [OF this] obtain used' where "rest1 = used' @ rest" "\<And>later. reauthenticate_loop sign guard
        (min (backoff * 2) MAX_BACKOFF_SECS) tries n (used' @ later) (slept @ [backoff]) = (slept', tries', next', Ready rs later)" by blast
    with u Inl show ?thesis unfolding loop by (intro exI [of _ "used @ used'"]) simp
  qed
qed simp

text \<open>The reconnection with all that it leaves behind.\<close>

definition reconnect :: "(bytes \<Rightarrow> string + bytes) \<Rightarrow> peer_id \<Rightarrow> retry list \<Rightarrow> nat \<Rightarrow> client_event list \<Rightarrow> (retry list \<times> nat) outcome" where
  "reconnect sign guard tries next_id evs = (case reauthenticate sign guard tries next_id evs of
     (_, tries', next', Ready _ rest) \<Rightarrow> Ready (tries', next') rest
   | (_, _, _, Pending) \<Rightarrow> Pending)"

interpretation reconnect: wait_loop "reconnect sign guard tries next_id" for sign guard tries next_id
proof
  fix evs a rest
  assume "reconnect sign guard tries next_id evs = Ready a rest"
  then obtain slept tries' next' rs where
    r: "reauthenticate_loop sign guard INITIAL_BACKOFF_SECS tries next_id evs [] = (slept, tries', next', Ready rs rest)" "a = (tries', next')"
    by (auto simp: reconnect_def reauthenticate_def split: prod.splits outcome.splits)
  from reauthenticate_loop_consumes [OF r(1)] r(2)
  show "\<exists>used. evs = used @ rest \<and> (\<forall>later. reconnect sign guard tries next_id (used @ later) = Ready a later)"
    by (auto simp: reconnect_def reauthenticate_def)
qed

end
