(* ===== verification/Startup.thy ===== *)
theory Startup imports Builder Cli_Args Waiting Guard begin

text \<open>
  The commands \<^verbatim>\<open>keygen\<close>, \<^verbatim>\<open>guard\<close> and \<^verbatim>\<open>client\<close> of \<^verbatim>\<open>crates/nux-cli/src/main.rs\<close>: from the arguments
  and the configuration file to the running loop. Network events are those of \<open>Client\<close>; a timer that
  fires is \<open>TimeoutElapsed\<close>. Answers that the swarm gives at once are arguments. The writers of the
  metrics file and of the readiness file are in \<open>Daemon_Files\<close>; the journals are in \<open>Cli_Main\<close>.
\<close>

definition IDENTITY_ENV_VAR :: string where "IDENTITY_ENV_VAR = ''NUX_IDENTITY_KEY''"
definition DAEMON_IDLE_TIMEOUT :: duration where "DAEMON_IDLE_TIMEOUT = from_secs 3600"

definition cli_builder :: "node_mode \<Rightarrow> string option \<Rightarrow> (string \<Rightarrow> string option) \<Rightarrow> 'k node_builder" where
  "cli_builder m ident env =
     (let b = idle_timeout DAEMON_IDLE_TIMEOUT (set_mode m builder_new) in
      case ident of
        Some path \<Rightarrow> identity_file path b
      | None \<Rightarrow> if env IDENTITY_ENV_VAR \<noteq> None then identity_env IDENTITY_ENV_VAR b else b)"

definition keygen :: "'k key_codec \<Rightarrow> 'k \<Rightarrow> string \<Rightarrow> bytes \<Rightarrow> fs \<Rightarrow> (nux_error + 'k) \<times> fs" where
  "keygen X fresh out partial s =
     (case save_to_file X fresh out partial s of
        (Inl e, s') \<Rightarrow> (Inl e, s')
      | (Inr _, s') \<Rightarrow> (Inr fresh, s'))"

text \<open>\<^verbatim>\<open>tokio::time::timeout\<close>: \<open>None\<close> when the timer fires first.\<close>

definition timed :: "(client_event list \<Rightarrow> 'a outcome) \<Rightarrow> client_event list \<Rightarrow> 'a option outcome" where
  "timed f evs =
     (let before = takeWhile (\<lambda>e. e \<noteq> TimeoutElapsed) evs; after = dropWhile (\<lambda>e. e \<noteq> TimeoutElapsed) evs in
      case f before of
        Ready a rest \<Rightarrow> Ready (Some a) (rest @ after)
      | Pending \<Rightarrow> (case after of [] \<Rightarrow> Pending | _ # later \<Rightarrow> Ready None later))"

section \<open>The Guard\<close>

record swarm_answers =
  dial_answer :: "multiaddr \<Rightarrow> string + unit"
  listen_answer :: "multiaddr \<Rightarrow> string + unit"
  register_answer :: "string + unit"

datatype registration = NoRegistration | RegisteredAt peer_id string | RegistrationFailed nux_error

text \<open>\<open>NuxNode::listen_on\<close>: a request that is taken adds an address to those the node listens on.\<close>

definition listen_on :: "swarm_answers \<Rightarrow> multiaddr \<Rightarrow> 'k nux_node \<Rightarrow> (nux_error + unit) \<times> 'k nux_node" where
  "listen_on sw addr node =
     (case listen_answer sw addr of
        Inl e \<Rightarrow> (Inl (Transport (LibError e)), node)
      | Inr _ \<Rightarrow> (Inr (), node\<lparr>node_listening := node_listening node @ [addr]\<rparr>))"

definition reserve_circuit :: "swarm_answers \<Rightarrow> multiaddr \<Rightarrow> peer_id \<Rightarrow> 'k nux_node \<Rightarrow> client_event list \<Rightarrow>
    ('k nux_node \<times> bool) outcome" where
  "reserve_circuit sw relay_addr relay_peer node evs =
     (case listen_on sw (relay_addr @ [P2pCircuit]) node of
        (Inl _, node) \<Rightarrow> Ready (node, False) evs
      | (Inr _, node) \<Rightarrow> (case timed (wait_for_circuit_reservation relay_peer) evs of
            Pending \<Rightarrow> Pending
          | Ready (Some (Inr _)) rest \<Rightarrow> Ready (node, True) rest
          | Ready _ rest \<Rightarrow> Ready (node, False) rest))"

definition announce :: "swarm_answers \<Rightarrow> peer_id \<Rightarrow> bool \<Rightarrow> string option \<Rightarrow> client_event list \<Rightarrow> registration outcome" where
  "announce sw relay_peer reserved ns evs =
     (case ns of
        None \<Rightarrow> Ready NoRegistration evs
      | Some ns \<Rightarrow>
          if \<not> reserved then Ready NoRegistration evs
          else (case register_namespace (register_answer sw) relay_peer ns evs of
              Pending \<Rightarrow> Pending
            | Ready (Inr _) rest \<Rightarrow> Ready (RegisteredAt relay_peer ns) rest
            | Ready (Inl e) rest \<Rightarrow> Ready (RegistrationFailed e) rest))"

definition join_relay :: "swarm_answers \<Rightarrow> multiaddr \<Rightarrow> string option \<Rightarrow> 'k nux_node \<Rightarrow> client_event list \<Rightarrow>
    (nux_error + 'k nux_node \<times> registration) outcome" where
  "join_relay sw relay_addr ns node evs =
     (case dial_answer sw relay_addr of
        Inl e \<Rightarrow> Ready (Inl (Dial (LibError e))) evs
      | Inr _ \<Rightarrow> (case timed next_connection evs of
            Pending \<Rightarrow> Pending
          | Ready (Some (Inr relay_peer)) rest \<Rightarrow>
              (case reserve_circuit sw relay_addr relay_peer node rest of
                 Pending \<Rightarrow> Pending
               | Ready (node, reserved) rest \<Rightarrow> (case announce sw relay_peer reserved ns rest of
                     Pending \<Rightarrow> Pending
                   | Ready r rest \<Rightarrow> Ready (Inr (node, r)) rest))
          | Ready _ rest \<Rightarrow> Ready (Inr (node, NoRegistration)) rest))"

definition LOCALHOST :: ip_addr where
  "LOCALHOST = V4 0x7F000001"

definition registry_of :: "guard_config \<Rightarrow> tunnel_registry" where
  "registry_of cfg =
     fold (\<lambda>(peer, sha256). require_binary_sha256 peer sha256) (cfg_checksum_bin cfg)
       (fold (\<lambda>(name, port, role). expose name (LOCALHOST, port) role) (cfg_expose cfg) registry_new)"

definition guard_builder :: "guard_config \<Rightarrow> string option \<Rightarrow> (string \<Rightarrow> string option) \<Rightarrow> 'k node_builder" where
  "guard_builder cfg ident env =
     fold rate_limit_exempt (cfg_rate_limit_exempt cfg)
       (inbound_rate_limit (cfg_rate_limit_max cfg) (cfg_rate_limit_window cfg)
         (builder_listen_on (cfg_listen cfg) (cli_builder GuardMode ident env)))"

text \<open>What the command hands to the event loop: the node, the registry and the authority.\<close>

record 'k guard_launch =
  launch_node :: "'k nux_node"
  launch_registry :: tunnel_registry
  launch_authenticator :: guard_authenticator
  launch_registration :: registration

record 'k host =
  host_codec :: "'k key_codec"
  host_fresh_key :: 'k
  host_env :: "string \<Rightarrow> string option"
  host_fs :: fs
  host_stack :: "string + unit"
  host_now :: instant

definition host_build :: "'k host \<Rightarrow> swarm_answers \<Rightarrow> 'k node_builder \<Rightarrow> nux_error + 'k nux_node" where
  "host_build H sw b = build (host_codec H) (host_fresh_key H) (host_env H) (host_fs H) (host_stack H)
     (listen_answer sw) (host_now H) b"

definition guard_command :: "config_lib \<Rightarrow> 'k host \<Rightarrow> swarm_answers \<Rightarrow> string \<Rightarrow> io_error + string \<Rightarrow> string option \<Rightarrow>
    client_event list \<Rightarrow> (nux_error + 'k guard_launch) outcome" where
  "guard_command L H sw path file ident evs =
     (case and_then (load L path file) (\<lambda>cfg. and_then (host_build H sw (guard_builder cfg ident (host_env H))) (\<lambda>node. Inr (cfg, node))) of
        Inl e \<Rightarrow> Ready (Inl e) evs
      | Inr (cfg, node) \<Rightarrow>
          (case (case cfg_relay cfg of None \<Rightarrow> Ready (Inr (node, NoRegistration)) evs
                 | Some relay_addr \<Rightarrow> join_relay sw relay_addr (cfg_namespace cfg) node evs) of
             Pending \<Rightarrow> Pending
           | Ready (Inl e) rest \<Rightarrow> Ready (Inl e) rest
           | Ready (Inr (node, r)) rest \<Rightarrow>
               Ready (Inr \<lparr>launch_node = node, launch_registry = registry_of cfg,
                 launch_authenticator = authenticator_new (cfg_whitelist cfg), launch_registration = r\<rparr>) rest))"

section \<open>The Client\<close>

definition connect_address :: "swarm_answers \<Rightarrow> multiaddr \<Rightarrow> client_event list \<Rightarrow> (nux_error + (peer_id \<times> multiaddr)) outcome" where
  "connect_address sw addr evs =
     (case dial_answer sw addr of
        Inl e \<Rightarrow> Ready (Inl (Dial (LibError e))) evs
      | Inr _ \<Rightarrow> (case target_peer_id addr of
            Some dialled \<Rightarrow> (case wait_for_peer dialled evs of
                Pending \<Rightarrow> Pending
              | Ready (Inl e) rest \<Rightarrow> Ready (Inl e) rest
              | Ready (Inr _) rest \<Rightarrow> Ready (Inr (dialled, addr)) rest)
          | None \<Rightarrow> (case next_connection evs of
                Pending \<Rightarrow> Pending
              | Ready (Inl e) rest \<Rightarrow> Ready (Inl e) rest
              | Ready (Inr p) rest \<Rightarrow> Ready (Inr (p, addr)) rest)))"

definition connect_discover :: "config_lib \<Rightarrow> swarm_answers \<Rightarrow> (peer_id \<Rightarrow> multiaddr \<Rightarrow> string + unit) \<Rightarrow> string \<Rightarrow> multiaddr \<Rightarrow>
    client_event list \<Rightarrow> (nux_error + (peer_id \<times> multiaddr)) outcome" where
  "connect_discover L sw redial ns rz evs =
     (case target_peer_id rz of
        None \<Rightarrow> Ready (Inl (invalid ''rendezvous'' [] ''peer missing'')) evs
      | Some rz_peer \<Rightarrow>
          if \<not> namespace_fits L ns then Ready (Inl (Config (NamespaceTooLong ns))) evs
          else case dial_answer sw rz of
              Inl e \<Rightarrow> Ready (Inl (Dial (LibError e))) evs
            | Inr _ \<Rightarrow> (case wait_for_peer rz_peer evs of
                  Pending \<Rightarrow> Pending
                | Ready (Inl e) rest \<Rightarrow> Ready (Inl e) rest
                | Ready (Inr _) rest \<Rightarrow> discover_and_dial redial rz_peer ns rest))"

definition client_connect :: "config_lib \<Rightarrow> swarm_answers \<Rightarrow> (peer_id \<Rightarrow> multiaddr \<Rightarrow> string + unit) \<Rightarrow> dial_target \<Rightarrow>
    client_event list \<Rightarrow> (nux_error + (peer_id \<times> multiaddr)) outcome" where
  "client_connect L sw redial dialled evs =
     (case dialled of
        Address addr \<Rightarrow> connect_address sw addr evs
      | Discover ns rz \<Rightarrow> connect_discover L sw redial ns rz evs)"

fun bind_ports :: "(u16 \<Rightarrow> io_error + unit) \<Rightarrow> (u16 \<times> string) list \<Rightarrow> nux_error + unit" where
  "bind_ports bind [] = Inr ()"
| "bind_ports bind ((port, srv) # rest) = and_then (map_err Io (bind port)) (\<lambda>_. bind_ports bind rest)"

fun bind_sockets :: "(string \<times> string \<times> u32 list) list \<Rightarrow> fs \<Rightarrow> (nux_error + unit) \<times> fs" where
  "bind_sockets [] s = (Inr (), s)"
| "bind_sockets ((path, srv, uids) # rest) s =
     (case bind_forward_socket path s of
        (Some e, s') \<Rightarrow> (Inl (Io e), s')
      | (None, s') \<Rightarrow> bind_sockets rest s')"

text \<open>Up to the session loop: the Guard, the address to dial again and the roles granted.\<close>

definition client_command :: "config_lib \<Rightarrow> 'k host \<Rightarrow> swarm_answers \<Rightarrow> (peer_id \<Rightarrow> multiaddr \<Rightarrow> string + unit) \<Rightarrow>
    ('k \<Rightarrow> bytes \<Rightarrow> string + bytes) \<Rightarrow> u64 option \<Rightarrow> (peer_id \<Rightarrow> bool) \<Rightarrow> (u16 \<Rightarrow> io_error + unit) \<Rightarrow>
    dial_target \<Rightarrow> string option \<Rightarrow> (u16 \<times> string) list \<Rightarrow> (string \<times> string \<times> u32 list) list \<Rightarrow>
    client_event list \<Rightarrow> (nux_error + (peer_id \<times> multiaddr \<times> role list)) outcome \<times> fs" where
  "client_command L H sw redial sign now connected bind dialled ident forward forward_unix evs =
     (case host_build H sw (cli_builder ClientMode ident (host_env H)) of
        Inl e \<Rightarrow> (Ready (Inl e) evs, host_fs H)
      | Inr node \<Rightarrow> (case client_connect L sw redial dialled evs of
            Pending \<Rightarrow> (Pending, host_fs H)
          | Ready (Inl e) rest \<Rightarrow> (Ready (Inl e) rest, host_fs H)
          | Ready (Inr (guard_peer, guard_addr)) rest \<Rightarrow>
              (case authenticate (sign (node_keypair node)) now (connected guard_peer) guard_peer 0 rest of
                 (_, _, Pending) \<Rightarrow> (Pending, host_fs H)
               | (_, _, Ready (Inl e) rest) \<Rightarrow> (Ready (Inl e) rest, host_fs H)
               | (_, _, Ready (Inr rs) rest) \<Rightarrow> (case bind_ports bind forward of
                     Inl e \<Rightarrow> (Ready (Inl e) rest, host_fs H)
                   | Inr _ \<Rightarrow> (case bind_sockets forward_unix (host_fs H) of
                         (Inl e, s') \<Rightarrow> (Ready (Inl e) rest, s')
                       | (Inr _, s') \<Rightarrow> (Ready (Inr (guard_peer, guard_addr, rs)) rest, s'))))))"

section \<open>Timers\<close>

lemma timed_Some:
  "timed f evs = Ready (Some a) rest \<Longrightarrow> \<exists>before after r. evs = before @ after \<and> f before = Ready a r \<and> rest = r @ after"
  by (auto simp: timed_def Let_def split: outcome.splits list.splits)
    (metis takeWhile_dropWhile_id)

lemma timed_prefix:
  assumes "timed f evs = Ready (Some a) rest" "\<And>evs rest. f evs = Ready a rest \<Longrightarrow> \<exists>e. evs = e @ x # rest"
  shows "\<exists>e. evs = e @ x # rest"
  using timed_Some [OF assms(1)] assms(2) by fastforce

section \<open>The registry\<close>

lemma registry_of_fields:
  "services (registry_of cfg) = fold (\<lambda>(k, v). hm_insert k v)
     (map (\<lambda>(name, port, role). (name, \<lparr>target = (LOCALHOST, port), required_role = role\<rparr>)) (cfg_expose cfg)) hm_empty"
  "attested_binaries (registry_of cfg) = fold (\<lambda>(k, v). hm_insert k v) (cfg_checksum_bin cfg) hm_empty"
proof -
  have sums: "services (fold (\<lambda>(peer, sha256). require_binary_sha256 peer sha256) cs G) = services G \<and>
      attested_binaries (fold (\<lambda>(peer, sha256). require_binary_sha256 peer sha256) cs G) =
        fold (\<lambda>(k, v). hm_insert k v) cs (attested_binaries G)" for cs G
    by (induction cs arbitrary: G) (auto simp: require_binary_sha256_def)
  have exposes: "services (fold (\<lambda>(name, port, role). expose name (LOCALHOST, port) role) es G) =
      fold (\<lambda>(k, v). hm_insert k v) (map (\<lambda>(name, port, role). (name, \<lparr>target = (LOCALHOST, port), required_role = role\<rparr>)) es)
        (services G) \<and>
      attested_binaries (fold (\<lambda>(name, port, role). expose name (LOCALHOST, port) role) es G) = attested_binaries G" for es G
    by (induction es arbitrary: G) (auto simp: expose_def)
  show "services (registry_of cfg) = fold (\<lambda>(k, v). hm_insert k v)
      (map (\<lambda>(name, port, role). (name, \<lparr>target = (LOCALHOST, port), required_role = role\<rparr>)) (cfg_expose cfg)) hm_empty"
    and "attested_binaries (registry_of cfg) = fold (\<lambda>(k, v). hm_insert k v) (cfg_checksum_bin cfg) hm_empty"
    by (simp_all add: registry_of_def sums exposes registry_new_def)
qed

lemma registry_of_get:
  assumes "distinct (map fst (cfg_expose cfg))"
  shows "registry_get (registry_of cfg) name = Some srv \<longleftrightarrow>
    (\<exists>port role. (name, port, role) \<in> set (cfg_expose cfg) \<and> srv = \<lparr>target = (LOCALHOST, port), required_role = role\<rparr>)"
proof -
  let ?es = "map (\<lambda>(name, port, role). (name, \<lparr>target = (LOCALHOST, port), required_role = role\<rparr>)) (cfg_expose cfg)"
  have "map fst ?es = map fst (cfg_expose cfg)" by auto
  then have "distinct (map fst (rev ?es))" using assms by (metis rev_map distinct_rev)
  then have "map_of (rev ?es) name = Some srv \<longleftrightarrow> (name, srv) \<in> set ?es"
    using map_of_eq_Some_iff [of "rev ?es"] by (simp del: set_map)
  moreover have "(name, srv) \<in> set ?es \<longleftrightarrow>
      (\<exists>port role. (name, port, role) \<in> set (cfg_expose cfg) \<and> srv = \<lparr>target = (LOCALHOST, port), required_role = role\<rparr>)"
    by force
  ultimately show ?thesis
    by (simp only: registry_get_def registry_of_fields hm.get_fold_insert_empty)
qed

lemma guard_builder_fields:
  "b_listen_addrs (guard_builder cfg ident env) = [cfg_listen cfg]"
  "b_rate_limit_max (guard_builder cfg ident env) = cfg_rate_limit_max cfg"
  "b_rate_limit_window (guard_builder cfg ident env) = cfg_rate_limit_window cfg"
  "b_rate_limit_exempt (guard_builder cfg ident env) = cfg_rate_limit_exempt cfg"
  "b_mode (guard_builder cfg ident env) = GuardMode"
  "b_identity (guard_builder cfg ident env) = b_identity (cli_builder GuardMode ident env)"
  by (simp_all add: guard_builder_def fold_rate_limit_exempt builder_setters cli_builder_def builder_new_def Let_def
      split: option.split)

text \<open>The relay is joined when the connection comes before a failure and before the timer.\<close>

fun connects :: "client_event list \<Rightarrow> bool" where
  "connects [] = False"
| "connects (ev # evs) = (case ev of
     ConnEstablished _ \<Rightarrow> True | OutgoingError _ _ \<Rightarrow> False | TimeoutElapsed \<Rightarrow> False | _ \<Rightarrow> connects evs)"

lemma timed_next_connection:
  "(\<exists>p rest. timed next_connection evs = Ready (Some (Inr p)) rest) \<longleftrightarrow> connects evs"
  by (induction evs) (auto simp: timed_def Let_def split: client_event.splits outcome.splits list.splits sum.splits)

text \<open>All that joining the relay changes of the node.\<close>

lemma join_relay_node:
  assumes "join_relay sw relay_addr ns node evs = Ready (Inr (node', r)) rest"
  shows "node' = (if connects evs \<and> is_ok (listen_answer sw (relay_addr @ [P2pCircuit]))
    then node\<lparr>node_listening := node_listening node @ [relay_addr @ [P2pCircuit]]\<rparr> else node)"
proof (cases "connects evs")
  case True
  then obtain p rest1 where "timed next_connection evs = Ready (Some (Inr p)) rest1" using timed_next_connection by blast
  with assms True show ?thesis
    by (auto simp: join_relay_def reserve_circuit_def listen_on_def split: sum.splits outcome.splits option.splits prod.splits)
next
  case False
  then have "timed next_connection evs \<noteq> Ready (Some (Inr p)) rest1" for p rest1 using timed_next_connection by blast
  with assms False show ?thesis
    by (auto simp: join_relay_def split: sum.splits outcome.splits option.splits)
qed

lemma guard_command_Inr:
  assumes "guard_command L H sw path file ident evs = Ready (Inr G) rest"
  obtains cfg node where "load L path file = Inr cfg" "host_build H sw (guard_builder cfg ident (host_env H)) = Inr node"
    "launch_node G = (case cfg_relay cfg of
       Some a \<Rightarrow> if connects evs \<and> is_ok (listen_answer sw (a @ [P2pCircuit]))
         then node\<lparr>node_listening := node_listening node @ [a @ [P2pCircuit]]\<rparr> else node
     | None \<Rightarrow> node)"
    "launch_registry G = registry_of cfg" "launch_authenticator G = authenticator_new (cfg_whitelist cfg)"
  using assms
  by (auto simp: guard_command_def and_then_Inr_iff split: sum.splits outcome.splits option.splits dest!: join_relay_node)

lemma bind_sockets_ok:
  "bind_sockets fws s = (Inr (), s') \<Longrightarrow>
     (\<forall>(path, srv, uids) \<in> set fws. inodes s' path = Some \<lparr>file_kind = SocketFile, perm = 0x180\<rparr>) \<and>
     (\<forall>q. inodes s q = Some \<lparr>file_kind = SocketFile, perm = 0x180\<rparr> \<longrightarrow> inodes s' q = inodes s q)"
proof (induction fws s rule: bind_sockets.induct)
  case (1 s)
  then show ?case by simp
next
  case (2 path srv uids fws s)
  then obtain s1 where s1: "bind_forward_socket path s = (None, s1)" "bind_sockets fws s1 = (Inr (), s')"
    by (auto split: prod.splits option.splits)
  from bind_cases [OF s1(1)] "2.IH" [OF s1(1)[symmetric] refl s1(2)] show ?case by (auto; metis)
qed


lemma dial_addresses_rest: "dial_addresses redial cands evs = Ready r rest \<Longrightarrow> set rest \<subseteq> set evs"
proof (induction redial cands evs rule: dial_addresses.induct)
  case (1 redial evs)
  then show ?case by simp
next
  case (2 redial peer addr cands evs)
  show ?case
  proof (cases "redial peer addr")
    case (Inl e)
    with 2 show ?thesis by auto
  next
    case (Inr u)
    then obtain b rest' where joined: "joined_in_time peer evs = Ready b rest'"
      using "2.prems" by (cases "joined_in_time peer evs") auto
    from joined_in_time_True [OF joined] have "set rest' \<subseteq> set evs" by auto
    with 2 Inr joined show ?thesis by (cases b) auto
  qed
qed

definition target_honoured :: "dial_target \<Rightarrow> peer_id \<Rightarrow> multiaddr \<Rightarrow> client_event list \<Rightarrow> bool" where
  "target_honoured dialled p a evs = (case dialled of
     Address addr \<Rightarrow> a = addr \<and> (case target_peer_id addr of Some t \<Rightarrow> p = t | None \<Rightarrow> True)
   | Discover ns rz \<Rightarrow> \<exists>q regs addrs. target_peer_id rz = Some q \<and> RdvDiscovered q regs \<in> set evs \<and>
       (p, addrs) \<in> set regs \<and> a \<in> set addrs)"

lemma connect_address_ok:
  "connect_address sw addr evs = Ready (Inr (p, a)) rest \<Longrightarrow>
     set rest \<subseteq> set evs \<and> ConnEstablished p \<in> set evs \<and> target_honoured (Address addr) p a evs"
  by (auto simp: connect_address_def target_honoured_def split: sum.splits option.splits outcome.splits
      dest!: wait_for_peer_ok next_connection_ok)

lemma connect_discover_ok:
  assumes "connect_discover L sw redial ns rz evs = Ready (Inr (p, a)) rest"
  shows "set rest \<subseteq> set evs \<and> ConnEstablished p \<in> set evs \<and> target_honoured (Discover ns rz) p a evs"
proof -
  obtain q rest1 where q: "target_peer_id rz = Some q" "wait_for_peer q evs = Ready (Inr ()) rest1"
    "discover_and_dial redial q ns rest1 = Ready (Inr (p, a)) rest"
    using assms by (auto simp: connect_discover_def split: sum.splits option.splits outcome.splits if_splits)
  from wait_for_peer_ok [OF q(2)] have sub1: "set rest1 \<subseteq> set evs" by auto
  from q(3) obtain regs rest2 where d: "await_discovered q rest1 = Ready (Inr regs) rest2"
    "dial_addresses redial (concat (map (\<lambda>(p, addrs). map (Pair p) addrs) regs)) rest2 = Ready (Some (p, a)) rest"
    by (auto simp: discover_and_dial_def split: outcome.splits sum.splits if_splits option.splits)
  from await_discovered_ok [OF d(1)] have sub2: "set rest2 \<subseteq> set rest1" "RdvDiscovered q regs \<in> set rest1" by auto
  from dial_addresses_Some [OF d(2)] dial_addresses_rest [OF d(2)] sub1 sub2 q(1) show ?thesis
    by (auto simp: target_honoured_def)
qed

lemma authenticate_granted:
  assumes "authenticate sign now c g n evs = (sent, n', Ready (Inr rs) rest)"
  shows "AuthResponse g (Suc n) (AccessGranted rs) \<in> set evs"
proof -
  obtain rest1 where "(if c then Ready (Inr ()) evs else wait_for_peer g evs) = Ready (Inr ()) rest1"
    and loop: "handshake_loop sign now g n False (Suc n) [(n, g, HandshakeInit)] rest1 = (sent, n', Ready (Inr rs) rest)"
    using assms by (auto simp: authenticate_def split: outcome.splits sum.splits)
  then have "set rest1 \<subseteq> set evs" using wait_for_peer_prefix [of g evs] by (cases c) auto
  with handshake_loop_fresh [OF loop] show ?thesis by auto
qed

section \<open>Properties\<close>

text \<open>C22 (the command \<^verbatim>\<open>guard\<close>): the Guard that starts is the one the file describes. It limits inbound
  connections with the file's limit, window and exemptions; it listens on the file's address and, when the file names a relay that is
  reached in time and the transport takes the request, on the circuit through that relay, and nowhere else; a name
  resolves to a service exactly when the file exposes it, at that port of the loopback interface and
  with that role; the fingerprint required of a peer is the last one the file gives it; and the
  authority starts from the file's whitelist with no session open.\<close>

theorem guard_serves_its_configuration:
  assumes "guard_command L H sw path file ident evs = Ready (Inr G) rest"
  shows "\<exists>cfg. load L path file = Inr cfg \<and>
    node_limiter (launch_node G) =
      with_exemptions (cfg_rate_limit_max cfg) (cfg_rate_limit_window cfg) (cfg_rate_limit_exempt cfg) (host_now H) \<and>
    node_listening (launch_node G) = cfg_listen cfg # (case cfg_relay cfg of
       Some a \<Rightarrow> if connects evs \<and> is_ok (listen_answer sw (a @ [P2pCircuit])) then [a @ [P2pCircuit]] else []
     | None \<Rightarrow> []) \<and>
    node_mode_of (launch_node G) = GuardMode \<and>
    (\<forall>name srv. registry_get (launch_registry G) name = Some srv \<longleftrightarrow>
       (\<exists>port role. (name, port, role) \<in> set (cfg_expose cfg) \<and> srv = \<lparr>target = (LOCALHOST, port), required_role = role\<rparr>)) \<and>
    (\<forall>p. expected_binary_sha256 (launch_registry G) p = map_of (rev (cfg_checksum_bin cfg)) p) \<and>
    whitelist (launch_authenticator G) = cfg_whitelist cfg \<and> authenticated_peers (launch_authenticator G) = []"
proof -
  obtain cfg node where c: "load L path file = Inr cfg" "host_build H sw (guard_builder cfg ident (host_env H)) = Inr node"
    "launch_node G = (case cfg_relay cfg of
       Some a \<Rightarrow> if connects evs \<and> is_ok (listen_answer sw (a @ [P2pCircuit]))
         then node\<lparr>node_listening := node_listening node @ [a @ [P2pCircuit]]\<rparr> else node
     | None \<Rightarrow> node)" "launch_registry G = registry_of cfg" "launch_authenticator G = authenticator_new (cfg_whitelist cfg)"
    using assms by (rule guard_command_Inr)
  have "distinct (map fst (cfg_expose cfg))"
    using c(1) by (auto simp: load_Inr validate_Inr load_expose_Inr comp_def)
  from registry_of_get [OF this] have services: "registry_get (registry_of cfg) name = Some srv \<longleftrightarrow>
      (\<exists>port role. (name, port, role) \<in> set (cfg_expose cfg) \<and> srv = \<lparr>target = (LOCALHOST, port), required_role = role\<rparr>)"
    for name srv .
  have sums: "expected_binary_sha256 (registry_of cfg) p = map_of (rev (cfg_checksum_bin cfg)) p" for p
    by (simp add: expected_binary_sha256_def registry_of_fields hm.get_fold_insert_empty)
  have node: "node_limiter (launch_node G) =
      with_exemptions (cfg_rate_limit_max cfg) (cfg_rate_limit_window cfg) (cfg_rate_limit_exempt cfg) (host_now H) \<and>
    node_listening (launch_node G) = cfg_listen cfg # (case cfg_relay cfg of
       Some a \<Rightarrow> if connects evs \<and> is_ok (listen_answer sw (a @ [P2pCircuit])) then [a @ [P2pCircuit]] else []
     | None \<Rightarrow> []) \<and>
    node_mode_of (launch_node G) = GuardMode"
  proof -
    have "node_limiter node = with_exemptions (cfg_rate_limit_max cfg) (cfg_rate_limit_window cfg) (cfg_rate_limit_exempt cfg) (host_now H)"
      "node_listening node = [cfg_listen cfg]" "node_mode_of node = GuardMode"
      using c(2) by (cases node; simp add: host_build_def build_Inr guard_builder_fields)+
    then show ?thesis by (auto simp: c(3) split: option.split)
  qed
  have auth: "authenticated_peers (launch_authenticator G) = []" "whitelist (launch_authenticator G) = cfg_whitelist cfg"
    by (simp_all add: c(5) authenticator_new_def authenticated_peers_def hm_keys_def hm_empty_def)
  show ?thesis
    using c(1) node auth by (intro exI [of _ cfg] conjI allI) (simp_all only: c(4) services sums)
qed

definition sample_host :: "bytes host" where
  "sample_host = \<lparr>host_codec = sample_codec, host_fresh_key = [7], host_env = (\<lambda>_. None), host_fs = sample_fs,
     host_stack = Inr (), host_now = 0\<rparr>"

definition sample_swarm :: swarm_answers where
  "sample_swarm = \<lparr>dial_answer = (\<lambda>_. Inr ()), listen_answer = (\<lambda>_. Inr ()), register_answer = Inr ()\<rparr>"

lemma sample_guard_starts:
  "\<exists>G. guard_command sample_lib sample_host sample_swarm ''guard.toml'' sample_file None [] = Ready (Inr G) []"
proof -
  obtain cfg where cfg: "load sample_lib ''guard.toml'' sample_file = Inr cfg" using sample_load by blast
  then have "cfg_relay cfg = None"
    by (auto simp: load_Inr validate_Inr sample_file_def sample_parse sample_config)
  moreover have "is_ok (host_build sample_host sample_swarm (guard_builder cfg None (host_env sample_host)))"
    by (simp add: host_build_def build_def sample_host_def sample_swarm_def guard_builder_fields cli_builder_def
        builder_setters builder_new_def resolve_identity_def)
  ultimately show ?thesis
    using cfg by (auto simp: guard_command_def is_ok_iff)
qed

theorem guard_serves_its_configuration_witness:
  "\<exists>G. guard_command sample_lib sample_host sample_swarm ''guard.toml'' sample_file None [] = Ready (Inr G) [] \<and>
     registry_get (launch_registry G) ''db'' = None"
proof -
  obtain G where G: "guard_command sample_lib sample_host sample_swarm ''guard.toml'' sample_file None [] = Ready (Inr G) []"
    using sample_guard_starts by blast
  from guard_serves_its_configuration [OF this] obtain cfg where cfg: "load sample_lib ''guard.toml'' sample_file = Inr cfg"
    "\<And>name srv. registry_get (launch_registry G) name = Some srv \<longleftrightarrow>
       (\<exists>port role. (name, port, role) \<in> set (cfg_expose cfg) \<and> srv = \<lparr>target = (LOCALHOST, port), required_role = role\<rparr>)"
    by blast
  then have "cfg_expose cfg = []"
    by (auto simp: load_Inr validate_Inr sample_file_def sample_parse sample_config)
  with cfg(2) [of "''db''"] G show ?thesis by (metis list.set(1) empty_iff not_None_eq)
qed

text \<open>The command \<^verbatim>\<open>guard\<close>, relay: the relay is optional. Joining it fails only if the dial is refused on the spot;
  an unreachable relay, a refused or late reservation and a refused registration leave the Guard
  starting. It registers a name only with the relay it is connected to, only under the configured
  name, and only after that relay has accepted its reservation.\<close>

theorem relay_is_optional:
  assumes "join_relay sw addr ns node evs = Ready r rest"
  shows "(is_ok r \<longleftrightarrow> is_ok (dial_answer sw addr)) \<and>
    (\<forall>node' p n. r = Inr (node', RegisteredAt p n) \<longrightarrow> ns = Some n \<and>
       (\<exists>e1 e2 e3. evs = e1 @ ConnEstablished p # e2 @ ReservationAccepted p # e3 @ RdvRegistered p n # rest))"
proof (intro conjI allI impI)
  show "is_ok r \<longleftrightarrow> is_ok (dial_answer sw addr)"
    using assms by (auto simp: join_relay_def split: sum.splits outcome.splits option.splits prod.splits)
next
  fix node' p n
  assume "r = Inr (node', RegisteredAt p n)"
  with assms obtain rest1 rest2 where s: "timed next_connection evs = Ready (Some (Inr p)) rest1"
    "reserve_circuit sw addr p node rest1 = Ready (node', True) rest2" "ns = Some n"
    "register_namespace (register_answer sw) p n rest2 = Ready (Inr ()) rest"
    by (auto simp: join_relay_def announce_def split: sum.splits outcome.splits option.splits prod.splits if_splits)
  obtain e1 where e1: "evs = e1 @ ConnEstablished p # rest1"
    using timed_prefix [OF s(1) next_connection_ok] by blast
  have "timed (wait_for_circuit_reservation p) rest1 = Ready (Some (Inr ())) rest2"
    using s(2) by (auto simp: reserve_circuit_def split: sum.splits outcome.splits option.splits prod.splits)
  then have "\<exists>e2. rest1 = e2 @ ReservationAccepted p # rest2"
    by (rule timed_prefix) (rule reservation_ok)
  then obtain e2 where e2: "rest1 = e2 @ ReservationAccepted p # rest2" by blast
  have "await_registered p n rest2 = Ready (Inr ()) rest"
    using s(4) by (auto simp: register_namespace_def split: sum.splits)
  from registered_ok [OF this] obtain e3 where e3: "rest2 = e3 @ RdvRegistered p n # rest" by blast
  show "ns = Some n" by (rule s(3))
  show "\<exists>e1 e2 e3. evs = e1 @ ConnEstablished p # e2 @ ReservationAccepted p # e3 @ RdvRegistered p n # rest"
    using e1 e2 e3 by blast
qed

theorem relay_is_optional_witness:
  "\<exists>e1 e2 e3. [ConnEstablished (PeerId [8]), ReservationAccepted (PeerId [8]), RdvRegistered (PeerId [8]) ''db''] =
     e1 @ ConnEstablished (PeerId [8]) # e2 @ ReservationAccepted (PeerId [8]) # e3 @ RdvRegistered (PeerId [8]) ''db'' # []"
proof -
  have "join_relay sample_swarm [Tcp 1] (Some ''db'') node
      [ConnEstablished (PeerId [8]), ReservationAccepted (PeerId [8]), RdvRegistered (PeerId [8]) ''db''] =
    Ready (Inr (node\<lparr>node_listening := node_listening node @ [[Tcp 1, P2pCircuit]]\<rparr>, RegisteredAt (PeerId [8]) ''db'')) []" for node :: "bytes nux_node"
    by (simp add: join_relay_def reserve_circuit_def listen_on_def announce_def register_namespace_def timed_def sample_swarm_def)
  from relay_is_optional [OF this] show ?thesis by blast
qed


text \<open>C23 (the command \<^verbatim>\<open>client\<close>): a Client that reaches its session loop is connected to the peer it was told
  to reach: the peer its address names, or one that the rendezvous point named in the argument announced
  with that address. That very peer granted the roles, and every Unix redirection has its private socket.\<close>

theorem client_reaches_the_named_guard:
  assumes "client_command L H sw redial sign now connected bind dialled ident fws fwus evs = (Ready (Inr (p, a, rs)) rest, s')"
  shows "ConnEstablished p \<in> set evs \<and> AuthResponse p 1 (AccessGranted rs) \<in> set evs \<and>
    target_honoured dialled p a evs \<and>
    (\<forall>(path, srv, uids) \<in> set fwus. inodes s' path = Some \<lparr>file_kind = SocketFile, perm = 0x180\<rparr>)"
proof -
  from assms obtain k rest1 sent n' where s: "client_connect L sw redial dialled evs = Ready (Inr (p, a)) rest1"
    "authenticate (sign k) now (connected p) p 0 rest1 = (sent, n', Ready (Inr rs) rest)"
    "bind_sockets fwus (host_fs H) = (Inr (), s')"
    by (auto simp: client_command_def split: sum.splits outcome.splits prod.splits)
  from s(1) have "set rest1 \<subseteq> set evs \<and> ConnEstablished p \<in> set evs \<and> target_honoured dialled p a evs"
    unfolding client_connect_def
    using connect_address_ok connect_discover_ok by (cases dialled) fastforce+
  with authenticate_granted [OF s(2)] bind_sockets_ok [OF s(3)] show ?thesis by auto
qed

definition sample_session :: "client_event list" where
  "sample_session = [ConnEstablished (PeerId [9]), AuthResponse (PeerId [9]) 0 (Challenge [7] 100),
     AuthResponse (PeerId [9]) 1 (AccessGranted [''admin''])]"

lemma sample_client_runs:
  "\<exists>s'. client_command sample_lib sample_host sample_swarm (\<lambda>_ _. Inr ()) (\<lambda>_. sample_sign) (Some 101) (\<lambda>_. True) (\<lambda>_. Inr ())
     (Address [Tcp 1, P2p (PeerId [9])]) None [] [] sample_session = (Ready (Inr (PeerId [9], [Tcp 1, P2p (PeerId [9])], [''admin''])) [], s')"
  by (simp add: client_command_def host_build_def build_def cli_builder_def builder_setters builder_new_def
      resolve_identity_def sample_host_def sample_swarm_def client_connect_def connect_address_def target_peer_id_def
      sample_session_def authenticate_def on_response_def answer_challenge_def sample_sign_def Let_def)

theorem client_reaches_the_named_guard_witness:
  "target_honoured (Address [Tcp 1, P2p (PeerId [9])]) (PeerId [9]) [Tcp 1, P2p (PeerId [9])] sample_session"
  using sample_client_runs client_reaches_the_named_guard by blast

end
