(* ===== verification/Sync_Config.thy ===== *)
theory Sync_Config imports Guard_Config Auth begin

text \<open>
  The command \<^verbatim>\<open>sync-config\<close> of \<^verbatim>\<open>crates/nux-cli/src/main.rs\<close> and the other end of its signal: the
  poll of the Gateway, the rewriting of the file, \<^verbatim>\<open>SIGHUP\<close>, and the reload of the whitelist by the Guard.

  The HTTP client, the JSON decoder, the parser of process identifiers and \<^verbatim>\<open>kill\<close> are arguments.
\<close>

text \<open>\<^verbatim>\<open>http_get\<close> answers a URL with an error, or a status and a body.\<close>

definition config_url :: "u16 \<Rightarrow> string \<Rightarrow> string" where
  "config_url gateway_port uuid =
     ''http://127.0.0.1:'' @ decimal (unat gateway_port) @ ''/api/v1/private/configs/'' @ uuid"

definition is_success :: "nat \<Rightarrow> bool" where
  "is_success status \<longleftrightarrow> 200 \<le> status \<and> status < 300"

definition fetch_remote_config :: "(string \<Rightarrow> string + remote_config) \<Rightarrow> (string \<Rightarrow> string + (nat \<times> string)) \<Rightarrow>
    u16 \<Rightarrow> string \<Rightarrow> nux_error + remote_config" where
  "fetch_remote_config json http_get gateway_port uuid =
     and_then (map_err (\<lambda>e. Network (LibError e)) (http_get (config_url gateway_port uuid))) (\<lambda>(status, body).
       if \<not> is_success status then Inl (Network (LibError (decimal status)))
       else map_err (\<lambda>e. Network (LibError e)) (json body))"

definition send_sighup :: "(int \<Rightarrow> int option) \<Rightarrow> (int \<Rightarrow> string + unit) \<Rightarrow> int \<Rightarrow> nux_error + unit" where
  "send_sighup pid_from_raw kill pid =
     and_then (ok_or (invalid ''pid'' [] []) (pid_from_raw pid)) (\<lambda>p.
       map_err (\<lambda>e. invalid ''kill'' [] e) (kill p))"

text \<open>One turn of the loop: what the Gateway answers, whether the rewriting fails, whether the signal
  gets through, and whether a shutdown signal ends the sleep.\<close>

record poll =
  answer :: "nux_error + remote_config"
  write_fails :: "(io_error \<times> string) option"
  hup_result :: "nux_error + unit"
  stops :: bool

record sync_state =
  last_updated_at :: "string option"
  conf :: "io_error + string"
  applied :: "remote_config list"
  hups :: nat

text \<open>\<open>applied\<close> lists the configurations written so far, \<open>hups\<close> counts the signals that got through.\<close>

definition sync_turn :: "config_lib \<Rightarrow> string \<Rightarrow> poll \<Rightarrow> sync_state \<Rightarrow> sync_state" where
  "sync_turn L path p s =
     (case answer p of
        Inl _ \<Rightarrow> s
      | Inr remote \<Rightarrow>
          if last_updated_at s = Some (updated_at remote) then s
          else (case apply_remote_config L path remote (write_fails p) (conf s) of
              (Inl _, f) \<Rightarrow> s\<lparr>conf := f\<rparr>
            | (Inr _, f) \<Rightarrow> s\<lparr>conf := f, last_updated_at := Some (updated_at remote), applied := applied s @ [remote],
                hups := (if is_ok (hup_result p) then Suc (hups s) else hups s)\<rparr>))"

fun sync_config_loop :: "config_lib \<Rightarrow> string \<Rightarrow> poll list \<Rightarrow> sync_state \<Rightarrow> sync_state" where
  "sync_config_loop L path [] s = s"
| "sync_config_loop L path (p # ps) s =
     (let s' = sync_turn L path p s in if stops p then s' else sync_config_loop L path ps s')"

definition sync_start :: "io_error + string \<Rightarrow> sync_state" where
  "sync_start f = \<lparr>last_updated_at = None, conf = f, applied = [], hups = 0\<rparr>"

text \<open>The Guard's side: what each \<^verbatim>\<open>SIGHUP\<close> finds in the file, and whether the control channel still has
  its receiver. The whitelists sent, in order.\<close>

fun reload_on_sighup :: "config_lib \<Rightarrow> string \<Rightarrow> ((io_error + string) \<times> bool) list \<Rightarrow> whitelist list" where
  "reload_on_sighup L path [] = []"
| "reload_on_sighup L path ((f, received) # rest) =
     (case load L path f of
        Inr cfg \<Rightarrow> if received then cfg_whitelist cfg # reload_on_sighup L path rest else []
      | Inl _ \<Rightarrow> reload_on_sighup L path rest)"

section \<open>The invariant of the loop\<close>

definition sync_inv :: "sync_state \<Rightarrow> bool" where
  "sync_inv s \<longleftrightarrow> successively (\<lambda>r r'. updated_at r \<noteq> updated_at r') (applied s) \<and>
     last_updated_at s = (if applied s = [] then None else Some (updated_at (last (applied s)))) \<and>
     hups s \<le> length (applied s)"

lemma sync_inv_start: "sync_inv (sync_start f)"
  by (simp add: sync_inv_def sync_start_def)

lemma sync_inv_turn: "sync_inv s \<Longrightarrow> sync_inv (sync_turn L path p s)"
  by (auto simp: sync_inv_def sync_turn_def successively_append_iff split: sum.splits prod.splits if_splits)

lemma sync_inv_loop: "sync_inv s \<Longrightarrow> sync_inv (sync_config_loop L path ps s)"
  by (induction ps arbitrary: s) (simp_all add: Let_def sync_inv_turn)

lemma applied_grows: "\<exists>new. applied (sync_config_loop L path ps s) = applied s @ new \<and>
    set new \<subseteq> {r. \<exists>p \<in> set ps. answer p = Inr r}"
proof (induction ps arbitrary: s)
  case Nil
  then show ?case by simp
next
  case (Cons p ps)
  obtain n1 where n1: "applied (sync_turn L path p s) = applied s @ n1" "set n1 \<subseteq> {r. answer p = Inr r}"
    by (cases "applied (sync_turn L path p s) = applied s")
      (auto simp: sync_turn_def split: sum.splits prod.splits if_splits)
  from Cons.IH [of "sync_turn L path p s"] n1 show ?case by (fastforce simp: Let_def)
qed

lemma merged_merged [simp]: "merged r (merged r' raw) = merged r raw"
  by (simp add: merged_def)

definition holds_config :: "config_lib \<Rightarrow> string \<Rightarrow> raw_config \<Rightarrow> sync_state \<Rightarrow> bool" where
  "holds_config L path raw s \<longleftrightarrow> (\<exists>contents d. conf s = Inr contents \<and> toml_parse L contents = Inr d \<and>
     de_config d = Inr (if applied s = [] then raw else merged (last (applied s)) raw))"

lemma holds_config_turn:
  assumes "toml_ok L" "holds_config L path raw s" "write_fails p = None"
  shows "holds_config L path raw (sync_turn L path p s)"
proof (cases "sync_turn L path p s = s")
  case True
  with assms(2) show ?thesis by simp
next
  case False
  obtain contents d where d: "conf s = Inr contents" "toml_parse L contents = Inr d"
    "de_config d = Inr (if applied s = [] then raw else merged (last (applied s)) raw)"
    using assms(2) by (auto simp: holds_config_def)
  from False obtain remote where r: "answer p = Inr remote" "last_updated_at s \<noteq> Some (updated_at remote)"
    by (auto simp: sync_turn_def split: sum.splits if_splits)
  from de_config_merged [OF assms(1) d(2,3), of remote] obtain d' where
    "toml_parse L (toml_print L (edit_doc remote d)) = Inr d'" "de_config d' = Inr (merged remote raw)"
    by (auto split: if_splits)
  with d r show ?thesis
    by (simp add: holds_config_def sync_turn_def apply_remote_config_def read_doc_def assms(3))
qed

lemma holds_config_loop:
  "toml_ok L \<Longrightarrow> holds_config L path raw s \<Longrightarrow> list_all (\<lambda>p. write_fails p = None) ps \<Longrightarrow>
     holds_config L path raw (sync_config_loop L path ps s)"
  by (induction ps arbitrary: s) (simp_all add: Let_def holds_config_turn)

section \<open>Properties\<close>

definition sample_poll :: "remote_config \<Rightarrow> poll" where
  "sample_poll r = \<lparr>answer = Inr r, write_fails = None, hup_result = Inr (), stops = False\<rparr>"

text \<open>C27 (\<^verbatim>\<open>sync-config\<close>): however long it polls, the loop applies only configurations the Gateway answered,
  never the same version twice in a row, and signals the Guard at most once for each application. As long as
  its writes succeed, the file always reads as the operator's own settings with the sections of the
  last configuration applied: earlier ones leave no trace.\<close>

theorem sync_config_converges:
  assumes "toml_ok L" "toml_parse L contents = Inr d" "de_config d = Inr raw"
    and "list_all (\<lambda>p. write_fails p = None) ps"
    and "s = sync_config_loop L path ps (sync_start (Inr contents))"
  shows "set (applied s) \<subseteq> {r. \<exists>p \<in> set ps. answer p = Inr r} \<and>
    successively (\<lambda>r r'. updated_at r \<noteq> updated_at r') (applied s) \<and> hups s \<le> length (applied s) \<and>
    and_then (map_err (\<lambda>_. ''unreadable'') (read_doc L path (conf s))) de_config =
      Inr (if applied s = [] then raw else merged (last (applied s)) raw)"
proof -
  have "sync_inv s" unfolding assms(5) by (rule sync_inv_loop [OF sync_inv_start])
  moreover have "set (applied s) \<subseteq> {r. \<exists>p \<in> set ps. answer p = Inr r}"
    using applied_grows [of L path ps "sync_start (Inr contents)"] unfolding assms(5) by (auto simp: sync_start_def)
  moreover have "holds_config L path raw (sync_start (Inr contents))"
    using assms(2,3) by (simp add: holds_config_def sync_start_def)
  then have "holds_config L path raw s"
    unfolding assms(5) by (rule holds_config_loop [OF assms(1) _ assms(4)])
  ultimately show ?thesis
    by (auto simp: sync_inv_def holds_config_def read_doc_def)
qed

theorem sync_config_converges_witness:
  "\<exists>s. s = sync_config_loop sample_lib ''guard.toml'' [sample_poll sample_remote, sample_poll sample_remote]
        (sync_start (Inr (enumerated_print sample_doc))) \<and>
     and_then (map_err (\<lambda>_. ''unreadable'') (read_doc sample_lib ''guard.toml'' (conf s))) de_config =
       Inr (if applied s = [] then projr (de_config sample_doc) else merged (last (applied s)) (projr (de_config sample_doc)))"
proof -
  have "de_config sample_doc = Inr (projr (de_config sample_doc))"
    "list_all (\<lambda>p. write_fails p = None) [sample_poll sample_remote, sample_poll sample_remote]"
    by (simp_all add: sample_config sample_poll_def)
  from sync_config_converges [OF sample_lib_ok sample_parse this refl, of "''guard.toml''"] show ?thesis by blast
qed

text \<open>Two configurations stored within the same second have the same \<open>updated_at\<close>; the second is never applied.\<close>

lemma same_second_is_missed:
  "applied (sync_config_loop sample_lib ''guard.toml''
     [sample_poll sample_remote, sample_poll (sample_remote\<lparr>remote_allow := []\<rparr>)]
     (sync_start (Inr (enumerated_print sample_doc)))) = [sample_remote]"
  by (simp add: sync_turn_def sample_poll_def sync_start_def apply_remote_config_def read_doc_def sample_parse)

text \<open>C29 (revocation from the Gateway): after a configuration has been applied and the Guard has taken the signal, a
  peer that the configuration does not list has no session left, is cut if it had one, and can
  open none; and a peer that keeps its session has the roles of the last entry that names it.\<close>

theorem gateway_revocation_reaches_the_guard:
  assumes "toml_ok L" "auth_wf A" "load L path f = Inr cfg"
    and "apply_remote_config L path remote failing f = (Inr (), f')"
    and "reload_on_sighup L path [(f', True)] = [w]" "reload_whitelist w A = (gone, A')"
  shows "((\<forall>e \<in> set (remote_allow remote). parse_peer L (allow_peer e) \<noteq> Inr p) \<longrightarrow>
      session_roles A' p = None \<and> (p \<in> set (authenticated_peers A) \<longrightarrow> p \<in> set gone) \<and> fst (issue_at p now n A') = None) \<and>
    (\<exists>listed. list_all2 (listed_as L) (remote_allow remote) listed \<and>
       (\<forall>rs. session_roles A' p = Some rs \<longrightarrow> map_of (rev listed) p = Some rs))"
proof -
  obtain contents d raw where l: "f = Inr contents" "toml_parse L contents = Inr d" "de_config d = Inr raw"
    using assms(3) by (auto simp: load_Inr)
  have "failing = None" using assms(4) by (auto simp: apply_remote_config_def split: sum.splits option.splits prod.splits)
  then have "load L path f' = validate L (merged remote raw)"
    using edited_load [OF assms(1) l(2,3), of path remote] assms(4) l(1) by simp
  moreover obtain cfg' where cfg': "load L path f' = Inr cfg'" "w = cfg_whitelist cfg'"
    using assms(5) by (auto split: sum.splits)
  ultimately have "validate L (merged remote raw) = Inr cfg'" by simp
  then have "load_allow L (remote_allow remote) whitelist_new = Inr w"
    by (simp add: validate_Inr merged_def cfg'(2))
  from loaded_roles [OF this] obtain listed where w: "whitelist_wf w" "list_all2 (listed_as L) (remote_allow remote) listed"
    "\<And>p. roles w p = map_of (rev listed) p" by blast
  have unlisted: "roles w p = None" if "\<forall>e \<in> set (remote_allow remote). parse_peer L (allow_peer e) \<noteq> Inr p"
    using that w(2) by (force simp: w(3) map_of_eq_None_iff list_all2_conv_all_nth listed_as_def in_set_conv_nth)
  have A': "A' = snd (reload_whitelist w A)" "gone = fst (reload_whitelist w A)" using assms(6) by simp_all
  have "session_roles A' q = (if hm_get (sessions A) q = None \<or> roles w q = None then None else roles w q)" for q
    using reload_fields [OF assms(2) w(1)] by (auto simp: session_roles_def A')
  moreover have "set gone = {q \<in> set (authenticated_peers A). roles w q = None}"
    by (auto simp: A' reload_cut [OF assms(2)])
  moreover have "fst (issue_at p now n A') = None" if "roles w p = None"
    using that reload_fields(1) [OF assms(2) w(1)] by (simp add: issue_at_def A')
  ultimately show ?thesis using unlisted w(2,3) by auto
qed

definition sample_authority :: guard_authenticator where
  "sample_authority = \<lparr>whitelist = allow (PeerId [1]) [] whitelist_new, pending = hm_empty,
     sessions = hm_insert (PeerId [1]) [] hm_empty\<rparr>"

theorem gateway_revocation_reaches_the_guard_witness:
  "\<exists>w. reload_on_sighup sample_lib ''guard.toml'' [(sample_edited, True)] = [w] \<and>
     session_roles (snd (reload_whitelist w sample_authority)) (PeerId [1]) = None"
proof -
  obtain cfg where cfg: "load sample_lib ''guard.toml'' sample_file = Inr cfg" using sample_load by blast
  obtain cfg' where "load sample_lib ''guard.toml'' sample_edited = Inr cfg'"
    using sample_edited_loads by blast
  then have w: "reload_on_sighup sample_lib ''guard.toml'' [(sample_edited, True)] = [cfg_whitelist cfg']" by simp
  have "auth_wf sample_authority" by (simp add: auth_wf_def sample_authority_def)
  from gateway_revocation_reaches_the_guard [OF sample_lib_ok this cfg sample_apply w prod.collapse [symmetric], of "PeerId [1]"]
  have "session_roles (snd (reload_whitelist (cfg_whitelist cfg') sample_authority)) (PeerId [1]) = None"
    by (simp add: sample_remote_def sample_lib_def)
  with w show ?thesis by blast
qed

end
