(* ===== verification/Guard_Daemon.thy ===== *)
theory Guard_Daemon imports Embedded_Guard Startup Sync_Config Node begin

text \<open>
  The command \<^verbatim>\<open>guard\<close> of \<^verbatim>\<open>crates/nux-cli/src/main.rs\<close> once it runs: the loop of the Guard, the task that reloads the
  whitelist on \<^verbatim>\<open>SIGHUP\<close>, the task that asks for the shutdown on \<^verbatim>\<open>SIGTERM\<close> or \<^verbatim>\<open>Ctrl-C\<close>, and the channel of 8
  commands between them. The tasks interleave freely; the operator rewrites the file and sends signals at any time. Signals that
  arrive before the task looks are one. A full channel makes a task wait.
\<close>

section \<open>The daemon\<close>

definition CONTROL_CAPACITY :: nat where "CONTROL_CAPACITY = 8"
definition DEFAULT_SHUTDOWN_GRACE_PERIOD :: duration where "DEFAULT_SHUTDOWN_GRACE_PERIOD = from_secs 30"

datatype reload_task = Listening | Reloading whitelist | ReloadOver
datatype stop_task = AwaitingSignal | Stopping | StopSent

record 's daemon =
  dm_guard :: "'s guard"
  dm_file :: "io_error + string"
  dm_hup :: bool
  dm_reload :: reload_task
  dm_stop :: stop_task
  dm_queue :: "guard_control list"

datatype daemon_label =
    FileChanged "io_error + string" | Hangup | Reload | QueueReload | StopSignal | QueueStop | Loop event "effect list"

text \<open>\<open>hup_ok\<close>: whether the handler of \<^verbatim>\<open>SIGHUP\<close> could be installed.\<close>

definition daemon_start :: "'s sem_lib \<Rightarrow> 'k guard_launch \<Rightarrow> io_error + string \<Rightarrow> bool \<Rightarrow> 's daemon" where
  "daemon_start S G file hup_ok = \<lparr>dm_guard = run_guard_with_control S (launch_authenticator G) (launch_registry G),
     dm_file = file, dm_hup = False, dm_reload = (if hup_ok then Listening else ReloadOver), dm_stop = AwaitingSignal, dm_queue = []\<rparr>"

inductive daemon_step :: "config_lib \<Rightarrow> string \<Rightarrow> 'pk key_lib \<Rightarrow> 's sem_lib \<Rightarrow> 's daemon \<Rightarrow> daemon_label \<Rightarrow> 's daemon \<Rightarrow> bool"
  for L path K S where
  file_changed: "daemon_step L path K S s (FileChanged f) (s\<lparr>dm_file := f\<rparr>)"
| hangup: "daemon_step L path K S s Hangup (s\<lparr>dm_hup := True\<rparr>)"
| reload_ok: "dm_reload s = Listening \<Longrightarrow> dm_hup s \<Longrightarrow> load L path (dm_file s) = Inr cfg \<Longrightarrow>
    daemon_step L path K S s Reload (s\<lparr>dm_hup := False, dm_reload := Reloading (cfg_whitelist cfg)\<rparr>)"
| reload_refused: "dm_reload s = Listening \<Longrightarrow> dm_hup s \<Longrightarrow> load L path (dm_file s) = Inl e \<Longrightarrow>
    daemon_step L path K S s Reload (s\<lparr>dm_hup := False\<rparr>)"
| queue_reload: "dm_reload s = Reloading w \<Longrightarrow> \<not> returned (dm_guard s) \<Longrightarrow> length (dm_queue s) < CONTROL_CAPACITY \<Longrightarrow>
    daemon_step L path K S s QueueReload (s\<lparr>dm_reload := Listening, dm_queue := dm_queue s @ [ReloadWhitelist w]\<rparr>)"
| reload_unheard: "dm_reload s = Reloading w \<Longrightarrow> returned (dm_guard s) \<Longrightarrow>
    daemon_step L path K S s QueueReload (s\<lparr>dm_reload := ReloadOver\<rparr>)"
| stop_signal: "dm_stop s = AwaitingSignal \<Longrightarrow> daemon_step L path K S s StopSignal (s\<lparr>dm_stop := Stopping\<rparr>)"
| queue_stop: "dm_stop s = Stopping \<Longrightarrow> \<not> returned (dm_guard s) \<Longrightarrow> length (dm_queue s) < CONTROL_CAPACITY \<Longrightarrow>
    daemon_step L path K S s QueueStop
      (s\<lparr>dm_stop := StopSent, dm_queue := dm_queue s @ [Shutdown DEFAULT_SHUTDOWN_GRACE_PERIOD]\<rparr>)"
| take_command: "dm_queue s = c # q \<Longrightarrow> guard_turn K S (dm_guard s) (Command c now) effs G \<Longrightarrow>
    daemon_step L path K S s (Loop (Command c now) effs) (s\<lparr>dm_guard := G, dm_queue := q\<rparr>)"
| senders_gone: "dm_queue s = [] \<Longrightarrow> dm_reload s = ReloadOver \<Longrightarrow> dm_stop s = StopSent \<Longrightarrow>
    guard_turn K S (dm_guard s) ControlClosed effs G \<Longrightarrow>
    daemon_step L path K S s (Loop ControlClosed effs) (s\<lparr>dm_guard := G\<rparr>)"
| other_turn: "from_network ev \<Longrightarrow> guard_turn K S (dm_guard s) ev effs G \<Longrightarrow>
    daemon_step L path K S s (Loop ev effs) (s\<lparr>dm_guard := G\<rparr>)"

inductive_cases daemon_loopE: "daemon_step L path K S s (Loop ev effs) s'"

section \<open>The whitelist that is on its way\<close>

text \<open>\<open>told\<close>: the operator has not touched the file since the last signal. \<open>coming\<close>: what the whitelist will be when all that is
  under way has arrived.\<close>

definition told :: "daemon_label list \<Rightarrow> bool" where
  "told log = fold (\<lambda>l b. case l of FileChanged _ \<Rightarrow> False | Hangup \<Rightarrow> True | _ \<Rightarrow> b) log True"

definition after_queue :: "guard_control list \<Rightarrow> whitelist \<Rightarrow> whitelist" where
  "after_queue q w = fold (\<lambda>c w. case c of ReloadWhitelist w' \<Rightarrow> w' | _ \<Rightarrow> w) q w"

definition coming :: "'s daemon \<Rightarrow> whitelist" where
  "coming s = (case dm_reload s of Reloading w \<Rightarrow> w
     | _ \<Rightarrow> after_queue (dm_queue s) (whitelist (authenticator (dm_guard s))))"

fun expected_command :: "guard_control \<Rightarrow> bool" where
  "expected_command (ReloadWhitelist w) = whitelist_wf w"
| "expected_command (Shutdown d) = (d = DEFAULT_SHUTDOWN_GRACE_PERIOD)"
| "expected_command _ = False"

fun stop_command :: "guard_control \<Rightarrow> bool" where
  "stop_command (Shutdown _) = True"
| "stop_command _ = False"

lemma told_simps [simp]:
  "told []" "told (log @ [l]) = (case l of FileChanged _ \<Rightarrow> False | Hangup \<Rightarrow> True | _ \<Rightarrow> told log)"
  by (simp_all add: told_def split: daemon_label.split)

lemma after_queue_simps [simp]:
  "after_queue [] w = w" "after_queue (c # q) w = after_queue q (case c of ReloadWhitelist w' \<Rightarrow> w' | _ \<Rightarrow> w)"
  "after_queue (q @ [c]) w = (case c of ReloadWhitelist w' \<Rightarrow> w' | _ \<Rightarrow> after_queue q w)"
  by (simp_all add: after_queue_def split: guard_control.split)

lemma after_queue_roles: "roles w = roles w' \<Longrightarrow> roles (after_queue q w) = roles (after_queue q w')"
proof (induction q arbitrary: w w')
  case (Cons c q)
  let ?next = "\<lambda>w. case c of ReloadWhitelist w' \<Rightarrow> w' | _ \<Rightarrow> w"
  have "roles (?next w) = roles (?next w')" using Cons.prems by (cases c) simp_all
  from Cons.IH [OF this] show ?case by (simp only: after_queue_simps)
qed simp

text \<open>What a command of this channel does to the roles.\<close>

lemma take_roles:
  assumes "auth_inv (authenticator g)" "expected_command c"
  shows "roles (whitelist (authenticator (snd (guard_step K S (Command c now) g)))) =
    roles (case c of ReloadWhitelist w \<Rightarrow> w | _ \<Rightarrow> whitelist (authenticator g))"
proof -
  have wf: "auth_wf (authenticator g)" using assms(1) by (simp add: auth_inv_def)
  show ?thesis
    using assms(2) reload_fields(1) [OF wf] by (cases c) (auto simp: guard_step_auth fun_eq_iff)
qed

lemma load_wf: "load L path f = Inr cfg \<Longrightarrow> whitelist_wf (cfg_whitelist cfg)"
  using loaded_roles by (fastforce simp: load_Inr validate_Inr)

lemma expected_sound: "expected_command c \<Longrightarrow> sound_event (Command c now)"
  by (cases c) auto

section \<open>The invariants\<close>

definition base_inv :: "tunnel_registry \<Rightarrow> 's daemon \<Rightarrow> bool" where
  "base_inv reg s \<longleftrightarrow> auth_inv (authenticator (dm_guard s)) \<and> registry (dm_guard s) = reg \<and> list_all expected_command (dm_queue s) \<and>
     (\<forall>w. dm_reload s = Reloading w \<longrightarrow> whitelist_wf w)"

lemma base_inv_turn:
  assumes "base_inv reg s" "guard_turn K S (dm_guard s) ev effs G" "sound_event ev"
  shows "auth_inv (authenticator G) \<and> registry G = reg"
  using assms guard_auth_inv_step [of "dm_guard s" ev K S] registry_step [of K S ev "dm_guard s"]
  by (auto simp: base_inv_def guard_turn_iff)

lemma base_inv_step: "daemon_step L path K S s l s' \<Longrightarrow> base_inv reg s \<Longrightarrow> base_inv reg s'"
proof (induction rule: daemon_step.induct)
  case (reload_ok s cfg)
  then show ?case by (auto simp: base_inv_def dest: load_wf)
next
  case (take_command s c q now effs G)
  then have "expected_command c" by (simp add: base_inv_def)
  from base_inv_turn [OF take_command(3,2) expected_sound [OF this]] take_command show ?case by (auto simp: base_inv_def)
next
  case (senders_gone s effs G)
  from base_inv_turn [OF senders_gone(5,4)] senders_gone(5) show ?case by (auto simp: base_inv_def)
next
  case (other_turn ev s effs G)
  from base_inv_turn [OF other_turn(3,2)] from_network_open [OF other_turn(1)] other_turn(3) show ?case by (auto simp: base_inv_def)
qed (auto simp: base_inv_def)

text \<open>Every whitelist around comes from a file that loaded.\<close>

definition loaded_from :: "config_lib \<Rightarrow> string \<Rightarrow> (io_error + string) set \<Rightarrow> whitelist \<Rightarrow> bool" where
  "loaded_from L path fs w \<longleftrightarrow> (\<exists>f \<in> fs. \<exists>cfg. load L path f = Inr cfg \<and> roles w = roles (cfg_whitelist cfg))"

definition files :: "io_error + string \<Rightarrow> daemon_label list \<Rightarrow> (io_error + string) set" where
  "files f0 log = insert f0 {f. FileChanged f \<in> set log}"

definition source_inv :: "config_lib \<Rightarrow> string \<Rightarrow> (io_error + string) set \<Rightarrow> 's daemon \<Rightarrow> bool" where
  "source_inv L path fs s \<longleftrightarrow> dm_file s \<in> fs \<and> loaded_from L path fs (whitelist (authenticator (dm_guard s))) \<and>
     (\<forall>w. ReloadWhitelist w \<in> set (dm_queue s) \<or> dm_reload s = Reloading w \<longrightarrow> loaded_from L path fs w)"

lemma loaded_from_cong: "roles w = roles w' \<Longrightarrow> loaded_from L path fs w = loaded_from L path fs w'"
  by (simp add: loaded_from_def)

lemma loaded_from_mono: "loaded_from L path fs w \<Longrightarrow> fs \<subseteq> fs' \<Longrightarrow> loaded_from L path fs' w"
  by (auto simp: loaded_from_def)

lemma source_inv_mono: "source_inv L path fs s \<Longrightarrow> fs \<subseteq> fs' \<Longrightarrow> source_inv L path fs' s"
  using loaded_from_mono by (auto simp: source_inv_def)

lemma source_inv_step:
  "daemon_step L path K S s l s' \<Longrightarrow> base_inv reg s \<Longrightarrow> source_inv L path fs s \<Longrightarrow>
     source_inv L path (fs \<union> {f. l = FileChanged f}) s'"
proof (induction rule: daemon_step.induct)
  case (file_changed s f)
  then show ?case using source_inv_mono [OF file_changed(2), of "insert f fs"] by (auto simp: source_inv_def)
next
  case (reload_ok s cfg)
  then show ?case by (auto simp: source_inv_def loaded_from_def)
next
  case (take_command s c q now effs G)
  then have inv: "auth_inv (authenticator (dm_guard s))" "expected_command c" by (simp_all add: base_inv_def)
  have "loaded_from L path fs (case c of ReloadWhitelist w \<Rightarrow> w | _ \<Rightarrow> whitelist (authenticator (dm_guard s)))"
    using take_command(1,4) by (cases c) (auto simp: source_inv_def)
  moreover have "roles (whitelist (authenticator G)) = roles (case c of ReloadWhitelist w \<Rightarrow> w | _ \<Rightarrow> whitelist (authenticator (dm_guard s)))"
    using take_roles [OF inv, of K S now] take_command(2) by (auto simp: guard_turn_iff)
  ultimately have "loaded_from L path fs (whitelist (authenticator G))" using loaded_from_cong by blast
  with take_command(1,4) show ?case by (auto simp: source_inv_def)
next
  case (senders_gone s effs G)
  then have "authenticator G = authenticator (dm_guard s)" by (auto simp: guard_turn_iff guard_step_def)
  with senders_gone show ?case by (auto simp: source_inv_def)
next
  case (other_turn ev s effs G)
  then have "roles (whitelist (authenticator G)) = roles (whitelist (authenticator (dm_guard s)))"
    using network_roles [of "dm_guard s" ev K S] by (auto simp: base_inv_def guard_turn_iff)
  from other_turn(4) loaded_from_cong [OF this] show ?case by (auto simp: source_inv_def)
qed (auto simp: source_inv_def)

text \<open>Once told, the whitelist of the file is on its way.\<close>

definition sync_file_inv :: "config_lib \<Rightarrow> string \<Rightarrow> daemon_label list \<Rightarrow> 's daemon \<Rightarrow> bool" where
  "sync_file_inv L path log s \<longleftrightarrow> (\<forall>cfg. told log \<and> \<not> dm_hup s \<and> dm_reload s \<noteq> ReloadOver \<and> load L path (dm_file s) = Inr cfg \<longrightarrow>
     roles (coming s) = roles (cfg_whitelist cfg))"

lemma sync_file_inv_step:
  "daemon_step L path K S s l s' \<Longrightarrow> base_inv reg s \<Longrightarrow> sync_file_inv L path log s \<Longrightarrow> sync_file_inv L path (log @ [l]) s'"
proof (induction rule: daemon_step.induct)
  case (take_command s c q now effs G)
  then have inv: "auth_inv (authenticator (dm_guard s))" "expected_command c" by (simp_all add: base_inv_def)
  have "roles (whitelist (authenticator G)) = roles (case c of ReloadWhitelist w \<Rightarrow> w | _ \<Rightarrow> whitelist (authenticator (dm_guard s)))"
    using take_roles [OF inv, of K S now] take_command(2) by (auto simp: guard_turn_iff)
  from after_queue_roles [OF this, of q] take_command(1,4) show ?case
    by (auto simp: sync_file_inv_def coming_def split: reload_task.split)
next
  case (senders_gone s effs G)
  then show ?case by (auto simp: sync_file_inv_def coming_def)
next
  case (other_turn ev s effs G)
  then have "roles (whitelist (authenticator G)) = roles (whitelist (authenticator (dm_guard s)))"
    using network_roles [of "dm_guard s" ev K S] by (auto simp: base_inv_def guard_turn_iff)
  from after_queue_roles [OF this, of "dm_queue s"] other_turn(4) show ?case
    by (auto simp: sync_file_inv_def coming_def split: reload_task.split)
qed (auto simp: sync_file_inv_def coming_def split: reload_task.splits)

text \<open>At most one shutdown is ever asked for.\<close>

definition stop_inv :: "'s daemon \<Rightarrow> bool" where
  "stop_inv s \<longleftrightarrow> length (filter stop_command (dm_queue s)) + (if shutdown_deadline (dm_guard s) = None then 0 else 1) \<le>
     (if dm_stop s = StopSent then 1 else 0)"

lemma stop_inv_step: "daemon_step L path K S s l s' \<Longrightarrow> stop_inv s \<Longrightarrow> stop_inv s'"
proof (induction rule: daemon_step.induct)
  case (take_command s c q now effs G)
  then have "shutdown_deadline G = (case c of Shutdown d \<Rightarrow> Some (now + d) | _ \<Rightarrow> shutdown_deadline (dm_guard s))"
    using closing_turn [of K S "Command c now" "dm_guard s"] by (auto simp: guard_turn_iff)
  with take_command(1,3) show ?case by (cases c) (auto simp: stop_inv_def split: if_splits)
next
  case (senders_gone s effs G)
  then have "shutdown_deadline G = shutdown_deadline (dm_guard s)" by (auto simp: guard_turn_iff guard_step_def)
  with senders_gone show ?case by (auto simp: stop_inv_def)
next
  case (other_turn ev s effs G)
  then have "shutdown_deadline G = shutdown_deadline (dm_guard s)"
    using closing_turn [of K S ev "dm_guard s"] by (cases ev) (auto simp: guard_turn_iff)
  with other_turn(3) show ?case by (auto simp: stop_inv_def)
qed (auto simp: stop_inv_def split: if_splits)

text \<open>While the reloading task lives, the channel is open.\<close>

definition open_inv :: "'s daemon \<Rightarrow> bool" where
  "open_inv s \<longleftrightarrow> (dm_reload s = ReloadOver \<longrightarrow> returned (dm_guard s)) \<and> (\<not> returned (dm_guard s) \<longrightarrow> control_open (dm_guard s))"

lemma open_inv_step: "daemon_step L path K S s l s' \<Longrightarrow> open_inv s \<Longrightarrow> open_inv s'"
proof (induction rule: daemon_step.induct)
  case (take_command s c q now effs G)
  then show ?case using control_step [of "Command c now" K S "dm_guard s"] by (auto simp: open_inv_def guard_turn_iff enabled_def)
next
  case (senders_gone s effs G)
  then show ?case by (auto simp: open_inv_def guard_turn_iff enabled_def)
next
  case (other_turn ev s effs G)
  then show ?case
    using control_step [of ev K S "dm_guard s"] from_network_open [of ev] by (auto simp: open_inv_def guard_turn_iff enabled_def)
qed (auto simp: open_inv_def)

definition daemon_inv :: "config_lib \<Rightarrow> string \<Rightarrow> io_error + string \<Rightarrow> tunnel_registry \<Rightarrow> daemon_label list \<Rightarrow> 's daemon \<Rightarrow> bool" where
  "daemon_inv L path f0 reg log s \<longleftrightarrow> base_inv reg s \<and> source_inv L path (files f0 log) s \<and> sync_file_inv L path log s \<and>
     stop_inv s \<and> open_inv s"

lemma daemon_inv_step:
  assumes step: "daemon_step L path K S s l s'" and "daemon_inv L path f0 reg log s"
  shows "daemon_inv L path f0 reg (log @ [l]) s'"
proof -
  have "files f0 (log @ [l]) = files f0 log \<union> {f. l = FileChanged f}" by (auto simp: files_def)
  then show ?thesis
    using assms(2) base_inv_step [OF step] source_inv_step [OF step] sync_file_inv_step [OF step] stop_inv_step [OF step]
      open_inv_step [OF step]
    unfolding daemon_inv_def by metis
qed

lemma daemon_inv_steps:
  "daemon_inv L path f0 reg [] s0 \<Longrightarrow> steps (daemon_step L path K S) s0 log s \<Longrightarrow> daemon_inv L path f0 reg log s"
  using steps_log [where P = "daemon_inv L path f0 reg"] daemon_inv_step by blast

lemma daemon_inv_start:
  assumes "guard_command L H sw path file ident evs = Ready (Inr G) rest"
  shows "daemon_inv L path file (launch_registry G) [] (daemon_start S G file True)"
proof -
  obtain cfg where cfg: "load L path file = Inr cfg" "launch_authenticator G = authenticator_new (cfg_whitelist cfg)"
    using assms by (rule guard_command_Inr)
  have "auth_inv (launch_authenticator G)" using auth_inv_new [OF load_wf [OF cfg(1)]] by (simp add: cfg(2))
  moreover have "whitelist (launch_authenticator G) = cfg_whitelist cfg" by (simp add: cfg(2) authenticator_new_def)
  ultimately show ?thesis
    using cfg(1)
    by (auto simp: daemon_inv_def daemon_start_def run_guard_with_control_def guard_start_def base_inv_def source_inv_def files_def
        loaded_from_def sync_file_inv_def coming_def stop_inv_def open_inv_def)
qed

section \<open>The tasks can always finish\<close>

definition quiet :: "'s daemon \<Rightarrow> bool" where
  "quiet s \<longleftrightarrow> \<not> dm_hup s \<and> dm_reload s = Listening \<and> dm_queue s = []"

fun of_operator :: "daemon_label \<Rightarrow> bool" where
  "of_operator (FileChanged _) = True"
| "of_operator Hangup = True"
| "of_operator StopSignal = True"
| "of_operator _ = False"

text \<open>Runs in which the operator does nothing and the loop keeps running.\<close>

definition proceeds :: "config_lib \<Rightarrow> string \<Rightarrow> 'pk key_lib \<Rightarrow> 's sem_lib \<Rightarrow> 's daemon \<Rightarrow> 's daemon \<Rightarrow> bool" where
  "proceeds L path K S s s' \<longleftrightarrow> (\<exists>log. steps (daemon_step L path K S) s log s' \<and> \<not> list_ex of_operator log) \<and>
     dm_file s' = dm_file s \<and> \<not> returned (dm_guard s') \<and> control_open (dm_guard s')"

lemma proceeds_trans: "proceeds L path K S s s1 \<Longrightarrow> proceeds L path K S s1 s2 \<Longrightarrow> proceeds L path K S s s2"
  unfolding proceeds_def by (metis list_ex_append steps_append)

lemma proceeds_step:
  "daemon_step L path K S s l s' \<Longrightarrow> \<not> of_operator l \<Longrightarrow> dm_file s' = dm_file s \<Longrightarrow> \<not> returned (dm_guard s') \<Longrightarrow>
     control_open (dm_guard s') \<Longrightarrow> proceeds L path K S s s'"
  unfolding proceeds_def by (intro conjI exI [of _ "[l]"]) auto

lemma proceeds_refl: "\<not> returned (dm_guard s) \<Longrightarrow> control_open (dm_guard s) \<Longrightarrow> proceeds L path K S s s"
  unfolding proceeds_def by (intro conjI exI [of _ "[]"]) auto

lemma command_keeps_running:
  "\<not> returned g \<Longrightarrow> control_open g \<Longrightarrow> \<not> returned (snd (guard_step K S (Command c now) g)) \<and> control_open (snd (guard_step K S (Command c now) g))"
  by (auto simp: guard_step_def handle_command_def split: guard_control.split prod.split bool.split)

lemma drain_queue:
  "\<not> returned (dm_guard s) \<Longrightarrow> control_open (dm_guard s) \<Longrightarrow>
     \<exists>s'. proceeds L path K S s s' \<and> dm_queue s' = [] \<and> dm_reload s' = dm_reload s \<and> dm_hup s' = dm_hup s"
proof (induction "dm_queue s" arbitrary: s)
  case Nil
  then show ?case using proceeds_refl by metis
next
  case (Cons c q)
  let ?t = "guard_step K S (Command c 0) (dm_guard s)"
  let ?s1 = "s\<lparr>dm_guard := snd ?t, dm_queue := q\<rparr>"
  have "guard_turn K S (dm_guard s) (Command c 0) (fst ?t) (snd ?t)"
    using Cons.prems by (simp add: guard_turn_iff enabled_def)
  then have step: "daemon_step L path K S s (Loop (Command c 0) (fst ?t)) ?s1"
    using Cons.hyps(2) by (intro daemon_step.take_command) simp_all
  have run: "\<not> returned (dm_guard ?s1)" "control_open (dm_guard ?s1)"
    using command_keeps_running [OF Cons.prems, of K S c 0] by simp_all
  then have "proceeds L path K S s ?s1" using proceeds_step [OF step] by simp
  moreover obtain s' where "proceeds L path K S ?s1 s'" "dm_queue s' = []" "dm_reload s' = dm_reload s" "dm_hup s' = dm_hup s"
    using Cons.hyps(1) [of ?s1] run by auto
  ultimately show ?case using proceeds_trans by blast
qed

text \<open>With an empty queue, the reloading task hands over what it has; then it looks at the file if it was told to.\<close>

lemma hand_over:
  assumes "dm_reload s \<noteq> ReloadOver" "dm_queue s = []" "\<not> returned (dm_guard s)" "control_open (dm_guard s)"
  shows "\<exists>s'. proceeds L path K S s s' \<and> dm_queue s' = [] \<and> dm_reload s' = Listening \<and> dm_hup s' = dm_hup s"
proof (cases "dm_reload s")
  case Listening
  with assms show ?thesis using proceeds_refl by metis
next
  case (Reloading w)
  let ?s1 = "s\<lparr>dm_reload := Listening, dm_queue := [ReloadWhitelist w]\<rparr>"
  have step: "daemon_step L path K S s QueueReload ?s1"
    using daemon_step.queue_reload [OF Reloading assms(3), of L path K S] assms(2) by (simp add: CONTROL_CAPACITY_def)
  have "proceeds L path K S s ?s1" using assms proceeds_step [OF step] by simp
  moreover obtain s' where "proceeds L path K S ?s1 s'" "dm_queue s' = []" "dm_reload s' = Listening" "dm_hup s' = dm_hup s"
    using drain_queue [of ?s1 L path K S] assms by auto
  ultimately show ?thesis using proceeds_trans by blast
qed (use assms in simp)

lemma reaches_quiet:
  assumes "dm_reload s \<noteq> ReloadOver" "\<not> returned (dm_guard s)" "control_open (dm_guard s)"
  shows "\<exists>s'. proceeds L path K S s s' \<and> quiet s'"
proof -
  from drain_queue [OF assms(2,3)] obtain s1 where s1: "proceeds L path K S s s1" "dm_queue s1 = []" "dm_reload s1 = dm_reload s" by blast
  then have "\<not> returned (dm_guard s1)" "control_open (dm_guard s1)" by (simp_all add: proceeds_def)
  from hand_over [OF _ s1(2) this, of L path K S] s1(3) assms(1) obtain s2 where
    s2: "proceeds L path K S s1 s2" "dm_queue s2 = []" "dm_reload s2 = Listening" by auto
  then have run: "\<not> returned (dm_guard s2)" "control_open (dm_guard s2)" by (simp_all add: proceeds_def)
  note s12 = proceeds_trans [OF s1(1) s2(1)]
  show ?thesis
  proof (cases "dm_hup s2")
    case False
    with s12 s2 show ?thesis by (auto simp: quiet_def)
  next
    case True
    let ?s3 = "case load L path (dm_file s2) of Inr cfg \<Rightarrow> s2\<lparr>dm_hup := False, dm_reload := Reloading (cfg_whitelist cfg)\<rparr>
      | Inl _ \<Rightarrow> s2\<lparr>dm_hup := False\<rparr>"
    have step: "daemon_step L path K S s2 Reload ?s3"
      using daemon_step.reload_ok [OF s2(3) True, of L path] daemon_step.reload_refused [OF s2(3) True, of L path]
      by (cases "load L path (dm_file s2)") auto
    have s3: "dm_guard ?s3 = dm_guard s2" "dm_file ?s3 = dm_file s2" "dm_queue ?s3 = []" "\<not> dm_hup ?s3" "dm_reload ?s3 \<noteq> ReloadOver"
      using s2 by (auto split: sum.split)
    then have "proceeds L path K S s2 ?s3" using proceeds_step [OF step] run by simp
    with hand_over [OF s3(5,3), of L path K S] s3 run s12 show ?thesis
      unfolding quiet_def by (metis proceeds_trans)
  qed
qed

section \<open>The shutdown\<close>

lemma loop_turn: "daemon_step L path K S s (Loop ev effs) s' \<Longrightarrow> guard_turn K S (dm_guard s) ev effs (dm_guard s')"
  by (erule daemon_loopE) simp_all

interpretation daemon: embedded_guard K S "daemon_step L path K S" dm_guard "\<lambda>G s. s\<lparr>dm_guard := G\<rparr>" Loop
  for K :: "'pk key_lib" and S :: "'s sem_lib" and L path
  by unfold_locales (simp_all add: loop_turn daemon_step.other_turn)

lemma guard_kept: "daemon_step L path K S s l s' \<Longrightarrow> (\<And>ev effs. l \<noteq> Loop ev effs) \<Longrightarrow> dm_guard s' = dm_guard s"
  by (induction rule: daemon_step.induct) auto

text \<open>A label of a Guard that is closing.\<close>

definition silent :: "daemon_label \<Rightarrow> bool" where
  "silent l = (case l of Loop ev effs \<Rightarrow> (\<forall>p rs. Spawn p rs \<notin> set effs) \<and> (\<forall>p n t. Respond p (Challenge n t) \<notin> set effs)
     | _ \<Rightarrow> True)"

lemma closing_step:
  assumes "daemon_step L path K S s l s'" "stop_inv s" "shutdown_deadline (dm_guard s) = Some D"
  shows "shutdown_deadline (dm_guard s') = Some D \<and> silent l"
proof (cases "\<exists>ev effs. l = Loop ev effs")
  case False
  then show ?thesis using guard_kept [OF assms(1)] assms(3) by (auto simp: silent_def split: daemon_label.split)
next
  case True
  then obtain ev effs where l: "l = Loop ev effs" by blast
  have turn: "guard_turn K S (dm_guard s) ev effs (dm_guard s')" using loop_turn assms(1) l by blast
  have "\<forall>d now. ev \<noteq> Command (Shutdown d) now"
    using assms(1) unfolding l by (cases rule: daemon_step.cases) (use assms(2,3) from_network_open in \<open>auto simp: stop_inv_def split: if_splits\<close>)
  then have "shutdown_deadline (dm_guard s') = Some D"
    using turn closing_turn [of K S ev "dm_guard s"] assms(3) by (auto simp: guard_turn_iff split: event.splits guard_control.splits)
  moreover have "silent l"
    using turn stream_effects [of _ _ K S ev "dm_guard s"] challenge_effects [of _ _ _ K S ev "dm_guard s"] assms(3)
    by (auto simp: silent_def l guard_turn_iff)
  ultimately show ?thesis ..
qed

lemma closing_steps:
  "steps (daemon_step L path K S) s log s' \<Longrightarrow> stop_inv s \<Longrightarrow> shutdown_deadline (dm_guard s) = Some D \<Longrightarrow>
     shutdown_deadline (dm_guard s') = Some D \<and> list_all silent log"
  using steps_keep [of "daemon_step L path K S" s log s' "\<lambda>s. stop_inv s \<and> shutdown_deadline (dm_guard s) = Some D" silent]
    closing_step [of L path K S _ _ _ D] stop_inv_step [of L path K S] by blast

lemma stop_inv_steps: "steps (daemon_step L path K S) s log s' \<Longrightarrow> stop_inv s \<Longrightarrow> stop_inv s'"
  using steps_keep [of "daemon_step L path K S" s log s' stop_inv "\<lambda>_. True"] stop_inv_step [of L path K S] by blast

lemma told_kept: "\<not> list_ex of_operator log' \<Longrightarrow> told (log @ log') = told log"
proof (induction log' rule: rev_induct)
  case (snoc l log')
  then show ?case using told_simps(2) [of "log @ log'" l] by (cases l) auto
qed simp

lemma late_tick: "shutdown_deadline g = Some D \<Longrightarrow> D \<le> now \<Longrightarrow> guard_turn K S g (DrainTick now) effs g' \<Longrightarrow> returned g'"
  by (auto simp: guard_turn_iff guard_step_def drain_tick_def split: if_splits)

section \<open>Properties\<close>

text \<open>C14 (the Guard and its file): whatever the interleaving, if the operator has signalled the last change of a file that loads,
  the daemon needs nobody else to have exactly the roles of that file: it can always get there, however many
  signals were merged or commands were queued; and once nothing is under way, it is there, and every open session is that of a
  peer the file lists, with the roles the file gives it.\<close>

theorem daemon_follows_its_file:
  assumes "guard_command L H sw path file ident evs = Ready (Inr G) rest"
    and "steps (daemon_step L path K S) (daemon_start S G file True) log s" "\<not> returned (dm_guard s)"
    and "told log" "load L path (dm_file s) = Inr cfg"
  shows "(\<exists>log' s'. steps (daemon_step L path K S) s log' s' \<and> \<not> list_ex of_operator log' \<and>
       roles (whitelist (authenticator (dm_guard s'))) = roles (cfg_whitelist cfg)) \<and>
    (quiet s \<longrightarrow> roles (whitelist (authenticator (dm_guard s))) = roles (cfg_whitelist cfg) \<and>
       (\<forall>p rs. session_roles (authenticator (dm_guard s)) p = Some rs \<longrightarrow> roles (cfg_whitelist cfg) p = Some rs))"
proof -
  have arrived: "roles (whitelist (authenticator (dm_guard t))) = roles (cfg_whitelist cfg)"
    if "steps (daemon_step L path K S) (daemon_start S G file True) lg t" "told lg" "quiet t" "dm_file t = dm_file s" for lg t
  proof -
    have "sync_file_inv L path lg t"
      using daemon_inv_steps [OF daemon_inv_start [OF assms(1)] that(1)] by (simp add: daemon_inv_def)
    with that(2-4) assms(5) show ?thesis by (simp add: sync_file_inv_def quiet_def coming_def)
  qed
  have "open_inv s" using daemon_inv_steps [OF daemon_inv_start [OF assms(1)] assms(2)] by (simp add: daemon_inv_def)
  with assms(3) reaches_quiet [of s L path K S] obtain s' where s': "proceeds L path K S s s'" "quiet s'"
    by (auto simp: open_inv_def)
  then obtain log' where log': "steps (daemon_step L path K S) s log' s'" "\<not> list_ex of_operator log'" "dm_file s' = dm_file s"
    by (auto simp: proceeds_def)
  have "steps (daemon_step L path K S) (daemon_start S G file True) (log @ log') s'"
    using assms(2) log'(1) by (auto simp: steps_append)
  moreover have "told (log @ log')" using told_kept [OF log'(2)] assms(4) by simp
  ultimately have "roles (whitelist (authenticator (dm_guard s'))) = roles (cfg_whitelist cfg)"
    using arrived s'(2) log'(3) by blast
  with log'(1,2) arrived [OF assms(2,4) _ refl] show ?thesis by (auto simp: session_roles_def split: if_splits)
qed

text \<open>The operator puts another file in place and signals it.\<close>

theorem daemon_follows_its_file_witness:
  "\<exists>(G :: bytes guard_launch) s log' s' cfg. guard_command sample_lib sample_host sample_swarm ''guard.toml'' sample_file None [] = Ready (Inr G) [] \<and>
     steps (daemon_step sample_lib ''guard.toml'' sample_keys sample_sems) (daemon_start sample_sems G sample_file True)
       [FileChanged sample_edited, Hangup] s \<and>
     steps (daemon_step sample_lib ''guard.toml'' sample_keys sample_sems) s log' s' \<and> load sample_lib ''guard.toml'' sample_edited = Inr cfg \<and>
     roles (whitelist (authenticator (dm_guard s'))) = roles (cfg_whitelist cfg)"
proof -
  obtain G where G: "guard_command sample_lib sample_host sample_swarm ''guard.toml'' sample_file None [] = Ready (Inr G) []"
    using sample_guard_starts by blast
  obtain cfg where cfg: "load sample_lib ''guard.toml'' sample_edited = Inr cfg" using sample_edited_loads by blast
  let ?start = "daemon_start sample_sems G sample_file True :: nat daemon"
  let ?next = "?start\<lparr>dm_file := sample_edited, dm_hup := True\<rparr>"
  have run: "steps (daemon_step sample_lib ''guard.toml'' sample_keys sample_sems) ?start [FileChanged sample_edited, Hangup] ?next"
    using daemon_step.file_changed [of sample_lib "''guard.toml''" sample_keys sample_sems ?start sample_edited]
      daemon_step.hangup [of sample_lib "''guard.toml''" sample_keys sample_sems "?start\<lparr>dm_file := sample_edited\<rparr>"] by auto
  have "\<not> returned (dm_guard ?next)" "told [FileChanged sample_edited, Hangup]" "dm_file ?next = sample_edited"
    by (simp_all add: daemon_start_def run_guard_with_control_def guard_start_def told_def)
  with daemon_follows_its_file [OF G run] cfg G run show ?thesis by metis
qed

text \<open>C6 (what a peer reaches): at any point of the life of a Guard, a relay that is spawned and served leads a peer to a service
  that the file of the start exposes, on its port of the loopback interface, by the name the peer asked for; and the peer
  is listed, with the role the service asks, in a file that loaded: the first one, or one the operator has put in place since.\<close>

theorem daemon_serves_the_listed:
  assumes "guard_command L H sw path file ident evs = Ready (Inr G) rest"
    and "steps (daemon_step L path K S) (daemon_start S G file True) (log @ [Loop ev effs]) s"
    and "Spawn p rs \<in> set effs" "serve_io B N p stream rs (registry (dm_guard s)) = (Served n m, out)"
  shows "\<exists>header rest' cfg0 port role f cfg. header_in_time B stream = Some (Inr (header, rest')) \<and>
    load L path file = Inr cfg0 \<and> (service header, port, role) \<in> set (cfg_expose cfg0) \<and>
    (f = file \<or> FileChanged f \<in> set log) \<and> load L path f = Inr cfg \<and> roles (cfg_whitelist cfg) p = Some rs \<and>
    (role = None \<or> (\<exists>r. role = Some r \<and> r \<in> set rs))"
proof -
  note inv = daemon_inv_steps [OF daemon_inv_start [OF assms(1)]]
  from assms(2) obtain s1 where run: "steps (daemon_step L path K S) (daemon_start S G file True) log s1"
    and last: "daemon_step L path K S s1 (Loop ev effs) s" by (auto simp: steps_append)
  obtain cfg0 where cfg0: "load L path file = Inr cfg0" "launch_registry G = registry_of cfg0"
    using assms(1) by (rule guard_command_Inr)
  have "loaded_from L path (files file log) (whitelist (authenticator (dm_guard s1)))"
    using inv [OF run] by (simp add: daemon_inv_def source_inv_def)
  then obtain f cfg where "f \<in> files file log" "load L path f = Inr cfg" "roles (whitelist (authenticator (dm_guard s1))) = roles (cfg_whitelist cfg)"
    unfolding loaded_from_def by blast
  with daemon.spawned_roles [OF last assms(3)] have
    f: "f = file \<or> FileChanged f \<in> set log" "load L path f = Inr cfg" "roles (cfg_whitelist cfg) p = Some rs"
    by (auto simp: files_def)
  have "registry (dm_guard s) = registry_of cfg0"
    using inv [OF assms(2)] by (simp add: daemon_inv_def base_inv_def cfg0(2))
  with assms(4) obtain header rest' srv where h: "header_in_time B stream = Some (Inr (header, rest'))"
    "tunnel_allowed (registry_of cfg0) p rs header srv"
    using serve_io_refused [of B stream "registry_of cfg0" p rs N] by fastforce
  have "distinct (map fst (cfg_expose cfg0))"
    using cfg0(1) by (auto simp: load_Inr validate_Inr load_expose_Inr comp_def)
  from registry_of_get [OF this, of "service header"] h(2) obtain port role where
    "(service header, port, role) \<in> set (cfg_expose cfg0)" "required_role srv = role"
    by (fastforce simp: tunnel_allowed_def registry_get_def)
  moreover have "required_role srv = None \<or> (\<exists>r. required_role srv = Some r \<and> r \<in> set rs)"
    using h(2) by (cases "required_role srv") (auto simp: tunnel_allowed_def)
  ultimately show ?thesis using h(1) cfg0(1) f by blast
qed

text \<open>A file that exposes \<open>db\<close> and lists \<open>A\<close>, who logs in and opens a stream.\<close>

definition exposing_doc :: toml_doc where
  "exposing_doc = [(''allow'', TomlTables [[(''peer'', TomlString ''A'')]]),
     (''expose'', TomlTables [[(''name'', TomlString ''db''), (''port'', TomlInt 5432)]])]"

lemma exposing_load:
  "\<exists>cfg. load sample_lib ''guard.toml'' (Inr (enumerated_print exposing_doc)) = Inr cfg \<and> cfg_relay cfg = None \<and>
     cfg_whitelist cfg = allow (PeerId [1]) [] whitelist_new \<and> cfg_expose cfg = [(''db'', 5432, None)] \<and> cfg_checksum_bin cfg = []"
proof -
  have parse: "toml_parse sample_lib (enumerated_print exposing_doc) = Inr exposing_doc"
    by (simp add: sample_lib_def parse_print exposing_doc_def) (simp add: written_doc_def)
  have "de_config exposing_doc = Inr \<lparr>raw_listen = default_listen, raw_rate = raw_rate_limit_default,
      raw_allows = [\<lparr>allow_peer = ''A'', allow_roles = []\<rparr>], raw_exposes = [\<lparr>expose_name = ''db'', expose_port = 5432, expose_role = None\<rparr>],
      raw_checksums = [], raw_relay = None, raw_namespace = None\<rparr>"
    by (simp add: de_config_def exposing_doc_def defaulted_def optional_def de_seq_def de_table_def de_allow_def de_expose_def
        required_def de_string_def de_uint_def)
  then have "load sample_lib ''guard.toml'' (Inr (enumerated_print exposing_doc)) = validate sample_lib
      \<lparr>raw_listen = default_listen, raw_rate = raw_rate_limit_default, raw_allows = [\<lparr>allow_peer = ''A'', allow_roles = []\<rparr>],
       raw_exposes = [\<lparr>expose_name = ''db'', expose_port = 5432, expose_role = None\<rparr>], raw_checksums = [], raw_relay = None,
       raw_namespace = None\<rparr>"
    by (simp add: load_def read_doc_def parse)
  then show ?thesis
    by (simp add: validate_def sample_lib_def raw_rate_limit_default_def load_exempt_def load_checksums_def
        default_rate_window_secs_def DEFAULT_WINDOW_def)
qed

lemma exposing_guard_starts:
  "\<exists>G :: bytes guard_launch. guard_command sample_lib sample_host sample_swarm ''guard.toml'' (Inr (enumerated_print exposing_doc)) None [] =
     Ready (Inr G) [] \<and> launch_authenticator G = authenticator_new (allow (PeerId [1]) [] whitelist_new) \<and>
     launch_registry G = expose ''db'' (LOCALHOST, 5432) None registry_new"
proof -
  obtain cfg where cfg: "load sample_lib ''guard.toml'' (Inr (enumerated_print exposing_doc)) = Inr cfg" "cfg_relay cfg = None"
    "cfg_whitelist cfg = allow (PeerId [1]) [] whitelist_new" "cfg_expose cfg = [(''db'', 5432, None)]" "cfg_checksum_bin cfg = []"
    using exposing_load by blast
  have "is_ok (host_build sample_host sample_swarm (guard_builder cfg None (host_env sample_host)))"
    by (simp add: host_build_def build_def sample_host_def sample_swarm_def guard_builder_fields cli_builder_def
        builder_setters builder_new_def resolve_identity_def)
  with cfg show ?thesis by (auto simp: guard_command_def is_ok_iff registry_of_def)
qed

lemma sample_daemon_visit:
  "\<exists>g. guard_exec sample_keys sample_sems [AuthRequest (PeerId [1]) HandshakeInit (Some 100) [7], sample_answered, IncomingStream (PeerId [1])]
      (guard_start sample_sems (authenticator_new (allow (PeerId [1]) [] whitelist_new)) (expose ''db'' (LOCALHOST, 5432) None registry_new) True) =
    Some ([sample_challenged, (sample_answered, [Respond (PeerId [1]) (AccessGranted [])]),
      (IncomingStream (PeerId [1]), [Spawn (PeerId [1]) []])], g)"
  by (intro exI) code_simp

lemma sample_db_served:
  "\<exists>f n m out. serve_io sample_header_bincode sample_net (PeerId [1]) (instantly f) [] (expose ''db'' (LOCALHOST, 5432) None registry_new)
     = (Served n m, out)"
proof -
  obtain f where f: "header_frame sample_header_bincode \<lparr>service = ''db'', binary_sha256 = [5]\<rparr> = Some f"
    by (auto simp: header_frame_def encode_def sample_header_bincode_def bincode_options_def
        MAX_MESSAGE_SIZE_def MAX_TUNNEL_HEADER_SIZE_def Let_def)
  have "tunnel_allowed (expose ''db'' (LOCALHOST, 5432) None registry_new) (PeerId [1]) [] \<lparr>service = ''db'', binary_sha256 = [5]\<rparr>
      \<lparr>target = (LOCALHOST, 5432), required_role = None\<rparr>"
    by (simp add: tunnel_allowed_def expose_def registry_new_def hm.get_insert hm.wf_empty hm.get_empty)
  from serve_io_allowed [OF header_instantly [OF sample_header_bincode_ok f] this, of sample_net] show ?thesis
    by (simp add: sample_net_def instantly_def flush_def) blast
qed

theorem daemon_serves_the_listed_witness:
  "\<exists>(G :: bytes guard_launch) log s f (header :: tunnel_header) rest (cfg :: guard_config). guard_command sample_lib sample_host sample_swarm ''guard.toml''
      (Inr (enumerated_print exposing_doc)) None [] = Ready (Inr G) [] \<and>
     steps (daemon_step sample_lib ''guard.toml'' sample_keys sample_sems) (daemon_start sample_sems G (Inr (enumerated_print exposing_doc)) True)
       (log @ [Loop (IncomingStream (PeerId [1])) [Spawn (PeerId [1]) []]]) s \<and>
     header_in_time sample_header_bincode (instantly f) = Some (Inr (header, rest)) \<and> service header \<in> fst ` set (cfg_expose cfg)"
proof -
  let ?file = "Inr (enumerated_print exposing_doc)"
  obtain G :: "bytes guard_launch" where G: "guard_command sample_lib sample_host sample_swarm ''guard.toml'' ?file None [] = Ready (Inr G) []"
    and auth: "launch_authenticator G = authenticator_new (allow (PeerId [1]) [] whitelist_new)"
    and reg: "launch_registry G = expose ''db'' (LOCALHOST, 5432) None registry_new"
    using exposing_guard_starts by blast
  let ?start = "daemon_start sample_sems G ?file True"
  from sample_daemon_visit obtain g where
    exec: "guard_exec sample_keys sample_sems [AuthRequest (PeerId [1]) HandshakeInit (Some 100) [7], sample_answered, IncomingStream (PeerId [1])]
      (dm_guard ?start) = Some ([sample_challenged, (sample_answered, [Respond (PeerId [1]) (AccessGranted [])]),
        (IncomingStream (PeerId [1]), [Spawn (PeerId [1]) []])], g)"
    by (auto simp: daemon_start_def run_guard_with_control_def auth reg)
  let ?log = "[Loop (AuthRequest (PeerId [1]) HandshakeInit (Some 100) [7]) [Respond (PeerId [1]) (Challenge [7] 100)],
    Loop sample_answered [Respond (PeerId [1]) (AccessGranted [])]]"
  have run: "steps (daemon_step sample_lib ''guard.toml'' sample_keys sample_sems) ?start
      (?log @ [Loop (IncomingStream (PeerId [1])) [Spawn (PeerId [1]) []]]) (?start\<lparr>dm_guard := g\<rparr>)"
    using daemon.network_run [OF exec] by simp
  have "registry g = expose ''db'' (LOCALHOST, 5432) None registry_new"
    using registry_run [OF guard_run_exec [OF exec]] by (simp add: daemon_start_def run_guard_with_control_def guard_start_def reg)
  then obtain f n m out where served: "serve_io sample_header_bincode sample_net (PeerId [1]) (instantly f) []
      (registry (dm_guard (?start\<lparr>dm_guard := g\<rparr>))) = (Served n m, out)"
    using sample_db_served by auto
  have "Spawn (PeerId [1]) [] \<in> set [Spawn (PeerId [1]) []]" by simp
  from daemon_serves_the_listed [OF G run this served] obtain header :: tunnel_header and rest and cfg0 :: guard_config and port role where
    h: "header_in_time sample_header_bincode (instantly f) = Some (Inr (header, rest))" "(service header, port, role) \<in> set (cfg_expose cfg0)"
    by blast
  then have "service header \<in> fst ` set (cfg_expose cfg0)" by force
  with G run h(1) show ?thesis by blast
qed

text \<open>C15 (the graceful shutdown): the loop is asked to stop at most once, with a grace period of 30 seconds. From the moment it hears
  it, no relay is spawned and no challenge is sent, whatever the operator and the network do; its first tick after
  the grace period ends it, with relays in flight or not; and it is over for good.\<close>

theorem daemon_stops_in_time:
  assumes "guard_command L H sw path file ident evs = Ready (Inr G) rest"
    and "steps (daemon_step L path K S) (daemon_start S G file True)
      (log @ Loop (Command (Shutdown d) t0) effs0 # mid @ [Loop (DrainTick t) effs]) s"
    and "t0 + 30000 \<le> t"
  shows "d = from_secs 30 \<and> list_all silent mid \<and> returned (dm_guard s) \<and>
    \<not> list_ex stop_command (dm_queue s) \<and> (\<forall>ev effs s'. \<not> daemon_step L path K S s (Loop ev effs) s')"
proof -
  from assms(2) obtain s1 s2 s3 where run: "steps (daemon_step L path K S) (daemon_start S G file True) log s1"
    and ask: "daemon_step L path K S s1 (Loop (Command (Shutdown d) t0) effs0) s2"
    and mid: "steps (daemon_step L path K S) s2 mid s3" and tick: "daemon_step L path K S s3 (Loop (DrainTick t) effs) s"
    by (auto simp: steps_append)
  from daemon_inv_steps [OF daemon_inv_start [OF assms(1)] run] have inv: "base_inv (launch_registry G) s1" "stop_inv s1"
    by (simp_all add: daemon_inv_def)
  from ask obtain q where q: "dm_queue s1 = Shutdown d # q" by (cases rule: daemon_step.cases) auto
  with inv(1) have d: "d = DEFAULT_SHUTDOWN_GRACE_PERIOD" by (simp add: base_inv_def)
  have "shutdown_deadline (dm_guard s2) = Some (t0 + d)"
    using loop_turn [OF ask] closing_turn [of K S "Command (Shutdown d) t0" "dm_guard s1"] by (auto simp: guard_turn_iff)
  from closing_steps [OF mid stop_inv_step [OF ask inv(2)] this]
  have s3: "shutdown_deadline (dm_guard s3) = Some (t0 + d)" "list_all silent mid" by simp_all
  have stop3: "stop_inv s3" using stop_inv_steps [OF mid stop_inv_step [OF ask inv(2)]] .
  have over: "returned (dm_guard s)"
    using late_tick [OF s3(1) _ loop_turn [OF tick]] assms(3) by (simp add: d DEFAULT_SHUTDOWN_GRACE_PERIOD_def from_secs_def)
  have "stop_inv s" "shutdown_deadline (dm_guard s) \<noteq> None"
    using stop_inv_step [OF tick stop3] closing_step [OF tick stop3 s3(1)] by simp_all
  then have "filter stop_command (dm_queue s) = []" by (auto simp: stop_inv_def split: if_splits)
  moreover have "\<not> daemon_step L path K S s (Loop ev effs) s'" for ev effs s'
    using over loop_turn [of L path K S s ev effs s'] by (auto simp: guard_turn_iff enabled_def)
  ultimately show ?thesis
    using s3(2) over d by (auto simp: DEFAULT_SHUTDOWN_GRACE_PERIOD_def filter_empty_conv list_ex_iff)
qed

theorem daemon_stops_in_time_witness:
  "\<exists>(G :: bytes guard_launch) s. guard_command sample_lib sample_host sample_swarm ''guard.toml'' sample_file None [] = Ready (Inr G) [] \<and>
     steps (daemon_step sample_lib ''guard.toml'' sample_keys sample_sems) (daemon_start sample_sems G sample_file True)
       ([StopSignal, QueueStop] @ Loop (Command (Shutdown (from_secs 30)) 5) [] # [] @ [Loop (DrainTick 30005) []]) s \<and> returned (dm_guard s)"
proof -
  obtain G where G: "guard_command sample_lib sample_host sample_swarm ''guard.toml'' sample_file None [] = Ready (Inr G) []"
    using sample_guard_starts by blast
  let ?R = "daemon_step sample_lib ''guard.toml'' sample_keys sample_sems"
  let ?s0 = "daemon_start sample_sems G sample_file True :: nat daemon"
  let ?s1 = "?s0\<lparr>dm_stop := Stopping\<rparr>"
  let ?s2 = "?s1\<lparr>dm_stop := StopSent, dm_queue := [Shutdown (from_secs 30)]\<rparr>"
  let ?g3 = "(dm_guard ?s2)\<lparr>shutdown_deadline := Some (5 + from_secs 30)\<rparr>"
  let ?s3 = "?s2\<lparr>dm_guard := ?g3, dm_queue := []\<rparr>"
  let ?s4 = "?s3\<lparr>dm_guard := ?g3\<lparr>returned := True\<rparr>\<rparr>"
  note defs = daemon_start_def run_guard_with_control_def guard_start_def
  have "?R ?s0 StopSignal ?s1" by (rule daemon_step.stop_signal) (simp add: defs)
  moreover have "?R ?s1 QueueStop ?s2"
    using daemon_step.queue_stop [of ?s1 sample_lib "''guard.toml''" sample_keys sample_sems]
    by (simp add: defs CONTROL_CAPACITY_def DEFAULT_SHUTDOWN_GRACE_PERIOD_def)
  moreover have "?R ?s2 (Loop (Command (Shutdown (from_secs 30)) 5) []) ?s3"
    by (rule daemon_step.take_command) (simp_all add: defs guard_turn_iff enabled_def guard_step_def handle_command_def)
  moreover have "?R ?s3 (Loop (DrainTick 30005) []) ?s4"
    by (rule daemon_step.other_turn)
      (simp_all add: defs guard_turn_iff enabled_def guard_step_def drain_tick_def from_secs_def sample_sems_def)
  ultimately have run: "steps ?R ?s0 ([StopSignal, QueueStop] @ Loop (Command (Shutdown (from_secs 30)) 5) [] # [] @ [Loop (DrainTick 30005) []]) ?s4"
    by (simp only: append.simps steps.simps) blast
  from daemon_stops_in_time [OF G run] G run show ?thesis by fastforce
qed

end
