(* ===== verification/Session_Steps.thy ===== *)
theory Session_Steps imports Waiting begin

text \<open>
  The session of the Client, event by event. \<open>run_client_session\<close> of \<open>Client\<close> reads the whole list of the events that the swarm
  will yield; a process receives them one at a time, between other tasks. Here the session is a state that takes one event, and
  \<open>run_client_session\<close> is shown to be the run of that machine.
\<close>

section \<open>The machine\<close>

text \<open>A session that reconnects keeps the events since the loss: the result of \<open>reauthenticate\<close> is a function of them.\<close>

datatype session_stage = Serving | Reconnecting "client_event list" | Leaving

record session_task =
  ss_stage :: session_stage
  ss_tries :: "retry list"
  ss_next :: nat

definition session_begin :: "retry list \<Rightarrow> nat \<Rightarrow> session_task" where
  "session_begin tries next_id = \<lparr>ss_stage = Serving, ss_tries = tries, ss_next = next_id\<rparr>"

definition try_reconnect :: "(bytes \<Rightarrow> string + bytes) \<Rightarrow> peer_id \<Rightarrow> client_event list \<Rightarrow> session_task \<Rightarrow> session_task" where
  "try_reconnect sign guard evs s = (case reconnect sign guard (ss_tries s) (ss_next s) evs of
     Pending \<Rightarrow> s\<lparr>ss_stage := Reconnecting evs\<rparr>
   | Ready (tries, next_id) _ \<Rightarrow> \<lparr>ss_stage = Serving, ss_tries = tries, ss_next = next_id\<rparr>)"

definition session_event :: "(bytes \<Rightarrow> string + bytes) \<Rightarrow> peer_id \<Rightarrow> client_event \<Rightarrow> session_task \<Rightarrow> session_task" where
  "session_event sign guard ev s = (case ss_stage s of
     Serving \<Rightarrow> (case ev of
         ConnClosed p n \<Rightarrow> if n = 0 \<and> p = guard then try_reconnect sign guard [] s else s
       | _ \<Rightarrow> s)
   | Reconnecting evs \<Rightarrow> try_reconnect sign guard (evs @ [ev]) s
   | Leaving \<Rightarrow> s)"

text \<open>\<open>select!\<close> looks at the token when the session serves.\<close>

definition session_cancelled :: "session_task \<Rightarrow> session_task" where
  "session_cancelled s = (if ss_stage s = Serving then s\<lparr>ss_stage := Leaving\<rparr> else s)"

text \<open>The machine over a list of events, the token seen as soon as it is looked at.\<close>

definition session_feed :: "(bytes \<Rightarrow> string + bytes) \<Rightarrow> peer_id \<Rightarrow> client_event \<Rightarrow> bool \<times> session_task \<Rightarrow> bool \<times> session_task" where
  "session_feed sign guard ev = (\<lambda>(cancelled, s).
     let cancelled = cancelled \<or> ev = ShutdownRequested; s = session_event sign guard ev s
     in (cancelled, if cancelled then session_cancelled s else s))"

fun same_stage :: "session_state \<Rightarrow> session_stage \<Rightarrow> bool" where
  "same_stage SessionRunning st = (st = Serving)"
| "same_stage SessionReconnecting st = (\<exists>evs. st = Reconnecting evs)"
| "same_stage (SessionDraining _) st = (st = Leaving)"

section \<open>The machine and the loop\<close>

lemma reconnect_nil [simp]: "reconnect sign guard tries next_id [] = Pending"
proof -
  have "\<exists>s t n. reauthenticate_loop sign guard b tries k [] sl = (s, t, n, Pending)" for b k sl
    by (induction tries arbitrary: b k sl) (auto simp: Let_def authenticate_def split: sum.split)
  then show ?thesis by (simp add: reconnect_def reauthenticate_def) (metis (mono_tags, lifting) case_prod_conv outcome.case(1))
qed

lemma feed_leaving: "snd (fold (session_feed sign guard) evs (c, s\<lparr>ss_stage := Leaving\<rparr>)) = s\<lparr>ss_stage := Leaving\<rparr>"
  by (induction evs arbitrary: c) (simp_all add: session_feed_def session_event_def session_cancelled_def Let_def)

text \<open>While the reconnection is pending, the events are kept.\<close>

lemma feed_reconnecting:
  "reconnect sign guard (ss_tries s) (ss_next s) (e @ evs) = Pending \<Longrightarrow>
     fold (session_feed sign guard) evs (c, s\<lparr>ss_stage := Reconnecting e\<rparr>) =
       (c \<or> ShutdownRequested \<in> set evs, s\<lparr>ss_stage := Reconnecting (e @ evs)\<rparr>)"
proof (induction evs arbitrary: c e)
  case (Cons ev evs)
  have "reconnect sign guard (ss_tries s) (ss_next s) (e @ [ev]) = Pending"
    using Cons.prems reconnect.pending_before [of sign guard "ss_tries s" "ss_next s" "e @ [ev]" evs] by simp
  then have "session_feed sign guard ev (c, s\<lparr>ss_stage := Reconnecting e\<rparr>) =
      (c \<or> ev = ShutdownRequested, s\<lparr>ss_stage := Reconnecting (e @ [ev])\<rparr>)"
    by (simp add: session_feed_def session_event_def try_reconnect_def session_cancelled_def Let_def)
  with Cons.IH [of "e @ [ev]" "c \<or> ev = ShutdownRequested"] Cons.prems show ?case by auto
qed simp

lemma feed_reconnected:
  assumes "reconnect sign guard (ss_tries s) (ss_next s) used = Ready (tries, next_id) []"
  shows "fold (session_feed sign guard) used (c, s\<lparr>ss_stage := Reconnecting []\<rparr>) =
    (let c = c \<or> ShutdownRequested \<in> set used; t = \<lparr>ss_stage = Serving, ss_tries = tries, ss_next = next_id\<rparr>
     in (c, if c then session_cancelled t else t))"
proof -
  obtain e ev where u: "used = e @ [ev]" using assms by (cases used rule: rev_cases) simp_all
  from reconnect.pending_prefix [OF assms u] have "reconnect sign guard (ss_tries s) (ss_next s) ([] @ e) = Pending" by simp
  from feed_reconnecting [OF this, of c] assms show ?thesis
    by (auto simp: u session_feed_def session_event_def try_reconnect_def Let_def)
qed

text \<open>One turn of the loop.\<close>

lemma session_loop_turn:
  "run_client_session (Suc b) sign guard False tries next_id (ev # rest) =
     (if ev = ConnClosed guard 0 then case reconnect sign guard tries next_id rest of
          Pending \<Rightarrow> SessionReconnecting
        | Ready (tries', next') rest' \<Rightarrow>
            run_client_session b sign guard (ShutdownRequested \<in> set (take (length rest - length rest') rest)) tries' next' rest'
      else run_client_session b sign guard (ev = ShutdownRequested) tries next_id rest)"
  by (auto simp: reconnect_def split: client_event.split prod.split outcome.split)

lemma session_feed_turn:
  "session_feed sign guard ev (False, session_begin tries next_id) =
     (if ev = ConnClosed guard 0 then (False, (session_begin tries next_id)\<lparr>ss_stage := Reconnecting []\<rparr>)
      else (ev = ShutdownRequested, (if ev = ShutdownRequested then session_cancelled else id) (session_begin tries next_id)))"
  by (auto simp: session_feed_def session_event_def session_begin_def try_reconnect_def Let_def split: client_event.split)

text \<open>The session as a machine: the session loop, which awaits whole reconnections, is the run of a machine that takes one event
  at a time: over any events it serves, reconnects or leaves exactly when the machine does. The length of the list is
  fuel enough.\<close>

theorem session_steps_agree:
  assumes "length evs < b"
  shows "same_stage (run_client_session b sign guard c tries next_id evs)
    (ss_stage (snd (fold (session_feed sign guard) evs
       (c, (if c then session_cancelled else id) (session_begin tries next_id)))))"
  using assms
proof (induction b arbitrary: evs c tries next_id)
  case (Suc b)
  let ?fold = "fold (session_feed sign guard)" and ?s = "session_begin tries next_id"
  note turn = session_loop_turn [of b sign guard tries next_id] and feed = session_feed_turn [of sign guard _ tries next_id]
  have IH: "same_stage (run_client_session b sign guard c' t n evs')
      (ss_stage (snd (?fold evs' (c', (if c' then session_cancelled else id) (session_begin t n)))))"
    if "length evs' < length evs" for c' t n evs' using Suc that by simp
  consider "c" | "\<not> c" "evs = []" | ev rest where "\<not> c" "evs = ev # rest" "ev \<noteq> ConnClosed guard 0"
    | rest where "\<not> c" "evs = ConnClosed guard 0 # rest" by (cases evs) auto
  then show ?case
  proof cases
    case 1
    then show ?thesis using feed_leaving [of sign guard evs True ?s] by (simp add: session_cancelled_def session_begin_def)
  next
    case 2
    then show ?thesis by (simp add: session_begin_def)
  next
    case 3
    then show ?thesis using IH [of rest "ev = ShutdownRequested" tries next_id] by (simp add: turn feed del: run_client_session.simps)
  next
    case 4
    show ?thesis
    proof (cases "reconnect sign guard tries next_id rest")
      case Pending
      then have "?fold rest (False, ?s\<lparr>ss_stage := Reconnecting []\<rparr>) = (ShutdownRequested \<in> set rest, ?s\<lparr>ss_stage := Reconnecting rest\<rparr>)"
        using feed_reconnecting [of sign guard ?s "[]" rest False] by (simp add: session_begin_def)
      with 4 Pending show ?thesis by (simp add: turn feed del: run_client_session.simps)
    next
      case (Ready x rest')
      obtain t n where x: "x = (t, n)" by fastforce
      obtain used where used: "rest = used @ rest'" "reconnect sign guard tries next_id used = Ready x []"
        using reconnect.consumes [OF Ready] by (metis append_Nil2)
      have "?fold used (False, ?s\<lparr>ss_stage := Reconnecting []\<rparr>) =
          (ShutdownRequested \<in> set used, (if ShutdownRequested \<in> set used then session_cancelled else id) (session_begin t n))"
        using feed_reconnected [of sign guard ?s used t n False] used(2) by (simp add: x Let_def session_begin_def)
      with IH [of rest' "ShutdownRequested \<in> set used" t n] 4 Ready show ?thesis
        by (simp add: turn feed x used(1) del: run_client_session.simps)
    qed
  qed
qed simp

text \<open>A loss, a shutdown asked for while the reconnection runs, and its success.\<close>

theorem session_steps_agree_witness:
  "same_stage (run_client_session 5 sample_sign (PeerId [9]) False
      [\<lparr>redial_result = Inr (), already_connected = True, clock_reading = Some 101\<rparr>] 2
      [ConnClosed (PeerId [9]) 0, ShutdownRequested, AuthResponse (PeerId [9]) 2 (Challenge [7] 100),
       AuthResponse (PeerId [9]) 3 (AccessGranted [''admin''])]) Leaving"
proof -
  let ?evs = "[ConnClosed (PeerId [9]) 0, ShutdownRequested, AuthResponse (PeerId [9]) 2 (Challenge [7] 100),
       AuthResponse (PeerId [9]) 3 (AccessGranted [''admin''])]"
  let ?tries = "[\<lparr>redial_result = Inr (), already_connected = True, clock_reading = Some 101\<rparr>]"
  have "length ?evs < 5" by simp
  from session_steps_agree [OF this, of sample_sign "PeerId [9]" False ?tries 2]
  have agree: "same_stage (run_client_session 5 sample_sign (PeerId [9]) False ?tries 2 ?evs)
    (ss_stage (snd (fold (session_feed sample_sign (PeerId [9])) ?evs (False, session_begin ?tries 2))))" by simp
  have "ss_stage (snd (fold (session_feed sample_sign (PeerId [9])) ?evs (False, session_begin ?tries 2))) = Leaving"
    by code_simp
  with agree show ?thesis by simp
qed

section \<open>What a session relies on\<close>

text \<open>A handshake that succeeds lies between two losses of the Guard.\<close>

definition handshake_part :: "(bytes \<Rightarrow> string + bytes) \<Rightarrow> peer_id \<Rightarrow> nat \<Rightarrow> client_event list \<Rightarrow> bool" where
  "handshake_part sign guard first h \<longleftrightarrow> (\<forall>n. ConnClosed guard n \<notin> set h) \<and>
     (\<exists>h1 k n t c sig h2 rs. first \<le> k \<and> sign (challenge_payload n c) = Inr sig \<and>
        h = h1 @ AuthResponse guard k (Challenge n t) # h2 @ [AuthResponse guard (Suc k) (AccessGranted rs)])"

lemma handshake_unbroken:
  "handshake_loop sign now guard awaiting answered next_id sent evs = (sent', next', Ready (Inr rs) rest) \<Longrightarrow>
     \<exists>h. evs = h @ rest \<and> (\<forall>n. ConnClosed guard n \<notin> set h)"
proof (induction evs arbitrary: awaiting answered next_id sent)
  case (Cons ev evs)
  note react = handshake_loop_react [of sign now guard awaiting answered next_id sent ev evs]
  show ?case
  proof (cases "handshake_react sign now guard awaiting answered ev")
    case None
    then have "\<forall>n. ev \<noteq> ConnClosed guard n" by (auto simp: handshake_react_def)
    moreover from Cons.prems None have "handshake_loop sign now guard awaiting answered next_id sent evs = (sent', next', Ready (Inr rs) rest)"
      unfolding react by simp
    from Cons.IH [OF this] obtain h where "evs = h @ rest" "\<forall>n. ConnClosed guard n \<notin> set h" by blast
    ultimately show ?thesis by (intro exI [of _ "ev # h"]) auto
  next
    case (Some r)
    show ?thesis
    proof (cases r)
      case (Inl res)
      with Cons.prems Some have "rest = evs" "res = Inr rs" unfolding react by auto
      with Some Inl show ?thesis by (intro exI [of _ "[ev]"]) (auto simp: handshake_react_def)
    next
      case (Inr answer)
      with Some have "\<forall>n. ev \<noteq> ConnClosed guard n" by (auto simp: handshake_react_def)
      moreover from Cons.prems Some Inr have "handshake_loop sign now guard next_id True (Suc next_id) (sent @ [(next_id, guard, answer)]) evs =
          (sent', next', Ready (Inr rs) rest)" unfolding react by simp
      from Cons.IH [OF this] obtain h where "evs = h @ rest" "\<forall>n. ConnClosed guard n \<notin> set h" by blast
      ultimately show ?thesis by (intro exI [of _ "ev # h"]) auto
    qed
  qed
qed simp

lemma handshake_next: "handshake_loop sign now guard awaiting answered next_id sent evs = (sent', next', out) \<Longrightarrow> next_id \<le> next'"
proof (induction evs arbitrary: awaiting answered next_id sent)
  case (Cons ev evs)
  note react = handshake_loop_react [of sign now guard awaiting answered next_id sent ev evs]
  from Cons show ?case unfolding react
    by (auto split: option.splits sum.splits) (metis Suc_leD)
qed simp

lemma authenticate_next: "authenticate sign now connected guard next_id evs = (sent, next', out) \<Longrightarrow> next_id \<le> next'"
  by (auto simp: authenticate_def split: outcome.splits sum.splits dest!: handshake_next)

lemma authenticate_part:
  assumes "authenticate sign now connected guard next_id evs = (sent, next', Ready (Inr rs) rest)"
  shows "\<exists>w h. evs = w @ h @ rest \<and> handshake_part sign guard next_id h"
proof -
  from assms obtain rest1 where start: "(if connected then Ready (Inr ()) evs else wait_for_peer guard evs) = Ready (Inr ()) rest1"
    and loop: "handshake_loop sign now guard next_id False (Suc next_id) [(next_id, guard, HandshakeInit)] rest1 = (sent, next', Ready (Inr rs) rest)"
    by (auto simp: authenticate_def split: outcome.splits sum.splits)
  from start obtain w where "evs = w @ rest1" using wait_for_peer_prefix [of guard evs] by (cases connected) auto
  moreover obtain h where h: "rest1 = h @ rest" "\<forall>n. ConnClosed guard n \<notin> set h" using handshake_unbroken [OF loop] by blast
  moreover from handshake_loop_fresh [OF loop] h(1) obtain e1 n t sig e2 where
    "h = e1 @ AuthResponse guard next_id (Challenge n t) # e2 @ [AuthResponse guard (Suc next_id) (AccessGranted rs)]"
    "sign (challenge_payload n (unix_now now)) = Inr sig" by auto
  then have "handshake_part sign guard next_id h" using h(2) unfolding handshake_part_def by blast
  ultimately show ?thesis by auto
qed

lemma handshake_part_mono: "handshake_part sign guard m h \<Longrightarrow> n \<le> m \<Longrightarrow> handshake_part sign guard n h"
  unfolding handshake_part_def using le_trans by blast

lemma reauthenticate_part:
  "reauthenticate_loop sign guard backoff tries next_id evs slept = (slept', tries', next', Ready rs rest) \<Longrightarrow>
     next_id \<le> next' \<and> (\<exists>w h. evs = w @ h @ rest \<and> handshake_part sign guard next_id h)"
proof (induction tries arbitrary: backoff next_id evs slept)
  case (Cons t tries)
  show ?case
  proof (cases "redial_result t")
    case (Inl e)
    with Cons show ?thesis by simp
  next
    case (Inr u)
    obtain sent n out where a: "authenticate sign (clock_reading t) (already_connected t) guard next_id evs = (sent, n, out)"
      by (cases "authenticate sign (clock_reading t) (already_connected t) guard next_id evs")
    note le = authenticate_next [OF a]
    consider rs1 rest1 where "out = Ready (Inr rs1) rest1" | e rest1 where "out = Ready (Inl e) rest1"
      using Cons.prems Inr a by (cases out; cases "case out of Ready r _ \<Rightarrow> r") (auto split: sum.splits)
    then show ?thesis
    proof cases
      case 1
      with Cons.prems Inr a have "n = next'" "rest1 = rest" by auto
      with authenticate_part [OF a [unfolded 1]] le show ?thesis by simp
    next
      case 2
      with Cons.prems Inr a have "reauthenticate_loop sign guard (min (backoff * 2) MAX_BACKOFF_SECS) tries n rest1 (slept @ [backoff]) =
          (slept', tries', next', Ready rs rest)" by simp
      from Cons.IH [OF this] obtain w h where "n \<le> next'" "rest1 = w @ h @ rest" "handshake_part sign guard n h" by blast
      moreover obtain used where "evs = used @ rest1" using authenticate_consumes [OF a [unfolded 2]] by blast
      ultimately show ?thesis using le handshake_part_mono by (metis append.assoc le_trans)
    qed
  qed
qed simp

lemma reconnect_part:
  assumes "reconnect sign guard tries next_id evs = Ready (tries', next') rest"
  shows "next_id \<le> next'" "\<exists>w h. evs = w @ h @ rest \<and> handshake_part sign guard next_id h"
  using assms reauthenticate_part
  by (auto simp: reconnect_def reauthenticate_def split: prod.splits outcome.splits)

text \<open>Whatever has come, the network can still let a reconnection succeed: it fails the attempt that waits and answers the next.\<close>

definition good_try :: retry where
  "good_try = \<lparr>redial_result = Inr (), already_connected = True, clock_reading = None\<rparr>"

lemma handshake_cut:
  "handshake_loop sign now guard awaiting answered next_id sent evs = (sent', next', Pending) \<Longrightarrow>
     handshake_loop sign now guard awaiting answered next_id sent (evs @ ConnClosed guard 0 # later) = (sent', next', Ready (Inl AccessDenied) later)"
proof (induction evs arbitrary: awaiting answered next_id sent)
  case (Cons ev evs)
  note react = handshake_loop_react [of sign now guard awaiting answered next_id sent ev]
  from Cons show ?case unfolding append_Cons react by (auto split: option.splits sum.splits)
qed simp

lemma wait_for_peer_cut:
  "wait_for_peer p evs = Pending \<Longrightarrow> wait_for_peer p (evs @ OutgoingError (Some p) e # later) = Ready (Inl (Dial (LibError e))) later"
  by (induction evs) (auto split: client_event.splits option.splits if_splits)

lemma authenticate_cut:
  assumes "authenticate sign now connected guard next_id evs = (sent, n, Pending)"
  shows "\<exists>cut sent' n' e. \<forall>later. authenticate sign now connected guard next_id (evs @ cut @ later) = (sent', n', Ready (Inl e) later)"
proof (cases "\<not> connected \<and> wait_for_peer guard evs = Pending")
  case True
  with wait_for_peer_cut [of guard evs "[]"] show ?thesis
    by (intro exI [of _ "[OutgoingError (Some guard) []]"]) (auto simp: authenticate_def)
next
  case False
  then obtain rest where start: "(if connected then Ready (Inr ()) evs else wait_for_peer guard evs) = Ready (Inr ()) rest"
    and loop: "handshake_loop sign now guard next_id False (Suc next_id) [(next_id, guard, HandshakeInit)] rest = (sent, n, Pending)"
    using assms by (auto simp: authenticate_def split: outcome.splits sum.splits if_splits)
  have "(if connected then Ready (Inr ()) (evs @ extra) else wait_for_peer guard (evs @ extra)) = Ready (Inr ()) (rest @ extra)" for extra
    using start wait_for_peer_consumes [of guard evs "Inr ()" rest] by (auto split: if_splits)
  with handshake_cut [OF loop] show ?thesis
    by (intro exI [of _ "[ConnClosed guard 0]"] exI) (simp add: authenticate_def)
qed

lemma handshake_shorter: "handshake_loop sign now guard awaiting answered next_id sent evs = (sent', next', Ready r rest) \<Longrightarrow> length rest < length evs"
proof (induction evs arbitrary: awaiting answered next_id sent)
  case (Cons ev evs)
  note react = handshake_loop_react [of sign now guard awaiting answered next_id sent ev evs]
  from Cons show ?case unfolding react by (auto split: option.splits sum.splits intro: less_SucI)
qed simp

lemma fresh_try_succeeds:
  assumes "\<forall>m. is_ok (sign m)"
  shows "\<exists>sent n. authenticate sign None True guard next_id
    [AuthResponse guard next_id (Challenge [] 0), AuthResponse guard (Suc next_id) (AccessGranted [])] = (sent, n, Ready (Inr []) [])"
proof -
  obtain sig where "sign (challenge_payload [] (unix_now None)) = Inr sig" using assms by (auto simp: is_ok_iff)
  then show ?thesis by (simp add: authenticate_def on_response_def answer_challenge_def Let_def)
qed

text \<open>One attempt of the loop.\<close>

definition attempt :: "(bytes \<Rightarrow> string + bytes) \<Rightarrow> peer_id \<Rightarrow> retry \<Rightarrow> nat \<Rightarrow> client_event list \<Rightarrow> nat \<times> (nux_error + role list) outcome" where
  "attempt sign guard t next_id evs = (case redial_result t of
     Inl e \<Rightarrow> (next_id, Ready (Inl (Dial (LibError e))) evs)
   | Inr _ \<Rightarrow> snd (authenticate sign (clock_reading t) (already_connected t) guard next_id evs))"

lemma reauthenticate_attempt:
  "reauthenticate_loop sign guard b (t # tries) next_id evs slept = (case attempt sign guard t next_id evs of (n, out) \<Rightarrow> (case out of
     Pending \<Rightarrow> (slept, tries, n, Pending) | Ready (Inr rs) rest \<Rightarrow> (slept, tries, n, Ready rs rest)
   | Ready (Inl _) rest \<Rightarrow> reauthenticate_loop sign guard (min (b * 2) MAX_BACKOFF_SECS) tries n rest (slept @ [b])))"
  by (simp add: attempt_def)

lemma attempt_extends:
  assumes "attempt sign guard t next_id evs = (n, Ready r rest)"
  shows "attempt sign guard t next_id (evs @ later) = (n, Ready r (rest @ later))"
proof (cases "redial_result t")
  case (Inr u)
  with assms obtain sent where "authenticate sign (clock_reading t) (already_connected t) guard next_id evs = (sent, n, Ready r rest)"
    by (cases "authenticate sign (clock_reading t) (already_connected t) guard next_id evs") (auto simp: attempt_def)
  from authenticate_consumes [OF this] Inr show ?thesis by (auto simp: attempt_def)
qed (use assms in \<open>auto simp: attempt_def\<close>)

lemma attempt_cut:
  assumes "attempt sign guard t next_id evs = (n, Pending)"
  shows "\<exists>cut n' e. \<forall>later. attempt sign guard t next_id (evs @ cut @ later) = (n', Ready (Inl e) later)"
proof -
  obtain u sent where "redial_result t = Inr u" "authenticate sign (clock_reading t) (already_connected t) guard next_id evs = (sent, n, Pending)"
    using assms by (cases "authenticate sign (clock_reading t) (already_connected t) guard next_id evs") (auto simp: attempt_def split: sum.splits)
  moreover from authenticate_cut [OF this(2)] obtain cut sent' n' e where
    "\<And>later. authenticate sign (clock_reading t) (already_connected t) guard next_id (evs @ cut @ later) = (sent', n', Ready (Inl e) later)" by blast
  ultimately show ?thesis by (intro exI [of _ cut] exI) (simp add: attempt_def)
qed

lemma retry_can_succeed:
  assumes "\<forall>m. is_ok (sign m)"
  shows "\<exists>extra later s t n' rs rest. reauthenticate_loop sign guard b extra next_id (evs @ later) slept = (s, t, n', Ready rs rest)"
proof (induction evs arbitrary: b next_id slept rule: length_induct)
  case (1 evs)
  obtain n out where a: "attempt sign guard good_try next_id evs = (n, out)" by fastforce
  show ?case
  proof (cases out)
    case (Ready r rest)
    show ?thesis
    proof (cases r)
      case (Inr rs)
      with a Ready have "reauthenticate_loop sign guard b [good_try] next_id (evs @ []) slept = (slept, [], n, Ready rs rest)"
        by (simp add: reauthenticate_attempt del: reauthenticate_loop.simps(2))
      then show ?thesis by blast
    next
      case (Inl e)
      have "length rest < length evs"
        using a unfolding Ready by (simp add: attempt_def good_try_def authenticate_def) (metis handshake_shorter prod.collapse)
      with 1 obtain extra later s t n' rs rest' where
        "reauthenticate_loop sign guard (min (b * 2) MAX_BACKOFF_SECS) extra n (rest @ later) (slept @ [b]) = (s, t, n', Ready rs rest')" by blast
      with attempt_extends [OF a [unfolded Ready]] Inl have
        "reauthenticate_loop sign guard b (good_try # extra) next_id (evs @ later) slept = (s, t, n', Ready rs rest')"
        by (simp add: reauthenticate_attempt del: reauthenticate_loop.simps(2))
      then show ?thesis by blast
    qed
  next
    case Pending
    with a obtain cut n' e where cut: "\<And>later. attempt sign guard good_try next_id (evs @ cut @ later) = (n', Ready (Inl e) later)"
      using attempt_cut by blast
    obtain sent n'' where "authenticate sign None True guard n' [AuthResponse guard n' (Challenge [] 0), AuthResponse guard (Suc n') (AccessGranted [])]
      = (sent, n'', Ready (Inr []) [])" using fresh_try_succeeds [OF assms] by blast
    then have "attempt sign guard good_try n' [AuthResponse guard n' (Challenge [] 0), AuthResponse guard (Suc n') (AccessGranted [])] =
      (n'', Ready (Inr []) [])" by (simp add: attempt_def good_try_def)
    with cut have "reauthenticate_loop sign guard b [good_try, good_try] next_id
        (evs @ cut @ [AuthResponse guard n' (Challenge [] 0), AuthResponse guard (Suc n') (AccessGranted [])]) slept =
      (slept @ [b], [], n'', Ready [] [])"
      by (simp add: reauthenticate_attempt del: reauthenticate_loop.simps(2))
    then show ?thesis by blast
  qed
qed

lemma reauthenticate_can_succeed:
  assumes "\<forall>m. is_ok (sign m)"
  shows "\<exists>extra later s t n' rs rest. reauthenticate_loop sign guard b (tries @ extra) next_id (evs @ later) slept = (s, t, n', Ready rs rest)"
proof (induction tries arbitrary: b next_id evs slept)
  case Nil
  from retry_can_succeed [OF assms] show ?case by simp
next
  case (Cons x tries)
  obtain n out where a: "attempt sign guard x next_id evs = (n, out)" by fastforce
  consider rs rest where "out = Ready (Inr rs) rest" | cut n' e where "\<And>later. attempt sign guard x next_id (evs @ cut @ later) = (n', Ready (Inl e) later)"
    | e rest where "out = Ready (Inl e) rest"
  proof (cases out)
    case Pending
    with a attempt_cut that(2) show thesis by blast
  next
    case (Ready r rest)
    with that(1,3) show thesis by (cases r) auto
  qed
  then show ?case
  proof cases
    case 1
    with a have "reauthenticate_loop sign guard b ((x # tries) @ []) next_id (evs @ []) slept = (slept, tries, n, Ready rs rest)"
      by (simp add: reauthenticate_attempt del: reauthenticate_loop.simps(2))
    then show ?thesis by blast
  next
    case 2
    from Cons.IH [of "min (b * 2) MAX_BACKOFF_SECS" n' "[]" "slept @ [b]"] obtain extra later s t n'' rs rest where
      "reauthenticate_loop sign guard (min (b * 2) MAX_BACKOFF_SECS) (tries @ extra) n' later (slept @ [b]) = (s, t, n'', Ready rs rest)" by auto
    with 2 have "reauthenticate_loop sign guard b ((x # tries) @ extra) next_id (evs @ cut @ later) slept = (s, t, n'', Ready rs rest)"
      by (simp add: reauthenticate_attempt del: reauthenticate_loop.simps(2))
    then show ?thesis by blast
  next
    case 3
    from Cons.IH [of "min (b * 2) MAX_BACKOFF_SECS" n rest "slept @ [b]"] obtain extra later s t n'' rs rest' where
      "reauthenticate_loop sign guard (min (b * 2) MAX_BACKOFF_SECS) (tries @ extra) n (rest @ later) (slept @ [b]) = (s, t, n'', Ready rs rest')" by blast
    with attempt_extends [OF a [unfolded 3]] have
      "reauthenticate_loop sign guard b ((x # tries) @ extra) next_id (evs @ later) slept = (s, t, n'', Ready rs rest')"
      by (simp add: reauthenticate_attempt del: reauthenticate_loop.simps(2))
    then show ?thesis by blast
  qed
qed

lemma reauthenticate_more_tries:
  "reauthenticate_loop sign guard b tries next_id evs slept = (s, t, n, Ready rs rest) \<Longrightarrow>
     reauthenticate_loop sign guard b (tries @ extra) next_id evs slept = (s, t @ extra, n, Ready rs rest)"
proof (induction tries arbitrary: b next_id evs slept)
  case (Cons x tries)
  obtain m out where a: "attempt sign guard x next_id evs = (m, out)" by fastforce
  note loop = reauthenticate_attempt a prod.case
  show ?case
  proof (cases out)
    case Pending
    with Cons.prems show ?thesis unfolding append_Cons loop by simp
  next
    case (Ready r rest')
    show ?thesis
    proof (cases r)
      case (Inl e)
      from Cons.IH Cons.prems show ?thesis unfolding append_Cons loop Ready Inl outcome.case sum.case by blast
    next
      case (Inr rs')
      from Cons.prems show ?thesis unfolding append_Cons loop Ready Inr outcome.case sum.case by simp
    qed
  qed
qed simp

lemma reconnect_more_tries:
  "reconnect sign guard tries next_id evs = Ready (t, n) rest \<Longrightarrow> reconnect sign guard (tries @ extra) next_id evs = Ready (t @ extra, n) rest"
proof -
  assume "reconnect sign guard tries next_id evs = Ready (t, n) rest"
  then obtain slept rs where "reauthenticate_loop sign guard INITIAL_BACKOFF_SECS tries next_id evs [] = (slept, t, n, Ready rs rest)"
    by (auto simp: reconnect_def reauthenticate_def split: prod.splits outcome.splits)
  from reauthenticate_more_tries [OF this] show ?thesis by (simp add: reconnect_def reauthenticate_def)
qed

lemma reconnect_can_succeed:
  assumes "\<forall>m. is_ok (sign m)"
  shows "\<exists>extra later x rest. reconnect sign guard (tries @ extra) next_id (evs @ later) = Ready x rest"
proof -
  from reauthenticate_can_succeed [OF assms] obtain extra later s t n rs rest where
    "reauthenticate_loop sign guard INITIAL_BACKOFF_SECS (tries @ extra) next_id (evs @ later) [] = (s, t, n, Ready rs rest)" by blast
  then have "reconnect sign guard (tries @ extra) next_id (evs @ later) = Ready (t, n) rest"
    by (simp add: reconnect_def reauthenticate_def)
  then show ?thesis by blast
qed

text \<open>The session that has lost nothing.\<close>

lemma session_undisturbed:
  assumes "ConnClosed guard 0 \<notin> set evs" "length evs < b"
  shows "run_client_session b sign guard False tries next_id evs =
    (if ShutdownRequested \<in> set evs then SessionDraining (tl (dropWhile (\<lambda>e. e \<noteq> ShutdownRequested) evs)) else SessionRunning)"
  using assms
proof (induction evs arbitrary: b)
  case (Cons ev evs)
  then obtain b' where b: "b = Suc b'" "length evs < b'" by (cases b) auto
  then obtain b'' where "b' = Suc b''" by (cases b') auto
  with Cons b show ?case
    by (cases "ev = ShutdownRequested") (auto simp: session_loop_turn simp del: run_client_session.simps(2), simp)
next
  case (Nil b)
  then show ?case by (cases b) simp_all
qed

text \<open>After the last loss the Guard has granted access again.\<close>

lemma session_regained:
  assumes "run_client_session b sign guard False tries next_id evs \<noteq> SessionReconnecting" "length evs < b"
    and "evs = e1 @ ConnClosed guard 0 # e2" "ConnClosed guard 0 \<notin> set e2" "ShutdownRequested \<notin> set e1"
  shows "\<exists>u h v. e2 = u @ h @ v \<and> handshake_part sign guard next_id h"
  using assms
proof (induction b arbitrary: evs e1 tries next_id)
  case (Suc b)
  obtain ev rest where ev: "evs = ev # rest" using Suc.prems(3) by (metis append_is_Nil_conv list.distinct(1) neq_Nil_conv)
  note turn = session_loop_turn [of b sign guard tries next_id ev rest, folded ev]
  show ?case
  proof (cases "ev = ConnClosed guard 0")
    case False
    with Suc.prems(3) ev obtain e1' where e1: "e1 = ev # e1'" "rest = e1' @ ConnClosed guard 0 # e2" by (cases e1) auto
    with Suc.prems(5) have "ev \<noteq> ShutdownRequested" by auto
    with Suc.prems(1) False have "run_client_session b sign guard False tries next_id rest \<noteq> SessionReconnecting" by (simp only: turn) simp
    with Suc.IH [OF this] e1 Suc.prems ev show ?thesis by simp
  next
    case True
    then obtain tries' next' rest' where r: "reconnect sign guard tries next_id rest = Ready (tries', next') rest'"
      using Suc.prems(1) turn by (cases "reconnect sign guard tries next_id rest") auto
    from reconnect_part [OF r] obtain w h where h: "next_id \<le> next'" "rest = w @ h @ rest'" "handshake_part sign guard next_id h" by blast
    have whole: "evs = (ev # w) @ h @ rest'" by (simp add: ev h(2))
    show ?thesis
    proof (cases "ConnClosed guard 0 \<in> set rest'")
      case last: True
      then obtain a c where ac: "rest' = a @ ConnClosed guard 0 # c" "ConnClosed guard 0 \<notin> set c" using split_list_last by fast
      with whole Suc.prems(3,4) have same: "e1 = (ev # w) @ h @ a" "e2 = c"
        by (auto simp: append_eq_append_conv2 append_eq_Cons_conv Cons_eq_append_conv)
      have quiet: "ShutdownRequested \<notin> set (take (length rest - length rest') rest)" "ShutdownRequested \<notin> set a"
        using Suc.prems(5) by (auto simp: same h(2))
      with Suc.prems(1) True r have "run_client_session b sign guard False tries' next' rest' \<noteq> SessionReconnecting" by (simp only: turn) simp
      from Suc.IH [OF this _ ac(1) [folded same(2)] Suc.prems(4) quiet(2)] Suc.prems(2) obtain u h' v where "e2 = u @ h' @ v" "handshake_part sign guard next' h'"
        by (auto simp: whole)
      with h(1) handshake_part_mono show ?thesis by blast
    next
      case False
      have "ConnClosed guard 0 \<notin> set h" using h(3) by (auto simp: handshake_part_def)
      then have "\<exists>u. e2 = u @ h @ rest'"
        using Suc.prems(3,4) whole False
        by (auto simp: append_eq_append_conv2 append_eq_Cons_conv Cons_eq_append_conv)
      with h(3) show ?thesis by blast
    qed
  qed
qed simp

text \<open>The network can bring any session to rest.\<close>

lemma session_can_settle:
  assumes "\<forall>m. is_ok (sign m)"
  shows "\<exists>extra later. \<forall>b > length (evs @ later). run_client_session b sign guard c (tries @ extra) next_id (evs @ later) \<noteq> SessionReconnecting"
proof (induction evs arbitrary: c tries next_id rule: length_induct)
  case (1 evs)
  have over: "run_client_session b sign guard True t n es \<noteq> SessionReconnecting" for b t n es by (cases b) simp_all
  have rest0: "run_client_session b sign guard c' t n [] \<noteq> SessionReconnecting" for b t n c' by (cases b) simp_all
  consider "c \<or> evs = []" | ev rest where "\<not> c" "evs = ev # rest" "ev \<noteq> ConnClosed guard 0"
    | rest where "\<not> c" "evs = ConnClosed guard 0 # rest" by (cases evs) auto
  then show ?case
  proof cases
    case 1
    then have "run_client_session b sign guard c (tries @ []) next_id (evs @ []) \<noteq> SessionReconnecting" for b
      using over rest0 by (cases c) auto
    then show ?thesis by blast
  next
    case 2
    with 1 obtain extra later where IH: "\<forall>b > length (rest @ later). run_client_session b sign guard (ev = ShutdownRequested) (tries @ extra) next_id (rest @ later)
        \<noteq> SessionReconnecting" by (metis length_Cons lessI)
    have "run_client_session b sign guard c (tries @ extra) next_id (evs @ later) \<noteq> SessionReconnecting" if "b > length (evs @ later)" for b
    proof -
      from that 2 obtain b' where "b = Suc b'" "b' > length (rest @ later)" by (cases b) auto
      with IH 2 show ?thesis by (simp add: session_loop_turn del: run_client_session.simps)
    qed
    then show ?thesis by blast
  next
    case 3
    have settled: ?thesis
      if r: "reconnect sign guard (tries @ extra) next_id (rest @ l1) = Ready (t, n) rest'" and short: "length rest' < length evs" for extra l1 t n rest'
    proof -
      let ?c = "ShutdownRequested \<in> set (take (length (rest @ l1) - length rest') (rest @ l1))"
      from 1 short obtain extra2 l2 where IH: "\<forall>b > length (rest' @ l2). run_client_session b sign guard ?c (t @ extra2) n (rest' @ l2) \<noteq> SessionReconnecting"
        by blast
      obtain used where used: "rest @ l1 = used @ rest'" using reconnect.consumes [OF r] by blast
      from reconnect.extends [OF reconnect_more_tries [OF r], of extra2 l2] have r2:
        "reconnect sign guard (tries @ extra @ extra2) next_id (rest @ l1 @ l2) = Ready (t @ extra2, n) (rest' @ l2)" by simp
      have c: "take (length (rest @ l1 @ l2) - length (rest' @ l2)) (rest @ l1 @ l2) = take (length (rest @ l1) - length rest') (rest @ l1)"
        using used by (metis add_diff_cancel_right append.assoc append_eq_conv_conj diff_add_inverse2 length_append)
      have "run_client_session b sign guard c (tries @ extra @ extra2) next_id (evs @ l1 @ l2) \<noteq> SessionReconnecting"
        if "b > length (evs @ l1 @ l2)" for b
      proof -
        from that 3 obtain b' where b': "b = Suc b'" "b' > length (rest @ l1 @ l2)" by (cases b) auto
        moreover have "length (rest' @ l2) < b'" using b'(2) arg_cong [OF used, of length] by simp
        ultimately show ?thesis using IH 3 r2 by (simp add: session_loop_turn c [simplified] del: run_client_session.simps)
      qed
      then show ?thesis by blast
    qed
    from reconnect_can_succeed [OF assms] obtain extra later t n rest' where
      r: "reconnect sign guard (tries @ extra) next_id (rest @ later) = Ready (t, n) rest'" by (metis prod.collapse)
    from reconnect.consumes [OF r] obtain used where used: "rest @ later = used @ rest'"
      "\<And>more. reconnect sign guard (tries @ extra) next_id (used @ more) = Ready (t, n) more" by blast
    consider l where "used = rest @ l" | r0 where "rest = used @ r0"
      using used(1) by (auto simp: append_eq_append_conv2)
    then show ?thesis
    proof cases
      case (1 l)
      with used(2) [of "[]"] settled [of extra l t n "[]"] 3 show ?thesis by simp
    next
      case (2 r0)
      with used(2) [of r0] settled [of extra "[]" t n r0] 3 show ?thesis by simp
    qed
  qed
qed

section \<open>Property\<close>

text \<open>C21 (the session of a Client), for any events of the network, with the number of events as fuel: as long as one connection to the Guard is
  left the session does not reconnect, and leaves at the first shutdown; once the last connection is lost it
  is reconnecting, and is out of it only if, after the last such loss, that Guard has sent a challenge, which
  the key signs, and has granted access in answer, with no connection to it closed in between, to requests younger than the session. If the key signs,
  no sequence of events is a dead end: the network can always answer so that the session is out of the reconnection.\<close>

theorem session_regains_the_guard:
  assumes "length evs < b"
  shows "(ConnClosed guard 0 \<notin> set evs \<longrightarrow> run_client_session b sign guard False tries next_id evs =
      (if ShutdownRequested \<in> set evs then SessionDraining (tl (dropWhile (\<lambda>e. e \<noteq> ShutdownRequested) evs)) else SessionRunning)) \<and>
    (\<forall>e1 e2. evs = e1 @ ConnClosed guard 0 # e2 \<and> ConnClosed guard 0 \<notin> set e2 \<and> ShutdownRequested \<notin> set e1 \<and>
        run_client_session b sign guard False tries next_id evs \<noteq> SessionReconnecting \<longrightarrow>
      (\<exists>h1 k n t c sig h2 rs v. e2 = h1 @ AuthResponse guard k (Challenge n t) # h2 @ AuthResponse guard (Suc k) (AccessGranted rs) # v \<and>
        next_id \<le> k \<and> sign (challenge_payload n c) = Inr sig \<and> (\<forall>m. ConnClosed guard m \<notin> set h2))) \<and>
    ((\<forall>m. is_ok (sign m)) \<longrightarrow> (\<exists>extra later. \<forall>b > length (evs @ later).
      run_client_session b sign guard False (tries @ extra) next_id (evs @ later) \<noteq> SessionReconnecting))"
proof (intro conjI impI allI)
  fix e1 e2
  assume e: "evs = e1 @ ConnClosed guard 0 # e2 \<and> ConnClosed guard 0 \<notin> set e2 \<and> ShutdownRequested \<notin> set e1 \<and>
    run_client_session b sign guard False tries next_id evs \<noteq> SessionReconnecting"
  with session_regained [of b sign guard tries next_id evs e1 e2] assms obtain u h v where uhv: "e2 = u @ h @ v" "handshake_part sign guard next_id h"
    by blast
  from uhv(2) obtain h1 k n t c sig h2 rs where "next_id \<le> k" "sign (challenge_payload n c) = Inr sig"
    "h = h1 @ AuthResponse guard k (Challenge n t) # h2 @ [AuthResponse guard (Suc k) (AccessGranted rs)]" "\<forall>m. ConnClosed guard m \<notin> set h2"
    by (auto simp: handshake_part_def)
  with uhv(1) show "\<exists>h1 k n t c sig h2 rs v. e2 = h1 @ AuthResponse guard k (Challenge n t) # h2 @ AuthResponse guard (Suc k) (AccessGranted rs) # v \<and>
        next_id \<le> k \<and> sign (challenge_payload n c) = Inr sig \<and> (\<forall>m. ConnClosed guard m \<notin> set h2)"
    by (intro exI [of _ "u @ h1"] exI [of _ k] exI [of _ n] exI [of _ t] exI [of _ c] exI [of _ sig] exI [of _ h2] exI [of _ rs] exI [of _ v]) simp
qed (use session_undisturbed session_can_settle assms in blast)+

text \<open>A loss, and the Guard that grants access again.\<close>

theorem session_regains_the_guard_witness:
  "\<exists>extra later. \<forall>b > length ([ConnClosed (PeerId [9]) 0, OtherClientEvent] @ later).
     run_client_session b sample_sign (PeerId [9]) False ([] @ extra) 2 ([ConnClosed (PeerId [9]) 0, OtherClientEvent] @ later) \<noteq> SessionReconnecting"
  using session_regains_the_guard [of "[ConnClosed (PeerId [9]) 0, OtherClientEvent]" 3 "PeerId [9]" sample_sign "[]" 2]
  by (simp add: sample_sign_def is_ok_def)

end
