(* ===== verification/Sync_Process.thy ===== *)
theory Sync_Process imports Sync_Config begin

text \<open>
  The process of \<^verbatim>\<open>sync-config\<close> of \<^verbatim>\<open>crates/nux-cli/src/main.rs\<close> and its signals. \<open>Sync_Config\<close> has the turns of the loop; here they
  take time. The process listens to the signals only while it sleeps. As the runtime has it, the first listener of a signal replaces the
  default action, which kills, for the rest of the process, and a listener hears only what comes after it was made.
\<close>

section \<open>The signals\<close>

datatype stop_signal = CtrlC | Terminate

text \<open>\<open>term_ok\<close>: whether a listener of \<^verbatim>\<open>SIGTERM\<close> can be had; without one only \<^verbatim>\<open>Ctrl-C\<close> is heard.\<close>

definition listens_to :: "bool \<Rightarrow> stop_signal list" where
  "listens_to term_ok = (if term_ok then [CtrlC, Terminate] else [CtrlC])"

text \<open>\<^verbatim>\<open>wait_for_shutdown_signal\<close> over the signals that arrive; \<open>None\<close>: it is still waiting.\<close>

definition wait_for_shutdown_signal :: "bool \<Rightarrow> stop_signal list \<Rightarrow> stop_signal option" where
  "wait_for_shutdown_signal term_ok sigs = find (\<lambda>s. s \<in> set (listens_to term_ok)) sigs"

section \<open>The process\<close>

datatype sync_phase = Polling | Sleeping | Stopped | Killed

record sync_process =
  sp_phase :: sync_phase
  sp_handled :: "stop_signal list"
  sp_state :: sync_state

datatype sync_label = PollDone poll | Elapsed | Arrived stop_signal

definition sync_process_start :: "io_error + string \<Rightarrow> sync_process" where
  "sync_process_start f = \<lparr>sp_phase = Polling, sp_handled = [], sp_state = sync_start f\<rparr>"

text \<open>\<open>None\<close>: the label cannot happen.\<close>

fun sync_process_step :: "config_lib \<Rightarrow> string \<Rightarrow> bool \<Rightarrow> sync_label \<Rightarrow> sync_process \<Rightarrow> sync_process option" where
  "sync_process_step L path term_ok (PollDone p) s =
     (if sp_phase s = Polling
      then Some (s\<lparr>sp_phase := Sleeping, sp_handled := listens_to term_ok, sp_state := sync_turn L path p (sp_state s)\<rparr>)
      else None)"
| "sync_process_step L path term_ok Elapsed s = (if sp_phase s = Sleeping then Some (s\<lparr>sp_phase := Polling\<rparr>) else None)"
| "sync_process_step L path term_ok (Arrived sig) s = (case sp_phase s of
       Polling \<Rightarrow> Some (if sig \<in> set (sp_handled s) then s else s\<lparr>sp_phase := Killed\<rparr>)
     | Sleeping \<Rightarrow> Some (case wait_for_shutdown_signal term_ok [sig] of
           Some _ \<Rightarrow> s\<lparr>sp_phase := Stopped\<rparr>
         | None \<Rightarrow> if sig \<in> set (sp_handled s) then s else s\<lparr>sp_phase := Killed\<rparr>)
     | _ \<Rightarrow> None)"

fun sync_process_run :: "config_lib \<Rightarrow> string \<Rightarrow> bool \<Rightarrow> sync_label list \<Rightarrow> sync_process \<Rightarrow> sync_process option" where
  "sync_process_run L path term_ok [] s = Some s"
| "sync_process_run L path term_ok (l # ls) s = Option.bind (sync_process_step L path term_ok l s) (sync_process_run L path term_ok ls)"

lemma sync_process_run_append:
  "sync_process_run L path term_ok (ls @ ls') s = Option.bind (sync_process_run L path term_ok ls s) (sync_process_run L path term_ok ls')"
  by (induction ls arbitrary: s) (auto split: bind_split)

fun polls_done :: "sync_label list \<Rightarrow> poll list" where
  "polls_done [] = []"
| "polls_done (PollDone p # ls) = p # polls_done ls"
| "polls_done (_ # ls) = polls_done ls"

lemma polls_done_append [simp]: "polls_done (ls @ ls') = polls_done ls @ polls_done ls'"
  by (induction ls rule: polls_done.induct) simp_all

text \<open>The listeners are installed by the first turn; the state is the one of the turns done.\<close>

definition process_inv :: "config_lib \<Rightarrow> string \<Rightarrow> bool \<Rightarrow> io_error + string \<Rightarrow> sync_label list \<Rightarrow> sync_process \<Rightarrow> bool" where
  "process_inv L path term_ok f log s \<longleftrightarrow>
     sp_handled s = (if polls_done log = [] then [] else listens_to term_ok) \<and>
     (polls_done log = [] \<longrightarrow> sp_phase s \<in> {Polling, Killed}) \<and>
     sp_state s = fold (sync_turn L path) (polls_done log) (sync_start f)"

lemma process_inv_run:
  "sync_process_run L path term_ok log (sync_process_start f) = Some s \<Longrightarrow> process_inv L path term_ok f log s"
proof (induction log arbitrary: s rule: rev_induct)
  case Nil
  then show ?case by (auto simp: process_inv_def sync_process_start_def)
next
  case (snoc l log)
  then obtain s1 where "process_inv L path term_ok f log s1" "sync_process_step L path term_ok l s1 = Some s"
    by (auto simp: sync_process_run_append bind_eq_Some_conv)
  then show ?case
    by (cases l) (auto simp: process_inv_def split: if_splits sync_phase.splits option.splits)
qed

lemma wait_for_one: "wait_for_shutdown_signal term_ok [sig] = (if sig \<in> set (listens_to term_ok) then Some sig else None)"
  by (simp add: wait_for_shutdown_signal_def)

text \<open>The turns are those of \<open>sync_config_loop\<close>, whose poll has the flag \<open>stops\<close> when the signal comes during the sleep that follows.\<close>

lemma sync_config_loop_fold:
  "list_all (\<lambda>p. \<not> stops p) ps \<Longrightarrow> sync_config_loop L path ps s = fold (sync_turn L path) ps s"
  by (induction ps arbitrary: s) (simp_all add: Let_def)

section \<open>Property\<close>

text \<open>C28 (what a signal does to \<^verbatim>\<open>sync-config\<close>), in any state the process can reach: asleep, a signal it listens to ends it at once, with
  the file as the turns done so far have left it. Polling, the same signal is lost: nothing is changed, then or later. Only before
  the first turn is over does it kill, as does a \<^verbatim>\<open>SIGTERM\<close> that it cannot listen to, at any time.\<close>

theorem signal_to_sync_config:
  assumes "sync_process_run L path term_ok log (sync_process_start f) = Some s" "sp_phase s \<in> {Polling, Sleeping}"
  shows "sync_process_step L path term_ok (Arrived sig) s = Some (
      if sp_phase s = Sleeping \<and> (sig = CtrlC \<or> term_ok) then s\<lparr>sp_phase := Stopped\<rparr>
      else if polls_done log \<noteq> [] \<and> (sig = CtrlC \<or> term_ok) then s
      else s\<lparr>sp_phase := Killed\<rparr>) \<and>
    sp_state s = fold (sync_turn L path) (polls_done log) (sync_start f)"
proof -
  have inv: "process_inv L path term_ok f log s" using process_inv_run [OF assms(1)] .
  have listens: "sig \<in> set (listens_to b) \<longleftrightarrow> sig = CtrlC \<or> b" for b
    by (cases sig) (simp_all add: listens_to_def)
  from assms(2) inv show ?thesis
    by (auto simp: process_inv_def wait_for_one listens)
qed

text \<open>A signal during the second poll: the process sleeps on as if none had come.\<close>

theorem signal_to_sync_config_witness:
  "\<exists>s. sync_process_run sample_lib ''guard.toml'' True [PollDone (sample_poll sample_remote), Elapsed]
      (sync_process_start (Inr (enumerated_print sample_doc))) = Some s \<and>
     sync_process_step sample_lib ''guard.toml'' True (Arrived Terminate) s = Some s"
proof -
  obtain s where s: "sync_process_run sample_lib ''guard.toml'' True [PollDone (sample_poll sample_remote), Elapsed]
      (sync_process_start (Inr (enumerated_print sample_doc))) = Some s" "sp_phase s = Polling"
    by (simp add: sync_process_start_def)
  with signal_to_sync_config [OF s(1), of Terminate] show ?thesis by auto
qed

text \<open>However many signals come during the polls, the process goes on.\<close>

lemma deaf_while_polling:
  assumes "sp_phase s = Polling" "sp_handled s = listens_to True"
  shows "\<exists>s'. sync_process_run L path True (concat (map (\<lambda>p. [Arrived Terminate, PollDone p, Elapsed]) ps)) s = Some s' \<and>
    sp_phase s' = Polling \<and> sp_handled s' = listens_to True \<and> sp_state s' = fold (sync_turn L path) ps (sp_state s)"
  using assms
proof (induction ps arbitrary: s)
  case (Cons p ps)
  let ?s = "s\<lparr>sp_phase := Polling, sp_handled := listens_to True, sp_state := sync_turn L path p (sp_state s)\<rparr>"
  have "sync_process_run L path True [Arrived Terminate, PollDone p, Elapsed] s = Some ?s"
    using Cons.prems by (simp add: listens_to_def)
  then have "sync_process_run L path True (concat (map (\<lambda>p. [Arrived Terminate, PollDone p, Elapsed]) (p # ps))) s =
      sync_process_run L path True (concat (map (\<lambda>p. [Arrived Terminate, PollDone p, Elapsed]) ps)) ?s"
    by (simp only: list.map concat.simps sync_process_run_append bind.bind_lunit)
  with Cons.IH [of ?s] show ?case by simp
qed simp

end
