(* ===== verification/Client_Process.thy ===== *)
theory Client_Process imports Session_Steps Guard_Daemon Sync_Process "HOL-Library.Multiset" begin

text \<open>
  The command \<^verbatim>\<open>client\<close> of \<^verbatim>\<open>crates/nux-cli/src/main.rs\<close> once it is authenticated: the session, one task for each local forward with the
  relays it has spawned, the task that waits for a signal, and the token that the signal cancels. The tasks interleave
  freely; \<open>select!\<close> takes either of two ready branches. The process ends with the session, and what still runs is cut.
  The source spawns each forward as soon as it is bound; the process modelled starts once all are. A later bind that fails is an error of
  \<open>client_command\<close> and ends the program, with whatever the forwards already bound have relayed until then.
\<close>

section \<open>A forward\<close>

text \<open>\<open>fw_uids\<close>: the users a Unix socket admits; \<open>None\<close> for a TCP port, which admits every local process.\<close>

datatype fw_stage = FwAccepting | FwPausing instant | FwDraining instant | FwOver

record 'c forward_task =
  fw_service :: string
  fw_uids :: "u32 list option"
  fw_stage :: fw_stage
  fw_relays :: "'c list"

datatype 'c fw_label =
    Accepts 'c "io_error + u32" | AcceptError io_error | Resumes | RelayEnds 'c | SeesToken | Drained | GraceOver

definition forward_of :: "string \<Rightarrow> u32 list option \<Rightarrow> 'c forward_task" where
  "forward_of srv uids = \<lparr>fw_service = srv, fw_uids = uids, fw_stage = FwAccepting, fw_relays = []\<rparr>"

definition admits :: "'c forward_task \<Rightarrow> io_error + u32 \<Rightarrow> bool" where
  "admits f cred = (case fw_uids f of None \<Rightarrow> True | Some uids \<Rightarrow> peer_uid_authorized cred uids)"

definition ACCEPT_PAUSE :: duration where "ACCEPT_PAUSE = 100"

text \<open>\<open>None\<close>: the label cannot happen.\<close>

fun fw_step :: "bool \<Rightarrow> instant \<Rightarrow> 'c fw_label \<Rightarrow> 'c forward_task \<Rightarrow> 'c forward_task option" where
  "fw_step cancelled now (Accepts c cred) f = (if fw_stage f = FwAccepting
     then Some (if admits f cred then f\<lparr>fw_relays := fw_relays f @ [c]\<rparr> else f) else None)"
| "fw_step cancelled now (AcceptError e) f = (if fw_stage f = FwAccepting
     then Some (f\<lparr>fw_stage := FwPausing (now + ACCEPT_PAUSE)\<rparr>) else None)"
| "fw_step cancelled now Resumes f = (case fw_stage f of
       FwPausing t \<Rightarrow> if t \<le> now then Some (f\<lparr>fw_stage := FwAccepting\<rparr>) else None | _ \<Rightarrow> None)"
| "fw_step cancelled now (RelayEnds c) f = (if c \<in> set (fw_relays f) then Some (f\<lparr>fw_relays := remove1 c (fw_relays f)\<rparr>) else None)"
| "fw_step cancelled now SeesToken f = (if fw_stage f = FwAccepting \<and> cancelled
     then Some (f\<lparr>fw_stage := FwDraining (now + DEFAULT_SHUTDOWN_GRACE_PERIOD)\<rparr>) else None)"
| "fw_step cancelled now Drained f = (case fw_stage f of
       FwDraining _ \<Rightarrow> if fw_relays f = [] then Some (f\<lparr>fw_stage := FwOver\<rparr>) else None | _ \<Rightarrow> None)"
| "fw_step cancelled now GraceOver f = (case fw_stage f of
       FwDraining t \<Rightarrow> if t \<le> now then Some (f\<lparr>fw_stage := FwOver, fw_relays := []\<rparr>) else None | _ \<Rightarrow> None)"

section \<open>The process\<close>

datatype client_phase = ClientUp | ClientDone | ClientKilled

text \<open>\<open>cp_listens\<close>: the task of the signals has been polled and so has its handlers. \<open>cp_asked\<close>: the token, with the instant of its
  cancellation.\<close>

record 'c client_process =
  cp_phase :: client_phase
  cp_now :: instant
  cp_listens :: bool
  cp_asked :: "instant option"
  cp_session :: session_task
  cp_leave_by :: "instant option"
  cp_forwards :: "'c forward_task list"

datatype 'c client_label =
    Clock duration | SignalTask | Signal stop_signal | Swarm client_event | SessionSeesToken | SessionOver | Forward nat "'c fw_label"

definition client_start :: "instant \<Rightarrow> retry list \<Rightarrow> nat \<Rightarrow> (u16 \<times> string) list \<Rightarrow> (string \<times> string \<times> u32 list) list \<Rightarrow> 'c client_process" where
  "client_start now tries next_id forward forward_unix =
     \<lparr>cp_phase = ClientUp, cp_now = now, cp_listens = False, cp_asked = None, cp_session = session_begin tries next_id, cp_leave_by = None,
      cp_forwards = map (\<lambda>(port, srv). forward_of srv None) forward @ map (\<lambda>(path, srv, uids). forward_of srv (Some uids)) forward_unix\<rparr>"

definition process_ends :: "client_phase \<Rightarrow> 'c client_process \<Rightarrow> 'c client_process" where
  "process_ends ph s = s\<lparr>cp_phase := ph, cp_forwards := map (\<lambda>f. f\<lparr>fw_stage := FwOver, fw_relays := []\<rparr>) (cp_forwards s)\<rparr>"

definition client_step :: "(bytes \<Rightarrow> string + bytes) \<Rightarrow> peer_id \<Rightarrow> bool \<Rightarrow> 'c client_process \<Rightarrow> 'c client_label \<Rightarrow> 'c client_process option" where
  "client_step sign guard term_ok s l = (if cp_phase s \<noteq> ClientUp then None else case l of
     Clock d \<Rightarrow> Some (s\<lparr>cp_now := cp_now s + d\<rparr>)
   | SignalTask \<Rightarrow> Some (s\<lparr>cp_listens := True\<rparr>)
   | Signal sig \<Rightarrow> Some (
       if cp_listens s \<and> wait_for_shutdown_signal term_ok [sig] \<noteq> None
       then s\<lparr>cp_asked := Some (case cp_asked s of None \<Rightarrow> cp_now s | Some t \<Rightarrow> t)\<rparr>
       else process_ends ClientKilled s)
   | Swarm ev \<Rightarrow> Some (s\<lparr>cp_session := session_event sign guard ev (cp_session s)\<rparr>)
   | SessionSeesToken \<Rightarrow> if cp_asked s \<noteq> None \<and> ss_stage (cp_session s) = Serving
       then Some (s\<lparr>cp_session := session_cancelled (cp_session s), cp_leave_by := Some (cp_now s + DEFAULT_SHUTDOWN_GRACE_PERIOD)\<rparr>) else None
   | SessionOver \<Rightarrow> (case cp_leave_by s of
         Some t \<Rightarrow> if t \<le> cp_now s then Some (process_ends ClientDone s) else None
       | None \<Rightarrow> None)
   | Forward i fl \<Rightarrow> if i < length (cp_forwards s)
       then map_option (\<lambda>f. s\<lparr>cp_forwards := (cp_forwards s)[i := f]\<rparr>) (fw_step (cp_asked s \<noteq> None) (cp_now s) fl (cp_forwards s ! i)) else None)"

abbreviation client_runs :: "(bytes \<Rightarrow> string + bytes) \<Rightarrow> peer_id \<Rightarrow> bool \<Rightarrow> 'c client_process \<Rightarrow> 'c client_label list \<Rightarrow> 'c client_process \<Rightarrow> bool" where
  "client_runs sign guard term_ok \<equiv> steps (\<lambda>s l s'. client_step sign guard term_ok s l = Some s')"

section \<open>Deadlines\<close>

definition granted_until :: "instant option \<Rightarrow> instant \<Rightarrow> bool" where
  "granted_until req d \<longleftrightarrow> (\<exists>t. req = Some t \<and> t + DEFAULT_SHUTDOWN_GRACE_PERIOD \<le> d)"

definition timely :: "instant option \<Rightarrow> 'c forward_task \<Rightarrow> bool" where
  "timely req f = (case fw_stage f of FwDraining d \<Rightarrow> granted_until req d | _ \<Rightarrow> True)"

definition deadline_inv :: "'c client_process \<Rightarrow> bool" where
  "deadline_inv s \<longleftrightarrow> (case cp_asked s of None \<Rightarrow> True | Some t \<Rightarrow> t \<le> cp_now s) \<and>
     (case cp_leave_by s of None \<Rightarrow> ss_stage (cp_session s) \<noteq> Leaving
      | Some d \<Rightarrow> ss_stage (cp_session s) = Leaving \<and> granted_until (cp_asked s) d \<and> d \<le> cp_now s + DEFAULT_SHUTDOWN_GRACE_PERIOD) \<and>
     (\<forall>f \<in> set (cp_forwards s). timely (cp_asked s) f) \<and>
     (cp_phase s = ClientDone \<longrightarrow> granted_until (cp_asked s) (cp_now s))"

lemma session_event_leaving: "ss_stage (session_event sign guard ev s) = Leaving \<longleftrightarrow> ss_stage s = Leaving"
  by (auto simp: session_event_def try_reconnect_def split: session_stage.split client_event.split outcome.split prod.split)

lemma granted_none [simp]: "\<not> granted_until None d"
  by (simp add: granted_until_def)

lemma granted_now: "t \<le> now \<Longrightarrow> granted_until (Some t) (now + DEFAULT_SHUTDOWN_GRACE_PERIOD)"
  by (simp add: granted_until_def)

lemma granted_mono: "granted_until req d \<Longrightarrow> d \<le> d' \<Longrightarrow> granted_until req d'"
  by (auto simp: granted_until_def)

text \<open>A first request cannot hurt: nothing drained before.\<close>

lemma timely_asked: "timely None f \<Longrightarrow> timely req f"
  by (simp add: timely_def split: fw_stage.splits)

lemma timely_over [simp]: "fw_stage f = FwOver \<Longrightarrow> timely req f"
  by (simp add: timely_def)

lemma timely_fw_step:
  "fw_step (req \<noteq> None) now l f = Some f' \<Longrightarrow> timely req f \<Longrightarrow> (\<And>t. req = Some t \<Longrightarrow> t \<le> now) \<Longrightarrow> timely req f'"
  by (cases l) (auto simp: timely_def granted_now split: if_splits fw_stage.splits)

lemma deadline_inv_step: "client_step sign guard term_ok s l = Some s' \<Longrightarrow> deadline_inv s \<Longrightarrow> deadline_inv s'"
proof (cases l)
  case (Forward i fl)
  assume step: "client_step sign guard term_ok s l = Some s'" and inv: "deadline_inv s"
  with Forward obtain f where f: "i < length (cp_forwards s)" "fw_step (cp_asked s \<noteq> None) (cp_now s) fl (cp_forwards s ! i) = Some f"
    "s' = s\<lparr>cp_forwards := (cp_forwards s)[i := f]\<rparr>"
    by (auto simp: client_step_def split: if_splits)
  have "timely (cp_asked s) f"
    using inv nth_mem [OF f(1)] by (intro timely_fw_step [OF f(2)]) (auto simp: deadline_inv_def)
  then have "\<forall>x \<in> set ((cp_forwards s)[i := f]). timely (cp_asked s) x"
    using inv set_update_subset_insert [of "cp_forwards s" i f] by (auto simp: deadline_inv_def)
  with inv show ?thesis by (simp add: f(3) deadline_inv_def split: option.splits)
next
  case (Signal sig)
  assume step: "client_step sign guard term_ok s l = Some s'" and inv: "deadline_inv s"
  show ?thesis
  proof (cases "cp_asked s")
    case None
    with inv have "\<forall>f \<in> set (cp_forwards s). timely (Some (cp_now s)) f"
      using timely_asked unfolding deadline_inv_def by metis
    with step inv Signal None show ?thesis
      by (auto simp: client_step_def deadline_inv_def process_ends_def split: if_splits option.splits)
  next
    case (Some t)
    with step inv Signal show ?thesis
      by (auto simp: client_step_def deadline_inv_def process_ends_def split: if_splits option.splits)
  qed
qed (auto simp: client_step_def deadline_inv_def process_ends_def session_event_leaving session_cancelled_def granted_now granted_mono
    split: if_splits option.splits)

lemma deadline_inv_run: "client_runs sign guard term_ok (client_start now tries n fws fwus) log s \<Longrightarrow> deadline_inv s"
proof (drule steps_keep [where P = deadline_inv and Q = "\<lambda>_. True"])
  show "deadline_inv (client_start now tries n fws fwus)"
    by (auto simp: deadline_inv_def client_start_def session_begin_def forward_of_def timely_def)
qed (auto dest: deadline_inv_step)

section \<open>What a forward has accepted\<close>

text \<open>What the loop of forward \<open>i\<close> has seen, in the form that \<open>forward_listener\<close> and \<open>forward_unix_listener\<close> of \<open>Tunnel\<close> read, and the
  relays of it that have ended.\<close>

definition fw_events :: "nat \<Rightarrow> 'c client_label list \<Rightarrow> ('c \<times> (io_error + u32)) accept_event list" where
  "fw_events i log = concat (map (\<lambda>l. case l of
     Forward j fl \<Rightarrow> if j \<noteq> i then [] else (case fl of
         Accepts c cred \<Rightarrow> [Accepted (c, cred)] | AcceptError e \<Rightarrow> [AcceptFailed e] | SeesToken \<Rightarrow> [Cancelled] | _ \<Rightarrow> [])
   | _ \<Rightarrow> []) log)"

definition fw_ended :: "nat \<Rightarrow> 'c client_label list \<Rightarrow> 'c list" where
  "fw_ended i log = concat (map (\<lambda>l. case l of
     Forward j (RelayEnds c) \<Rightarrow> if j = i then [c] else [] | _ \<Rightarrow> []) log)"

lemma fw_log_simps [simp]:
  "fw_events i [] = []" "fw_ended i [] = []"
  "fw_events i (log @ [l]) = fw_events i log @ fw_events i [l]" "fw_ended i (log @ [l]) = fw_ended i log @ fw_ended i [l]"
  by (simp_all add: fw_events_def fw_ended_def)

lemma fw_log_label [simp]:
  "fw_events i [Forward j fl] = (if j \<noteq> i then [] else (case fl of
     Accepts c cred \<Rightarrow> [Accepted (c, cred)] | AcceptError e \<Rightarrow> [AcceptFailed e] | SeesToken \<Rightarrow> [Cancelled] | _ \<Rightarrow> []))"
  "fw_ended i [Forward j fl] = (if j \<noteq> i then [] else (case fl of RelayEnds c \<Rightarrow> [c] | _ \<Rightarrow> []))"
  by (auto simp: fw_events_def fw_ended_def split: fw_label.split)

lemma fw_log_other:
  "(\<And>fl. l \<noteq> Forward i fl) \<Longrightarrow> fw_events i [l] = [] \<and> fw_ended i [l] = []"
  by (auto simp: fw_events_def fw_ended_def split: client_label.split fw_label.split)

lemma accepted_before_stop_append:
  "accepted_before_stop (evs @ evs') = accepted_before_stop evs @ (if Cancelled \<in> set evs then [] else accepted_before_stop evs')"
  by (induction evs rule: accepted_before_stop.induct) auto

text \<open>The relays that a forward must have spawned.\<close>

definition spawned :: "'c forward_task \<Rightarrow> ('c \<times> (io_error + u32)) accept_event list \<Rightarrow> 'c list" where
  "spawned f evs = map fst (filter (\<lambda>(_, cred). admits f cred) (accepted_before_stop evs))"

definition account_inv :: "'c forward_task \<Rightarrow> nat \<Rightarrow> 'c client_label list \<Rightarrow> 'c forward_task \<Rightarrow> bool" where
  "account_inv f0 i log f \<longleftrightarrow> fw_service f = fw_service f0 \<and> fw_uids f = fw_uids f0 \<and>
     (Cancelled \<in> set (fw_events i log) \<longleftrightarrow> fw_stage f \<in> {FwOver} \<union> range FwDraining) \<and>
     (fw_stage f \<noteq> FwOver \<longrightarrow> mset (fw_relays f) + mset (fw_ended i log) = mset (spawned f0 (fw_events i log)))"

lemma ended_account: "c \<in> set rs \<Longrightarrow> add_mset c (mset (remove1 c rs) + E) = mset rs + E"
  by simp

lemma account_inv_fw_step:
  assumes "fw_step cancelled now fl f = Some f'" "account_inv f0 i log f"
  shows "account_inv f0 i (log @ [Forward i fl]) f'"
proof (cases "\<exists>c. fl = RelayEnds c")
  case True
  with assms show ?thesis
    by (auto simp: account_inv_def ended_account simp del: mset_remove1 split: if_splits)
next
  case False
  have "admits f0 cred = admits f cred" for cred using assms(2) by (simp add: account_inv_def admits_def)
  with False assms show ?thesis
    by (cases fl) (auto simp: account_inv_def spawned_def accepted_before_stop_append split: if_splits fw_stage.splits)
qed

definition accounts :: "'c forward_task list \<Rightarrow> 'c client_label list \<Rightarrow> 'c client_process \<Rightarrow> bool" where
  "accounts fs log s \<longleftrightarrow> length (cp_forwards s) = length fs \<and>
     (cp_phase s = ClientUp \<longrightarrow> (\<forall>i < length fs. account_inv (fs ! i) i log (cp_forwards s ! i)))"

lemma accounts_step:
  assumes "client_step sign guard term_ok s l = Some s'" "accounts fs log s"
  shows "accounts fs (log @ [l]) s'"
proof (cases "\<exists>i fl. l = Forward i fl")
  case True
  then obtain i fl f where f: "l = Forward i fl" "i < length (cp_forwards s)" "cp_phase s = ClientUp"
    "fw_step (cp_asked s \<noteq> None) (cp_now s) fl (cp_forwards s ! i) = Some f" "s' = s\<lparr>cp_forwards := (cp_forwards s)[i := f]\<rparr>"
    using assms(1) by (auto simp: client_step_def split: if_splits)
  have "account_inv (fs ! j) j (log @ [l]) ((cp_forwards s)[i := f] ! j)" if "j < length fs" for j
  proof (cases "j = i")
    case True
    with assms(2) f that account_inv_fw_step [OF f(4), of "fs ! i" i log] show ?thesis by (simp add: accounts_def)
  next
    case False
    with assms(2) f that show ?thesis by (simp add: accounts_def account_inv_def)
  qed
  with assms(2) f(3,5) show ?thesis by (simp add: accounts_def)
next
  case False
  with fw_log_other [of l] have log: "account_inv f0 i (log @ [l]) f = account_inv f0 i log f" for f0 i f
    by (simp add: account_inv_def)
  from False assms(1) have "length (cp_forwards s') = length (cp_forwards s) \<and>
      (cp_phase s' = ClientUp \<longrightarrow> cp_phase s = ClientUp \<and> cp_forwards s' = cp_forwards s)"
    by (cases l) (auto simp: client_step_def process_ends_def split: if_splits option.splits)
  with assms(2) show ?thesis by (simp add: accounts_def log)
qed

lemma account_inv_start:
  "\<forall>f \<in> set (cp_forwards (client_start now tries n fws fwus)). \<forall>i. account_inv f i [] f"
  by (auto simp: client_start_def forward_of_def account_inv_def spawned_def)

lemma accounts_start: "accounts (cp_forwards (client_start now tries n fws fwus)) [] (client_start now tries n fws fwus)"
  unfolding accounts_def using account_inv_start nth_mem by blast

lemma accounts_run:
  assumes "client_runs sign guard term_ok (client_start now tries n fws fwus) log s"
  shows "accounts (cp_forwards (client_start now tries n fws fwus)) log s"
  using assms
  by (rule steps_log) (auto intro: accounts_step accounts_start)

section \<open>The end\<close>

fun from_swarm :: "'c client_label \<Rightarrow> bool" where
  "from_swarm (Swarm _) = True"
| "from_swarm _ = False"

lemma asked_stays:
  "client_runs sign guard term_ok s later s' \<Longrightarrow> cp_asked s = Some t \<Longrightarrow> cp_asked s' = Some t"
proof (induction later arbitrary: s)
  case (Cons l later)
  then obtain u where u: "client_step sign guard term_ok s l = Some u" "client_runs sign guard term_ok u later s'" by auto
  from u(1) Cons.prems(2) have "cp_asked u = Some t"
    by (cases l) (auto simp: client_step_def process_ends_def split: if_splits option.splits)
  with Cons.IH u(2) show ?case by blast
qed simp

text \<open>Without the swarm a reconnection goes nowhere, and neither does the process.\<close>

lemma reconnecting_stays:
  "client_runs sign guard term_ok s later s' \<Longrightarrow> \<not> list_ex from_swarm later \<Longrightarrow> cp_leave_by s = None \<Longrightarrow>
     ss_stage (cp_session s) = Reconnecting evs \<Longrightarrow> cp_phase s \<noteq> ClientDone \<Longrightarrow> cp_phase s' \<noteq> ClientDone"
proof (induction later arbitrary: s)
  case (Cons l later)
  then obtain u where u: "client_step sign guard term_ok s l = Some u" "client_runs sign guard term_ok u later s'" by auto
  from u(1) Cons.prems have "cp_leave_by u = None \<and> ss_stage (cp_session u) = Reconnecting evs \<and> cp_phase u \<noteq> ClientDone"
    by (cases l) (auto simp: client_step_def process_ends_def split: if_splits option.splits)
  with Cons.IH u(2) Cons.prems(2) show ?case by simp
qed simp

text \<open>From the session that serves or leaves, the clock alone ends the process.\<close>

lemma client_can_end:
  assumes "deadline_inv s" "cp_phase s = ClientUp" "cp_asked s = Some t" "\<nexists>evs. ss_stage (cp_session s) = Reconnecting evs"
  shows "\<exists>later s'. client_runs sign guard term_ok s later s' \<and> cp_phase s' = ClientDone \<and>
    cp_now s' \<le> cp_now s + DEFAULT_SHUTDOWN_GRACE_PERIOD \<and> \<not> list_ex from_swarm later"
proof (cases "ss_stage (cp_session s)")
  case Serving
  with assms(2,3) show ?thesis
    by (intro exI [of _ "[SessionSeesToken, Clock DEFAULT_SHUTDOWN_GRACE_PERIOD, SessionOver]"])
      (simp add: client_step_def process_ends_def)
next
  case Leaving
  with assms(1) obtain d where "cp_leave_by s = Some d" "d \<le> cp_now s + DEFAULT_SHUTDOWN_GRACE_PERIOD"
    by (auto simp: deadline_inv_def split: option.splits)
  with assms(2) show ?thesis
    by (intro exI [of _ "[Clock (d - cp_now s), SessionOver]"]) (auto simp: client_step_def process_ends_def)
qed (use assms(4) in simp)

section \<open>Properties\<close>

text \<open>C18 (the local connections of a Client), at any moment of any run while the accept loop of a forward has not returned: the connections it has
  handed to relays are exactly those that \<open>forward_listener\<close>, or \<open>forward_unix_listener\<close> for a Unix socket, relays on the events it has seen;
  each of them is in flight or has ended, none twice, none lost; so a process whose user is not listed never gets a tunnel, whatever else goes on.\<close>

theorem client_connections_account:
  assumes "client_runs sign guard term_ok (client_start now tries n fws fwus) log s" "cp_phase s = ClientUp"
    and "i < length fws + length fwus" "fw_stage (cp_forwards s ! i) \<noteq> FwOver"
  shows "mset (fw_relays (cp_forwards s ! i)) + mset (fw_ended i log) =
    mset (if i < length fws then map fst (fst (forward_listener (fw_events i log) []))
          else fst (forward_unix_listener (snd (snd (fwus ! (i - length fws)))) (fw_events i log) [] []))"
proof -
  let ?f0 = "cp_forwards (client_start now tries n fws fwus :: 'a client_process) ! i"
  have "length (cp_forwards (client_start now tries n fws fwus :: 'a client_process)) = length fws + length fwus"
    by (simp add: client_start_def)
  with accounts_run [OF assms(1)] assms(2,3) have "account_inv ?f0 i log (cp_forwards s ! i)" by (simp add: accounts_def)
  with assms(4) have "mset (fw_relays (cp_forwards s ! i)) + mset (fw_ended i log) = mset (spawned ?f0 (fw_events i log))"
    by (simp add: account_inv_def)
  moreover have "admits ?f0 = (if i < length fws then (\<lambda>_. True) else (\<lambda>cred. peer_uid_authorized cred (snd (snd (fwus ! (i - length fws))))))"
    using assms(3) by (auto simp: admits_def client_start_def forward_of_def nth_append split: prod.split)
  ultimately show ?thesis
    by (simp add: spawned_def forward_listener_eq forward_unix_eq)
qed

text \<open>C19 (a shutdown spares the local connections): a relay in flight ends by itself, or it is cut once the whole grace period has passed since
  the signal was heard, or by a signal that the process does not handle: one before its task listens, or \<^verbatim>\<open>SIGTERM\<close> without a handler.\<close>

theorem client_spares_relays:
  assumes "client_runs sign guard term_ok (client_start now tries n fws fwus) log s" "client_step sign guard term_ok s l = Some s'"
    and "i < length (cp_forwards s)" "c \<in> set (fw_relays (cp_forwards s ! i))" "c \<notin> set (fw_relays (cp_forwards s' ! i))"
  shows "l = Forward i (RelayEnds c) \<or> (\<exists>t. cp_asked s = Some t \<and> t + DEFAULT_SHUTDOWN_GRACE_PERIOD \<le> cp_now s) \<or>
    (\<exists>sig. l = Signal sig \<and> (\<not> cp_listens s \<or> sig = Terminate \<and> \<not> term_ok))"
proof -
  have inv: "deadline_inv s" by (rule deadline_inv_run [OF assms(1)])
  have listens: "wait_for_shutdown_signal term_ok [sig] = None \<longleftrightarrow> sig = Terminate \<and> \<not> term_ok" for sig
    by (cases sig) (auto simp: wait_for_one listens_to_def)
  show ?thesis
  proof (cases l)
    case (Forward j fl)
    with assms obtain f where f: "j < length (cp_forwards s)" "fw_step (cp_asked s \<noteq> None) (cp_now s) fl (cp_forwards s ! j) = Some f"
      "s' = s\<lparr>cp_forwards := (cp_forwards s)[j := f]\<rparr>"
      by (auto simp: client_step_def split: if_splits)
    with assms have "j = i" by (cases "j = i") auto
    have "timely (cp_asked s) (cp_forwards s ! i)" using inv assms(3) by (simp add: deadline_inv_def)
    with \<open>j = i\<close> assms(3-5) f(2,3) show ?thesis
      by (cases fl) (auto simp: Forward timely_def granted_until_def in_set_remove1 split: if_splits fw_stage.splits)
  next
    case SessionOver
    with assms(2) inv show ?thesis
      by (auto simp: client_step_def deadline_inv_def granted_until_def split: if_splits option.splits)
  next
    case (Signal sig)
    with assms(2,4,5) listens [of sig] show ?thesis by (auto simp: client_step_def split: if_splits)
  qed (use assms(2,4,5) in \<open>auto simp: client_step_def split: if_splits\<close>)
qed

text \<open>C20 (the end of a Client), from any state in which the signal has been heard: unless the session is reconnecting the process can end,
  with no help from the network, within the grace period; it never ends before the grace period has passed since the signal, even if nothing is in
  flight. While the session is reconnecting, nothing but the network, and no further signal it listens to, lets it end.\<close>

theorem client_stops_in_time:
  assumes "client_runs sign guard term_ok (client_start now tries n fws fwus) log s" "cp_phase s = ClientUp" "cp_asked s = Some t"
  shows "(if \<exists>evs. ss_stage (cp_session s) = Reconnecting evs
      then \<forall>later s'. client_runs sign guard term_ok s later s' \<and> \<not> list_ex from_swarm later \<longrightarrow> cp_phase s' \<noteq> ClientDone
      else \<exists>later s'. client_runs sign guard term_ok s later s' \<and> cp_phase s' = ClientDone \<and>
        cp_now s' \<le> cp_now s + DEFAULT_SHUTDOWN_GRACE_PERIOD \<and> \<not> list_ex from_swarm later) \<and>
    (\<forall>later s'. client_runs sign guard term_ok s later s' \<and> cp_phase s' = ClientDone \<longrightarrow>
      t + DEFAULT_SHUTDOWN_GRACE_PERIOD \<le> cp_now s')"
proof -
  have inv: "deadline_inv s" by (rule deadline_inv_run [OF assms(1)])
  have "t + DEFAULT_SHUTDOWN_GRACE_PERIOD \<le> cp_now s'" if "client_runs sign guard term_ok s later s'" "cp_phase s' = ClientDone" for later s'
  proof -
    have "client_runs sign guard term_ok (client_start now tries n fws fwus) (log @ later) s'"
      unfolding steps_append using assms(1) that(1) by (intro exI conjI)
    from deadline_inv_run [OF this] that(2) asked_stays [OF that(1) assms(3)] show ?thesis
      by (simp add: deadline_inv_def granted_until_def)
  qed
  moreover have "cp_phase s' \<noteq> ClientDone"
    if "ss_stage (cp_session s) = Reconnecting evs" "client_runs sign guard term_ok s later s'" "\<not> list_ex from_swarm later" for evs later s'
    using reconnecting_stays [OF that(2,3) _ that(1)] inv assms(2) that(1) by (simp add: deadline_inv_def split: option.splits)
  ultimately show ?thesis using client_can_end [OF inv assms(2,3)] by auto
qed

section \<open>Witnesses\<close>

text \<open>A Client with a port and a Unix socket of user 7, which two processes try; then the signal.\<close>

definition sample_client :: "nat client_process" where
  "sample_client = client_start 0 [] 2 [(8080, ''db'')] [(''/run/db'', ''db'', [7])]"

definition sample_visits :: "nat client_label list" where
  "sample_visits = [SignalTask, Forward 0 (Accepts 1 (Inr 9)), Forward 1 (Accepts 2 (Inr 7)), Forward 1 (Accepts 3 (Inr 9)),
     Forward 0 (RelayEnds 1), Clock 5, Signal Terminate, Forward 1 SeesToken]"

lemma sample_client_run:
  "\<exists>s. client_runs sample_sign (PeerId [9]) True sample_client sample_visits s \<and> cp_phase s = ClientUp \<and> cp_asked s = Some 5 \<and>
     cp_listens s \<and> ss_stage (cp_session s) = Serving \<and> cp_now s = 5 \<and> length (cp_forwards s) = 2 \<and>
     cp_forwards s ! 1 = \<lparr>fw_service = ''db'', fw_uids = Some [7], fw_stage = FwDraining 30005, fw_relays = [2]\<rparr>"
  by (simp add: sample_visits_def sample_client_def client_start_def client_step_def forward_of_def admits_def peer_uid_authorized_def
      wait_for_one listens_to_def session_begin_def DEFAULT_SHUTDOWN_GRACE_PERIOD_def from_secs_def)

theorem client_connections_account_witness:
  "\<exists>s. client_runs sample_sign (PeerId [9]) True sample_client sample_visits s \<and>
     mset (fw_relays (cp_forwards s ! 1)) = mset (fst (forward_unix_listener [7] (fw_events 1 sample_visits) [] []))"
proof -
  obtain s where s: "client_runs sample_sign (PeerId [9]) True sample_client sample_visits s" "cp_phase s = ClientUp"
    "fw_stage (cp_forwards s ! 1) \<noteq> FwOver" using sample_client_run by auto
  from client_connections_account [OF s(1) [unfolded sample_client_def] s(2), of 1] s(1,3) show ?thesis
    by (auto simp: fw_ended_def sample_visits_def)
qed

text \<open>The relay in flight is cut when its grace is over.\<close>

theorem client_spares_relays_witness:
  "\<exists>s s'. client_runs sample_sign (PeerId [9]) True sample_client (sample_visits @ [Clock 30000]) s \<and>
     client_step sample_sign (PeerId [9]) True s (Forward 1 GraceOver) = Some s' \<and> 2 \<notin> set (fw_relays (cp_forwards s' ! 1)) \<and>
     (\<exists>t. cp_asked s = Some t \<and> t + 30000 \<le> cp_now s)"
proof -
  obtain s where s: "client_runs sample_sign (PeerId [9]) True sample_client sample_visits s" "cp_phase s = ClientUp" "cp_asked s = Some 5"
    "cp_now s = 5" "length (cp_forwards s) = 2"
    "cp_forwards s ! 1 = \<lparr>fw_service = ''db'', fw_uids = Some [7], fw_stage = FwDraining 30005, fw_relays = [2]\<rparr>"
    using sample_client_run by blast
  let ?s = "s\<lparr>cp_now := 30005\<rparr>"
  let ?s' = "?s\<lparr>cp_forwards := (cp_forwards s)[1 := \<lparr>fw_service = ''db'', fw_uids = Some [7], fw_stage = FwOver, fw_relays = []\<rparr>]\<rparr>"
  have run: "client_runs sample_sign (PeerId [9]) True sample_client (sample_visits @ [Clock 30000]) ?s"
    using s by (auto simp: steps_append client_step_def intro!: exI [of _ s])
  have step: "client_step sample_sign (PeerId [9]) True ?s (Forward 1 GraceOver) = Some ?s'"
    using s by (simp add: client_step_def)
  from client_spares_relays [OF run [unfolded sample_client_def] step, of 1 2] s
  have "\<exists>t. cp_asked ?s = Some t \<and> t + DEFAULT_SHUTDOWN_GRACE_PERIOD \<le> cp_now ?s" by simp
  with run step s(5) show ?thesis
    by (intro exI [of _ ?s] exI [of _ ?s'] conjI) (simp_all add: DEFAULT_SHUTDOWN_GRACE_PERIOD_def from_secs_def)
qed

theorem client_stops_in_time_witness:
  "\<exists>later s'. client_runs sample_sign (PeerId [9]) True sample_client (sample_visits @ later) s' \<and> cp_phase s' = ClientDone \<and> cp_now s' \<le> 30005"
proof -
  obtain s where s: "client_runs sample_sign (PeerId [9]) True sample_client sample_visits s" "cp_phase s = ClientUp" "cp_asked s = Some 5"
    "cp_now s = 5" "ss_stage (cp_session s) = Serving"
    using sample_client_run by blast
  from client_stops_in_time [OF s(1) [unfolded sample_client_def] s(2,3)] s(4,5) obtain later s' where
    "client_runs sample_sign (PeerId [9]) True s later s'" "cp_phase s' = ClientDone" "cp_now s' \<le> 5 + DEFAULT_SHUTDOWN_GRACE_PERIOD"
    by auto
  moreover from this(1) s(1) have "client_runs sample_sign (PeerId [9]) True sample_client (sample_visits @ later) s'"
    unfolding steps_append by (intro exI conjI)
  ultimately show ?thesis
    by (intro exI [of _ later] exI [of _ s']) (simp add: DEFAULT_SHUTDOWN_GRACE_PERIOD_def from_secs_def)
qed

end
