(* ===== verification/Relay.thy ===== *)
theory Relay imports Identity Guard_Config Metrics begin

text \<open>
  The relay node: \<^verbatim>\<open>nodes_relay/src/main.rs\<close> (start and event loop) and \<^verbatim>\<open>nodes_relay/src/metrics.rs\<close>.
  Its key is in \<open>Identity\<close>. The libp2p stack is an argument; reservations and circuits themselves are
  libp2p's, the node configures their limits and counts their events.
\<close>

section \<open>The counters\<close>

record relay_metrics =
  reservations_total :: u64
  reservations_denied_total :: u64
  reservations_expired_total :: u64
  circuits_opened_total :: u64
  circuits_active :: u64

definition relay_metrics_default :: relay_metrics where
  "relay_metrics_default = \<lparr>reservations_total = 0, reservations_denied_total = 0, reservations_expired_total = 0,
     circuits_opened_total = 0, circuits_active = 0\<rparr>"

definition record_reservation_accepted :: "relay_metrics \<Rightarrow> relay_metrics" where
  "record_reservation_accepted m = m\<lparr>reservations_total := reservations_total m + 1\<rparr>"

definition record_reservation_denied :: "relay_metrics \<Rightarrow> relay_metrics" where
  "record_reservation_denied m = m\<lparr>reservations_denied_total := reservations_denied_total m + 1\<rparr>"

definition record_reservation_expired :: "relay_metrics \<Rightarrow> relay_metrics" where
  "record_reservation_expired m = m\<lparr>reservations_expired_total := reservations_expired_total m + 1\<rparr>"

definition record_circuit_opened :: "relay_metrics \<Rightarrow> relay_metrics" where
  "record_circuit_opened m =
     m\<lparr>circuits_opened_total := circuits_opened_total m + 1, circuits_active := circuits_active m + 1\<rparr>"

definition record_circuit_closed :: "relay_metrics \<Rightarrow> relay_metrics" where
  "record_circuit_closed m = m\<lparr>circuits_active := circuits_active m - 1\<rparr>"

definition relay_prometheus_text :: "relay_metrics \<Rightarrow> string" where
  "relay_prometheus_text m = concat [
     metric_block ''nux_relay_reservations_total''
       (''R'' @ e_acute @ ''servations de circuit accept'' @ e_acute @ ''es.'') ''counter'' (reservations_total m),
     metric_block ''nux_relay_reservations_denied_total''
       (''R'' @ e_acute @ ''servations de circuit refus'' @ e_acute @ ''es.'') ''counter'' (reservations_denied_total m),
     metric_block ''nux_relay_reservations_expired_total''
       (''R'' @ e_acute @ ''servations de circuit expir'' @ e_acute @ ''es.'') ''counter'' (reservations_expired_total m),
     metric_block ''nux_relay_circuits_opened_total''
       (''Circuits relay'' @ e_acute @ ''s '' @ e_acute @ ''tablis avec succ'' @ [CHR 0xC3, CHR 0xA8] @ ''s.'')
       ''counter'' (circuits_opened_total m),
     metric_block ''nux_relay_circuits_active''
       (''Circuits relay'' @ e_acute @ ''s actuellement ouverts.'') ''gauge'' (circuits_active m)]"

section \<open>The node\<close>

datatype relay_event =
    ReservationReqAccepted | ReservationReqDenied | ReservationTimedOut
  | CircuitReqAccepted | CircuitClosed | OtherRelayEvent

datatype relay_swarm_event = RelayEvent relay_event | OtherRelaySwarmEvent

definition relay_turn :: "relay_swarm_event \<Rightarrow> relay_metrics \<Rightarrow> relay_metrics" where
  "relay_turn ev m = (case ev of
       RelayEvent ReservationReqAccepted \<Rightarrow> record_reservation_accepted m
     | RelayEvent ReservationReqDenied \<Rightarrow> record_reservation_denied m
     | RelayEvent ReservationTimedOut \<Rightarrow> record_reservation_expired m
     | RelayEvent CircuitReqAccepted \<Rightarrow> record_circuit_opened m
     | RelayEvent CircuitClosed \<Rightarrow> record_circuit_closed m
     | _ \<Rightarrow> m)"

record relay_limits =
  max_reservations :: nat
  max_reservations_per_peer :: nat
  max_circuits :: nat
  max_circuits_per_peer :: nat
  max_circuit_duration :: duration
  max_circuit_bytes :: u64

definition relay_config :: relay_limits where
  "relay_config = \<lparr>max_reservations = 128, max_reservations_per_peer = 4, max_circuits = 16, max_circuits_per_peer = 4,
     max_circuit_duration = from_secs (2 * 60), max_circuit_bytes = push_bit 20 1\<rparr>"

record 'k relay_node =
  relay_keypair :: 'k
  relay_relay_limits :: relay_limits
  relay_idle_timeout :: duration
  relay_listening :: "multiaddr list"
  relay_external :: "multiaddr list"
  relay_counters :: relay_metrics

datatype relay_error = KeyError relay_key_error | StackError string | AddressError string | ListenError string

definition relay_start :: "'k key_codec \<Rightarrow> config_lib \<Rightarrow> 'k \<Rightarrow> string \<Rightarrow> u16 \<Rightarrow> multiaddr list \<Rightarrow> string + unit \<Rightarrow>
    (multiaddr \<Rightarrow> string + unit) \<Rightarrow> fs \<Rightarrow> (relay_error + 'k relay_node) \<times> fs" where
  "relay_start X L fresh key_path port external stack listen_result s =
     (case load_or_generate_keypair X fresh key_path s of
        (Inl e, s') \<Rightarrow> (Inl (KeyError e), s')
      | (Inr k, s') \<Rightarrow>
          (and_then (map_err StackError stack) (\<lambda>_.
           and_then (map_err AddressError (parse_multiaddr L (''/ip4/0.0.0.0/tcp/'' @ decimal (unat port)))) (\<lambda>tcp_addr.
           and_then (map_err AddressError (parse_multiaddr L (''/ip4/0.0.0.0/udp/'' @ decimal (unat port) @ ''/quic-v1''))) (\<lambda>quic_addr.
           and_then (map_err ListenError (listen_result tcp_addr)) (\<lambda>_.
           and_then (map_err ListenError (listen_result quic_addr)) (\<lambda>_.
             Inr \<lparr>relay_keypair = k, relay_relay_limits = relay_config, relay_idle_timeout = from_secs 60,
                  relay_listening = [tcp_addr, quic_addr], relay_external = external,
                  relay_counters = relay_metrics_default\<rparr>))))), s'))"

section \<open>What the counters count\<close>

definition occurrences :: "relay_event \<Rightarrow> relay_swarm_event list \<Rightarrow> nat" where
  "occurrences e evs = count_list evs (RelayEvent e)"

lemma relay_run_counts:
  "reservations_total (fold relay_turn evs m) = reservations_total m + of_nat (occurrences ReservationReqAccepted evs)"
  "reservations_denied_total (fold relay_turn evs m) = reservations_denied_total m + of_nat (occurrences ReservationReqDenied evs)"
  "reservations_expired_total (fold relay_turn evs m) = reservations_expired_total m + of_nat (occurrences ReservationTimedOut evs)"
  "circuits_opened_total (fold relay_turn evs m) = circuits_opened_total m + of_nat (occurrences CircuitReqAccepted evs)"
  "circuits_active (fold relay_turn evs m) =
     circuits_active m + of_nat (occurrences CircuitReqAccepted evs) - of_nat (occurrences CircuitClosed evs)"
  by (induction evs arbitrary: m)
    (auto simp: occurrences_def relay_turn_def record_reservation_accepted_def record_reservation_denied_def
      record_reservation_expired_def record_circuit_opened_def record_circuit_closed_def
      split: relay_swarm_event.split relay_event.split)

lemma occurrences_le: "occurrences e evs \<le> length evs"
  by (simp add: occurrences_def count_le_length)

lemma relay_text_scraped:
  "scrape (relay_prometheus_text m) =
     [(''nux_relay_reservations_total'', unat (reservations_total m)),
      (''nux_relay_reservations_denied_total'', unat (reservations_denied_total m)),
      (''nux_relay_reservations_expired_total'', unat (reservations_expired_total m)),
      (''nux_relay_circuits_opened_total'', unat (circuits_opened_total m)),
      (''nux_relay_circuits_active'', unat (circuits_active m))]"
  by (simp add: relay_prometheus_text_def scrape_block [of _ _ _ _ "[]", simplified] scrape_block one_line_def
      e_acute_def e_circ_def) (simp add: scrape_def map_filter_simps)

text \<open>More closings than openings, and the gauge wraps to the largest 64-bit integer.\<close>

lemma relay_gauge_wraps: "circuits_active (fold relay_turn [RelayEvent CircuitClosed] relay_metrics_default) = - 1"
  by (simp add: relay_turn_def record_circuit_closed_def relay_metrics_default_def)

section \<open>Properties\<close>

text \<open>The relay's exposition: after any sequence of events, the text scraped from the relay counts exactly the
  reservations accepted, refused and expired and the circuits opened so far, and its gauge is the
  number of circuits opened and not closed yet.\<close>

theorem relay_exposition_counts_events:
  assumes "length evs < 2 ^ 64" "occurrences CircuitClosed evs \<le> occurrences CircuitReqAccepted evs"
  shows "scrape (relay_prometheus_text (fold relay_turn evs relay_metrics_default)) =
    [(''nux_relay_reservations_total'', occurrences ReservationReqAccepted evs),
     (''nux_relay_reservations_denied_total'', occurrences ReservationReqDenied evs),
     (''nux_relay_reservations_expired_total'', occurrences ReservationTimedOut evs),
     (''nux_relay_circuits_opened_total'', occurrences CircuitReqAccepted evs),
     (''nux_relay_circuits_active'', occurrences CircuitReqAccepted evs - occurrences CircuitClosed evs)]"
proof -
  have small: "unat (of_nat n :: u64) = n" if "n \<le> length evs" for n
    using that assms(1) by (simp add: unsigned_of_nat take_bit_nat_eq_self)
  have "of_nat (occurrences CircuitReqAccepted evs) - of_nat (occurrences CircuitClosed evs) =
      (of_nat (occurrences CircuitReqAccepted evs - occurrences CircuitClosed evs) :: u64)"
    using assms(2) by (simp add: of_nat_diff)
  then show ?thesis
    using occurrences_le [of _ evs] assms(2)
    by (simp add: relay_text_scraped relay_run_counts relay_metrics_default_def small le_diff_conv add_increasing2
        del: of_nat_diff)
qed

theorem relay_exposition_counts_events_witness:
  "last (scrape (relay_prometheus_text (fold relay_turn
     [RelayEvent CircuitReqAccepted, RelayEvent CircuitReqAccepted, OtherRelaySwarmEvent, RelayEvent CircuitClosed]
     relay_metrics_default))) = (''nux_relay_circuits_active'', 1)"
proof -
  have "length [RelayEvent CircuitReqAccepted, RelayEvent CircuitReqAccepted, OtherRelaySwarmEvent, RelayEvent CircuitClosed] < 2 ^ 64"
    "occurrences CircuitClosed [RelayEvent CircuitReqAccepted, RelayEvent CircuitReqAccepted, OtherRelaySwarmEvent, RelayEvent CircuitClosed]
      \<le> occurrences CircuitReqAccepted [RelayEvent CircuitReqAccepted, RelayEvent CircuitReqAccepted, OtherRelaySwarmEvent, RelayEvent CircuitClosed]"
    by (simp_all add: occurrences_def)
  from relay_exposition_counts_events [OF this] show ?thesis by (simp add: occurrences_def)
qed

end
