(* ===== verification/Daemon_Files.thy ===== *)
theory Daemon_Files imports File_System Metrics Relay begin

text \<open>
  The files a daemon keeps for its supervision: the metrics file that a collector reads
  (\<^verbatim>\<open>spawn_metrics_writer\<close> of \<^verbatim>\<open>crates/nux-cli/src/main.rs\<close> and \<^verbatim>\<open>nodes_relay/src/main.rs\<close>) and the readiness file
  (\<^verbatim>\<open>spawn_readiness_heartbeat\<close>). A tick of the timer comes with the text of the counters at that moment and with
  what the kernel refuses then; a task is the list of the states between its system calls.
\<close>

section \<open>The tasks\<close>

text \<open>The bytes of a text, whose characters are already those of its UTF-8 form.\<close>

definition as_bytes :: "string \<Rightarrow> bytes" where
  "as_bytes = map (\<lambda>c. of_nat (of_char c))"

definition METRICS_TMP :: string where
  "METRICS_TMP = ''/var/lib/node_exporter/textfile_collector/nux.prom.tmp''"
definition METRICS_DEST :: string where
  "METRICS_DEST = ''/var/lib/node_exporter/textfile_collector/nux.prom''"
definition RELAY_METRICS_TMP :: string where
  "RELAY_METRICS_TMP = ''/var/lib/node_exporter/textfile_collector/node_relay.prom.tmp''"
definition RELAY_METRICS_DEST :: string where
  "RELAY_METRICS_DEST = ''/var/lib/node_exporter/textfile_collector/node_relay.prom''"

definition write_and_rename :: "string \<Rightarrow> string \<Rightarrow> string \<Rightarrow> fs \<Rightarrow> fs list" where
  "write_and_rename tmp dest contents s =
     (case fs_write tmp (as_bytes contents) s of
        (Some _, s1) \<Rightarrow> [s1]
      | (None, s1) \<Rightarrow> (case rename_file tmp dest s1 of Inl _ \<Rightarrow> [s1] | Inr s2 \<Rightarrow> [s1, s2]))"

fun ticking :: "(fs \<Rightarrow> fs list) list \<Rightarrow> fs \<Rightarrow> fs list" where
  "ticking [] s = []"
| "ticking (f # fs) s = (let new = f s in new @ ticking fs (last (s # new)))"

definition refusing :: "(fs_call \<Rightarrow> io_error option) \<Rightarrow> fs \<Rightarrow> fs" where
  "refusing r s = s\<lparr>refused := r\<rparr>"

definition metrics_writer :: "(metrics \<times> (fs_call \<Rightarrow> io_error option)) list \<Rightarrow> fs \<Rightarrow> fs list" where
  "metrics_writer ticks = ticking (map (\<lambda>(m, r) s.
     write_and_rename METRICS_TMP METRICS_DEST (to_prometheus_text m) (refusing r s)) ticks)"

definition relay_metrics_writer :: "(relay_metrics \<times> (fs_call \<Rightarrow> io_error option)) list \<Rightarrow> fs \<Rightarrow> fs list" where
  "relay_metrics_writer ticks = ticking (map (\<lambda>(m, r) s.
     write_and_rename RELAY_METRICS_TMP RELAY_METRICS_DEST (relay_prometheus_text m) (refusing r s)) ticks)"

definition readiness_heartbeat :: "string \<Rightarrow> (fs_call \<Rightarrow> io_error option) list \<Rightarrow> fs \<Rightarrow> fs list" where
  "readiness_heartbeat path ticks = ticking (map (\<lambda>r s. [snd (fs_write path [] (refusing r s))]) ticks)"

section \<open>Facts\<close>

definition plain_path :: "string \<Rightarrow> fs \<Rightarrow> bool" where
  "plain_path p s \<longleftrightarrow> (\<forall>i. inodes s p = Some i \<longrightarrow> \<not> is_link i)"

lemma resolve_plain: "plain_path p s \<Longrightarrow> resolve (Suc k) s p = Some p"
  by (auto simp: plain_path_def is_link_def split: option.split file_kind.split)

lemma resolve_40: "plain_path p s \<Longrightarrow> resolve 40 s p = Some p"
  using resolve_plain [of p s 39] by (simp add: eval_nat_numeral)

text \<open>A write through a path that is no link changes that entry alone, and leaves no link there.\<close>

lemma fs_write_plain:
  assumes "plain_path p s" "fs_write p data s = (r, s')"
  shows "(\<forall>q. q \<noteq> p \<longrightarrow> inodes s' q = inodes s q) \<and> plain_path p s' \<and>
    (r = None \<longrightarrow> (\<exists>i. inodes s' p = Some i \<and> file_kind i = RegularFile data))"
  using assms(2) unfolding fs_write_def resolve_40 [OF assms(1)]
  using assms(1) by (auto simp: plain_path_def write_file_def Let_def split: sum.splits option.splits if_splits)

definition whole :: "string \<Rightarrow> bytes set \<Rightarrow> inode option \<Rightarrow> fs \<Rightarrow> bool" where
  "whole dest texts old s \<longleftrightarrow> inodes s dest = old \<or> (\<exists>i bs. inodes s dest = Some i \<and> file_kind i = RegularFile bs \<and> bs \<in> texts)"

lemma write_and_rename_whole:
  assumes "tmp \<noteq> dest" "plain_path tmp s" "whole dest texts old s" "as_bytes contents \<in> texts"
    and "s' \<in> set (write_and_rename tmp dest contents s)"
  shows "plain_path tmp s' \<and> whole dest texts old s'"
proof -
  obtain r s1 where w: "fs_write tmp (as_bytes contents) s = (r, s1)" by (cases "fs_write tmp (as_bytes contents) s")
  note frame = fs_write_plain [OF assms(2) w]
  have s1: "plain_path tmp s1 \<and> whole dest texts old s1"
    using frame assms(1,3) by (simp add: whole_def)
  from assms(5) w consider "s' = s1" | "r = None" "rename_file tmp dest s1 = Inr s'"
    by (auto simp: write_and_rename_def split: option.splits sum.splits)
  then show ?thesis
  proof cases
    case 2
    with frame obtain i where "inodes s1 tmp = Some i" "file_kind i = RegularFile (as_bytes contents)" by blast
    with 2(2) assms(1,4) show ?thesis
      by (auto simp: rename_file_def and_then_Inr_iff plain_path_def whole_def split: if_splits)
  qed (use s1 in simp)
qed

lemma ticking_keeps:
  assumes "P s" "\<And>f s s'. f \<in> set fs \<Longrightarrow> P s \<Longrightarrow> s' \<in> set (f s) \<Longrightarrow> P s'"
  shows "s' \<in> set (ticking fs s) \<Longrightarrow> P s'"
  using assms
proof (induction fs arbitrary: s)
  case (Cons f fs)
  have "P (last (s # f s))" using Cons.prems(2) Cons.prems(3) [of f s] by (cases "f s = []") auto
  with Cons show ?case by (auto simp: Let_def)
qed simp

lemma refusing_simps [simp]: "inodes (refusing r s) = inodes s" "plain_path p (refusing r s) = plain_path p s"
  "whole dest texts old (refusing r s) = whole dest texts old s"
  by (simp_all add: refusing_def plain_path_def whole_def)

section \<open>Properties\<close>

text \<open>C33 (atomic exposition): whatever the kernel refuses and whenever, a collector that looks at the metrics file
  between any two system calls of a daemon finds what was there before the daemon started, or one complete
  exposition of the counters as they were at some tick: never a truncated or a partial one.\<close>

theorem metrics_file_is_whole:
  assumes "plain_path METRICS_TMP s" "s' \<in> set (metrics_writer ticks s)"
  shows "inodes s' METRICS_DEST = inodes s METRICS_DEST \<or>
    (\<exists>i m r. inodes s' METRICS_DEST = Some i \<and> (m, r) \<in> set ticks \<and> file_kind i = RegularFile (as_bytes (to_prometheus_text m)))"
proof -
  let ?texts = "{as_bytes (to_prometheus_text m) | m r. (m, r) \<in> set ticks}"
  have "plain_path METRICS_TMP s' \<and> whole METRICS_DEST ?texts (inodes s METRICS_DEST) s'"
  proof (rule ticking_keeps [OF _ _ assms(2) [unfolded metrics_writer_def]])
    show "plain_path METRICS_TMP s \<and> whole METRICS_DEST ?texts (inodes s METRICS_DEST) s"
      using assms(1) by (simp add: whole_def)
    fix f t t'
    assume f: "f \<in> set (map (\<lambda>(m, r) s. write_and_rename METRICS_TMP METRICS_DEST (to_prometheus_text m) (refusing r s)) ticks)"
      and t: "plain_path METRICS_TMP t \<and> whole METRICS_DEST ?texts (inodes s METRICS_DEST) t" and t': "t' \<in> set (f t)"
    from f obtain m r where m: "(m, r) \<in> set ticks"
      and eq: "f = (\<lambda>s. write_and_rename METRICS_TMP METRICS_DEST (to_prometheus_text m) (refusing r s))" by auto
    have "METRICS_TMP \<noteq> METRICS_DEST" by (simp add: METRICS_TMP_def METRICS_DEST_def)
    from write_and_rename_whole [OF this, of "refusing r t" ?texts "inodes s METRICS_DEST" "to_prometheus_text m" t'] t t' m
    show "plain_path METRICS_TMP t' \<and> whole METRICS_DEST ?texts (inodes s METRICS_DEST) t'"
      by (auto simp: eq)
  qed
  then show ?thesis by (auto simp: whole_def)
qed

theorem metrics_file_is_whole_witness:
  "\<exists>s'. s' \<in> set (metrics_writer [(metrics_default, \<lambda>_. None), (record_auth_granted metrics_default, \<lambda>_. Some not_found)]
       \<lparr>inodes = (\<lambda>_. None), umask = 0x12, refused = (\<lambda>_. None)\<rparr>) \<and>
     (inodes s' METRICS_DEST = None \<or> (\<exists>i m. inodes s' METRICS_DEST = Some i \<and> file_kind i = RegularFile (as_bytes (to_prometheus_text m))))"
proof -
  let ?s = "\<lparr>inodes = (\<lambda>_. None), umask = 0x12, refused = (\<lambda>_. None)\<rparr> :: fs"
  let ?run = "metrics_writer [(metrics_default, \<lambda>_. None), (record_auth_granted metrics_default, \<lambda>_. Some not_found)] ?s"
  have "?run \<noteq> []" by (auto simp: metrics_writer_def write_and_rename_def Let_def split: prod.split option.split sum.split)
  then have mem: "last ?run \<in> set ?run" by (rule last_in_set)
  have "plain_path METRICS_TMP ?s" by (simp add: plain_path_def)
  from metrics_file_is_whole [OF this mem] mem show ?thesis by auto
qed

end
