(* ===== verification/Cli_Main.thy ===== *)
theory Cli_Main imports Guard_Daemon Sync_Process begin

text \<open>
  \<^verbatim>\<open>main\<close> of \<^verbatim>\<open>crates/nux-cli/src/main.rs\<close>: the journals, the hardening of the process and the dispatch of the four commands. clap,
  \<^verbatim>\<open>dotenvy\<close>, the filter of \<^verbatim>\<open>tracing_subscriber\<close>, the appender of the audit journal and \<^verbatim>\<open>prctl\<close> are arguments.
\<close>

section \<open>The journals\<close>

datatype log_level = Trace | Debug | Info | Warn | Error

record log_event =
  le_target :: string
  le_level :: log_level

datatype journal = AppJournal | AuditJournal

definition AUDIT_TARGET :: string where "AUDIT_TARGET = ''nux::audit''"

definition audit_dir :: "(string \<Rightarrow> string option) \<Rightarrow> string" where
  "audit_dir env = (case env ''NUX_AUDIT_LOG_DIR'' of Some d \<Rightarrow> d | None \<Rightarrow> ''/var/log/nux'')"

text \<open>\<open>parse_filter\<close>: the filter of a directive string, as \<^verbatim>\<open>EnvFilter\<close> has it; the fallback of the code is a constant that parses.\<close>

record tracing =
  tr_filter :: "log_event \<Rightarrow> bool"
  tr_audit :: bool

definition DEFAULT_FILTER :: string where "DEFAULT_FILTER = ''info,nux=debug''"

definition init_tracing :: "(string \<Rightarrow> (log_event \<Rightarrow> bool) option) \<Rightarrow> (string \<Rightarrow> string + unit) \<Rightarrow> (string \<Rightarrow> string option) \<Rightarrow> tracing" where
  "init_tracing parse_filter open_appender env = \<lparr>
     tr_filter = (case Option.bind (env ''RUST_LOG'') parse_filter of Some f \<Rightarrow> f | None \<Rightarrow> the (parse_filter DEFAULT_FILTER)),
     tr_audit = is_ok (open_appender (audit_dir env))\<rparr>"

definition journals_of :: "tracing \<Rightarrow> log_event \<Rightarrow> journal list" where
  "journals_of tr ev =
     (if tr_filter tr ev \<and> le_target ev \<noteq> AUDIT_TARGET then [AppJournal] else []) @
     (if tr_audit tr \<and> le_target ev = AUDIT_TARGET then [AuditJournal] else [])"

text \<open>An event of the audit goes to the audit journal or nowhere: without its directory it is in no journal, whatever the filter.\<close>

lemma audit_events_need_their_directory:
  assumes "le_target ev = AUDIT_TARGET"
  shows "journals_of (init_tracing parse_filter open_appender env) ev =
    (if is_ok (open_appender (audit_dir env)) then [AuditJournal] else [])"
  using assms by (simp add: journals_of_def init_tracing_def)

section \<open>The commands\<close>

datatype command =
    Keygen string
  | GuardCommand string "string option"
  | ClientCommand dial_target "string option" "(u16 \<times> string) list" "(string \<times> string \<times> u32 list) list"
  | SyncConfig string u16 peer_id int u64

text \<open>What the program asks of its surroundings.\<close>

record 'k world =
  w_lib :: config_lib
  w_host :: "'k host"
  w_swarm :: swarm_answers
  w_file :: "string \<Rightarrow> io_error + string"
  w_hup :: bool
  w_redial :: "peer_id \<Rightarrow> multiaddr \<Rightarrow> string + unit"
  w_sign :: "'k \<Rightarrow> bytes \<Rightarrow> string + bytes"
  w_clock :: "u64 option"
  w_connected :: "peer_id \<Rightarrow> bool"
  w_bind :: "u16 \<Rightarrow> io_error + unit"
  w_partial :: bytes
  w_prctl :: "string + unit"
  w_filter :: "string \<Rightarrow> (log_event \<Rightarrow> bool) option"
  w_appender :: "string \<Rightarrow> string + unit"

text \<open>Where \<^verbatim>\<open>main\<close> is: back, with a result, waiting for the network, or in the loop of a command.\<close>

datatype ('k, 's) started =
    Returned "nux_error + unit" fs
  | WaitingForNetwork fs
  | GuardRuns "'s daemon" "'k nux_node"
  | ClientRuns peer_id multiaddr "role list" fs
  | SyncRuns sync_process u16 string int duration

record ('k, 's) cli_process =
  cp_tracing :: tracing
  cp_hardened :: bool
  cp_started :: "('k, 's) started"

definition cli_dispatch :: "'s sem_lib \<Rightarrow> (peer_id \<Rightarrow> string) \<Rightarrow> 'k world \<Rightarrow> command \<Rightarrow> client_event list \<Rightarrow> ('k, 's) started" where
  "cli_dispatch S show_peer w cmd evs =
     (let H = w_host w in
      case cmd of
        Keygen out \<Rightarrow> (case keygen (host_codec H) (host_fresh_key H) out (w_partial w) (host_fs H) of
            (Inl e, s) \<Rightarrow> Returned (Inl e) s
          | (Inr _, s) \<Rightarrow> Returned (Inr ()) s)
      | GuardCommand config ident \<Rightarrow> (case guard_command (w_lib w) H (w_swarm w) config (w_file w config) ident evs of
            Pending \<Rightarrow> WaitingForNetwork (host_fs H)
          | Ready (Inl e) _ \<Rightarrow> Returned (Inl e) (host_fs H)
          | Ready (Inr G) _ \<Rightarrow> GuardRuns (daemon_start S G (w_file w config) (w_hup w)) (launch_node G))
      | ClientCommand dial ident forward forward_unix \<Rightarrow>
          (case client_command (w_lib w) H (w_swarm w) (w_redial w) (w_sign w) (w_clock w) (w_connected w) (w_bind w) dial ident forward
             forward_unix evs of
             (Pending, s) \<Rightarrow> WaitingForNetwork s
           | (Ready (Inl e) _, s) \<Rightarrow> Returned (Inl e) s
           | (Ready (Inr (p, a, rs)) _, s) \<Rightarrow> ClientRuns p a rs s)
      | SyncConfig config gateway_port uuid guard_pid poll_secs \<Rightarrow>
          SyncRuns (sync_process_start (w_file w config)) gateway_port (show_peer uuid) guard_pid (from_secs (unat poll_secs)))"

definition cli_main :: "'s sem_lib \<Rightarrow> (peer_id \<Rightarrow> string) \<Rightarrow> 'k world \<Rightarrow> command \<Rightarrow> client_event list \<Rightarrow> ('k, 's) cli_process" where
  "cli_main S show_peer w cmd evs = \<lparr>cp_tracing = init_tracing (w_filter w) (w_appender w) (host_env (w_host w)),
     cp_hardened = is_ok (harden_process (w_prctl w)), cp_started = cli_dispatch S show_peer w cmd evs\<rparr>"

text \<open>Neither the audit journal nor the hardening keeps a command from starting.\<close>

lemma best_effort:
  "cp_started (cli_main S show_peer (w\<lparr>w_prctl := r, w_filter := f, w_appender := a\<rparr>) cmd evs) = cp_started (cli_main S show_peer w cmd evs)"
  by (cases cmd) (simp_all add: cli_main_def cli_dispatch_def Let_def split: outcome.split sum.split)

text \<open>A Guard that runs was started from a file that loads.\<close>

lemma guard_runs:
  assumes "cp_started (cli_main S show_peer w (GuardCommand config ident) evs) = GuardRuns s node"
  obtains G rest where "guard_command (w_lib w) (w_host w) (w_swarm w) config (w_file w config) ident evs = Ready (Inr G) rest"
    "s = daemon_start S G (w_file w config) (w_hup w)" "node = launch_node G"
  using assms by (auto simp: cli_main_def cli_dispatch_def Let_def split: outcome.splits sum.splits)

lemma keygen_returns:
  assumes "cp_started (cli_main S show_peer w (Keygen out) evs) = Returned (Inr ()) s"
  shows "save_to_file (host_codec (w_host w)) (host_fresh_key (w_host w)) out (w_partial w) (host_fs (w_host w)) = (Inr (), s)"
  using assms by (auto simp: cli_main_def cli_dispatch_def Let_def keygen_def split: sum.splits prod.splits)

section \<open>Property\<close>

text \<open>C30 (from \<^verbatim>\<open>keygen\<close> to \<^verbatim>\<open>guard\<close>): a Guard that runs with the file that \<^verbatim>\<open>keygen\<close> reported as written has the key that \<^verbatim>\<open>keygen\<close> drew, whatever
  the environment says of other identities, whatever the umask, the journals and the hardening, as long as the system does not refuse to
  stat and read the file.\<close>

theorem keygen_gives_the_identity:
  assumes "key_codec_ok (host_codec (w_host w))"
    and "cp_started (cli_main S show_peer w (Keygen out) evs) = Returned (Inr ()) s"
    and "refused (host_fs (w_host w)) (CallStat out) = None" "refused (host_fs (w_host w)) (CallRead out) = None"
    and "host_codec (w_host w') = host_codec (w_host w)" "host_fs (w_host w') = s"
    and "cp_started (cli_main S' show_peer' w' (GuardCommand config (Some out)) evs') = GuardRuns d node"
  shows "node_keypair node = host_fresh_key (w_host w)"
proof -
  from assms(7) obtain G rest where
    G: "guard_command (w_lib w') (w_host w') (w_swarm w') config (w_file w' config) (Some out) evs' = Ready (Inr G) rest" "node = launch_node G"
    by (rule guard_runs)
  from G(1) obtain cfg built where "host_build (w_host w') (w_swarm w') (guard_builder cfg (Some out) (host_env (w_host w'))) = Inr built"
    "node_keypair (launch_node G) = node_keypair built"
    by (rule guard_command_Inr) (auto split: option.splits)
  then have "from_file (host_codec (w_host w)) out s = Inr (node_keypair node)"
    by (simp add: host_build_def build_Inr guard_builder_fields cli_builder_def builder_setters resolve_identity_def G(2) assms(5,6))
  with identity_roundtrip [OF assms(1) keygen_returns [OF assms(2)] assms(3,4)] show ?thesis by simp
qed

definition sample_world :: "fs \<Rightarrow> bytes world" where
  "sample_world s = \<lparr>w_lib = sample_lib, w_host = sample_host\<lparr>host_fresh_key := replicate 32 7, host_fs := s\<rparr>, w_swarm = sample_swarm,
     w_file = (\<lambda>_. sample_file), w_hup = True, w_redial = (\<lambda>_ _. Inr ()), w_sign = (\<lambda>_. sample_sign), w_clock = Some 101,
     w_connected = (\<lambda>_. True), w_bind = (\<lambda>_. Inr ()), w_partial = [], w_prctl = Inl ''EPERM'', w_filter = (\<lambda>_. Some (\<lambda>_. True)),
     w_appender = (\<lambda>_. Inl ''EACCES'')\<rparr>"

theorem keygen_gives_the_identity_witness:
  "\<exists>s (d :: nat daemon) node. cp_started (cli_main sample_sems (\<lambda>_. ''A'') (sample_world sample_fs) (Keygen ''/k'') []) = Returned (Inr ()) s \<and>
     cp_started (cli_main sample_sems (\<lambda>_. ''A'') (sample_world s) (GuardCommand ''guard.toml'' (Some ''/k'')) []) = GuardRuns d node \<and>
     node_keypair node = replicate 32 7"
proof -
  have ok: "key_codec_ok (host_codec (w_host (sample_world sample_fs)))"
    by (simp add: sample_world_def sample_host_def sample_codec_ok)
  obtain s where gen: "cp_started (cli_main sample_sems (\<lambda>_. ''A'') (sample_world sample_fs) (Keygen ''/k'') []) = Returned (Inr ()) s"
    by (simp add: cli_main_def cli_dispatch_def sample_world_def sample_host_def keygen_def sample_codec_def sample_fs_def save_to_file_def
        create_new_def write_file_def sync_all_def)
  have files: "refused (host_fs (w_host (sample_world sample_fs))) (CallStat ''/k'') = None"
    "refused (host_fs (w_host (sample_world sample_fs))) (CallRead ''/k'') = None"
    "host_codec (w_host (sample_world s)) = host_codec (w_host (sample_world sample_fs))" "host_fs (w_host (sample_world s)) = s"
    by (simp_all add: sample_world_def sample_host_def sample_fs_def)
  have key: "from_file sample_codec ''/k'' s = Inr (replicate 32 7)"
    using identity_roundtrip [OF ok keygen_returns [OF gen] files(1,2)] by (simp add: sample_world_def sample_host_def)
  obtain cfg where load: "load sample_lib ''guard.toml'' sample_file = Inr cfg" using sample_load by blast
  then have cfg: "load sample_lib ''guard.toml'' sample_file = Inr cfg" "cfg_relay cfg = None"
    by (auto simp: load_Inr validate_Inr sample_file_def sample_parse sample_config)
  have "is_ok (host_build (w_host (sample_world s)) sample_swarm (guard_builder cfg (Some ''/k'') (host_env (w_host (sample_world s)))))"
    by (simp add: host_build_def build_def sample_world_def sample_host_def sample_swarm_def guard_builder_fields cli_builder_def
        builder_setters builder_new_def resolve_identity_def key)
  with cfg obtain d node where "cp_started (cli_main sample_sems (\<lambda>_. ''A'') (sample_world s) (GuardCommand ''guard.toml'' (Some ''/k'')) []) =
      GuardRuns d node"
    by (auto simp: cli_main_def cli_dispatch_def guard_command_def is_ok_iff) (auto simp: sample_world_def)
  with keygen_gives_the_identity [OF ok gen files this] gen show ?thesis
    by (auto simp: sample_world_def)
qed

end
