(* ===== verification/Rate_Behaviour.thy ===== *)
theory Rate_Behaviour imports Rate_Limit begin

text \<open>
  The limiter as a behaviour of the swarm, the rest of \<^verbatim>\<open>crates/nux-core/src/rate_limit.rs\<close>: every callback of
  \<^verbatim>\<open>NetworkBehaviour\<close>, and its runs over any sequence of them. Only a pending inbound connection consults the limiter.
  The events of its connection handler have an empty type, so their callback is never called.
\<close>

section \<open>The callbacks\<close>

datatype dummy_handler = DummyHandler

definition handle_established_inbound_connection :: "rate_limiter \<Rightarrow> (rate_exceeded + dummy_handler) \<times> rate_limiter" where
  "handle_established_inbound_connection R = (Inr DummyHandler, R)"

definition handle_established_outbound_connection :: "rate_limiter \<Rightarrow> (rate_exceeded + dummy_handler) \<times> rate_limiter" where
  "handle_established_outbound_connection R = (Inr DummyHandler, R)"

definition on_swarm_event :: "rate_limiter \<Rightarrow> rate_limiter" where
  "on_swarm_event R = R"

text \<open>\<open>None\<close> is \<^verbatim>\<open>Poll::Pending\<close>; what the behaviour could ask of the swarm has no values.\<close>

definition poll_behaviour :: "rate_limiter \<Rightarrow> unit option \<times> rate_limiter" where
  "poll_behaviour R = (None, R)"

datatype callback = PendingInbound multiaddr | EstablishedInbound | EstablishedOutbound | FromSwarm | Polled

text \<open>Whether the callback lets the connection be, and the limiter after it.\<close>

fun callback_step :: "callback \<Rightarrow> instant \<Rightarrow> rate_limiter \<Rightarrow> bool \<times> rate_limiter" where
  "callback_step (PendingInbound remote) now R = (case handle_pending_inbound_connection remote now R of (r, R') \<Rightarrow> (is_ok r, R'))"
| "callback_step EstablishedInbound now R = (case handle_established_inbound_connection R of (r, R') \<Rightarrow> (is_ok r, R'))"
| "callback_step EstablishedOutbound now R = (case handle_established_outbound_connection R of (r, R') \<Rightarrow> (is_ok r, R'))"
| "callback_step FromSwarm now R = (True, on_swarm_event R)"
| "callback_step Polled now R = (case poll_behaviour R of (r, R') \<Rightarrow> (r = None, R'))"

section \<open>Runs\<close>

text \<open>The log has every callback with its instant and whether it let the connection be; \<open>elapsed\<close> is the time since the last one.\<close>

record behaviour_run =
  br_limiter :: rate_limiter
  br_clock :: instant
  br_log :: "(callback \<times> instant \<times> bool) list"

fun callback_turn :: "callback \<times> duration \<Rightarrow> behaviour_run \<Rightarrow> behaviour_run" where
  "callback_turn (cb, elapsed) s =
     (let now = br_clock s + elapsed; (ok, R) = callback_step cb now (br_limiter s)
      in s\<lparr>br_limiter := R, br_clock := now, br_log := br_log s @ [(cb, now, ok)]\<rparr>)"

definition behaviour_start :: "u32 \<Rightarrow> duration \<Rightarrow> ip_addr list \<Rightarrow> instant \<Rightarrow> behaviour_run" where
  "behaviour_start m w ips now = \<lparr>br_limiter = with_exemptions m w ips now, br_clock = now, br_log = []\<rparr>"

fun source :: "callback \<Rightarrow> ip_addr option" where
  "source (PendingInbound remote) = ip_of remote"
| "source _ = None"

text \<open>The instants at which a pending connection from \<open>ip\<close> was let in.\<close>

definition let_in :: "ip_addr \<Rightarrow> (callback \<times> instant \<times> bool) list \<Rightarrow> instant list" where
  "let_in ip log = map (\<lambda>(_, t, _). t) (filter (\<lambda>(cb, _, ok). source cb = Some ip \<and> ok) log)"

lemma let_in_simps [simp]:
  "let_in ip [] = []" "let_in ip (log @ log') = let_in ip log @ let_in ip log'"
  "let_in ip [(cb, t, ok)] = (if source cb = Some ip \<and> ok then [t] else [])"
  by (simp_all add: let_in_def)

lemma callback_step_idle: "source cb = None \<Longrightarrow> callback_step cb now R = (True, R)"
  by (cases cb) (simp_all add: handle_pending_inbound_connection_def handle_established_inbound_connection_def
      handle_established_outbound_connection_def on_swarm_event_def poll_behaviour_def)

lemma callback_step_attempt: "source cb = Some ip \<Longrightarrow> callback_step cb now R = allow_at ip now R"
  by (cases cb) (simp_all add: handle_pending_inbound_connection_def split: prod.split)

text \<open>A run of callbacks is a run of the limiter over the attempts in it; the time of the other callbacks is added to the next attempt.\<close>

lemma callbacks_are_attempts:
  "\<exists>attempts. br_limiter (fold callback_turn cbs (behaviour_start m w exempted t0)) = limiter (limited_run attempts (limited_start m w exempted t0)) \<and>
     clock (limited_run attempts (limited_start m w exempted t0)) \<le> br_clock (fold callback_turn cbs (behaviour_start m w exempted t0)) \<and>
     (\<forall>ip. let_in ip (br_log (fold callback_turn cbs (behaviour_start m w exempted t0))) =
        hit_times ip (admitted (limited_run attempts (limited_start m w exempted t0))))"
proof (induction cbs rule: rev_induct)
  case Nil
  show ?case by (intro exI [of _ "[]"]) (simp add: behaviour_start_def limited_start_def)
next
  case (snoc x cbs)
  obtain cb elapsed where x: "x = (cb, elapsed)" by fastforce
  let ?b = "fold callback_turn cbs (behaviour_start m w exempted t0)"
  from snoc.IH obtain attempts where IH: "br_limiter ?b = limiter (limited_run attempts (limited_start m w exempted t0))"
    "clock (limited_run attempts (limited_start m w exempted t0)) \<le> br_clock ?b"
    "\<And>ip. let_in ip (br_log ?b) = hit_times ip (admitted (limited_run attempts (limited_start m w exempted t0)))" by blast
  let ?s = "limited_run attempts (limited_start m w exempted t0)"
  show ?case
  proof (cases "source cb")
    case None
    with IH show ?thesis by (intro exI [of _ attempts]) (simp add: x Let_def callback_step_idle)
  next
    case (Some ip)
    with IH show ?thesis
      by (intro exI [of _ "attempts @ [(ip, br_clock ?b - clock ?s + elapsed)]"])
        (auto simp: x Let_def callback_step_attempt split: prod.split)
  qed
qed

section \<open>Property\<close>

text \<open>C9 (the limit, as the swarm sees it): whatever callbacks the swarm makes, in whatever order and however they are spaced, no closed
  interval of the window's length contains more than \<open>max_per_window\<close> pending connections let in from one address that is not
  exempt; and the behaviour refuses nothing else: neither a transport without an address, nor an exempt one, nor a
  connection once established, nor an outbound one.\<close>

theorem behaviour_limits_connections:
  assumes "s = fold callback_turn cbs (behaviour_start m w exempted t0)"
  shows "(ip \<notin> set exempted \<longrightarrow> length (in_span start w (let_in ip (br_log s))) \<le> unat m) \<and>
    (\<forall>(cb, t, ok) \<in> set (br_log s). \<not> ok \<longrightarrow> (\<exists>remote q. cb = PendingInbound remote \<and> ip_of remote = Some q \<and> q \<notin> set exempted))"
proof
  obtain attempts where "let_in ip (br_log s) = hit_times ip (admitted (limited_run attempts (limited_start m w exempted t0)))"
    using callbacks_are_attempts [of cbs m w exempted t0] unfolding assms by blast
  with spans_bounded_run [of attempts m w exempted t0]
  show "ip \<notin> set exempted \<longrightarrow> length (in_span start w (let_in ip (br_log s))) \<le> unat m"
    by (simp add: spans_bounded_def)
next
  have exempt_kept: "exempt_ips (br_limiter (fold callback_turn cbs (behaviour_start m w exempted t0))) = set exempted" for cbs
    using callbacks_are_attempts [of cbs m w exempted t0] by auto
  show "\<forall>(cb, t, ok) \<in> set (br_log s). \<not> ok \<longrightarrow> (\<exists>remote q. cb = PendingInbound remote \<and> ip_of remote = Some q \<and> q \<notin> set exempted)"
    unfolding assms
  proof (induction cbs rule: rev_induct)
    case Nil
    show ?case by (simp add: behaviour_start_def)
  next
    case (snoc x cbs)
    obtain cb elapsed where x: "x = (cb, elapsed)" by fastforce
    let ?b = "fold callback_turn cbs (behaviour_start m w exempted t0)"
    have "\<exists>remote q. cb = PendingInbound remote \<and> ip_of remote = Some q \<and> q \<notin> set exempted"
      if refused: "\<not> fst (callback_step cb (br_clock ?b + elapsed) (br_limiter ?b))"
    proof -
      from refused obtain q where q: "source cb = Some q" by (cases "source cb") (simp_all add: callback_step_idle)
      with refused allow_at_exempt [of q "br_limiter ?b" "br_clock ?b + elapsed"] have "q \<notin> set exempted"
        by (auto simp: callback_step_attempt exempt_kept)
      with q show ?thesis by (cases cb) auto
    qed
    with snoc.IH show ?case by (auto simp: x Let_def split: prod.split)
  qed
qed

theorem behaviour_limits_connections_witness:
  "br_log (fold callback_turn [(PendingInbound [Ip4 1], 0), (EstablishedInbound, 1), (PendingInbound [Ip4 1], 1)] (behaviour_start 1 60 [] 0)) =
     [(PendingInbound [Ip4 1], 0, True), (EstablishedInbound, 1, True), (PendingInbound [Ip4 1], 2, False)] \<and>
   length (in_span 0 60 (let_in (V4 1) (br_log (fold callback_turn [(PendingInbound [Ip4 1], 0), (EstablishedInbound, 1),
     (PendingInbound [Ip4 1], 1)] (behaviour_start 1 60 [] 0))))) \<le> 1"
proof
  show "br_log (fold callback_turn [(PendingInbound [Ip4 1], 0), (EstablishedInbound, 1), (PendingInbound [Ip4 1], 1)] (behaviour_start 1 60 [] 0)) =
     [(PendingInbound [Ip4 1], 0, True), (EstablishedInbound, 1, True), (PendingInbound [Ip4 1], 2, False)]"
    by (simp add: behaviour_start_def with_exemptions_def rate_limiter_new_def callback_step_attempt callback_step_idle allow_at_def
        count_hit_def Let_def MAX_TRACKED_IPS_def hm_len_insert prune_def del: callback_step.simps)
  from behaviour_limits_connections [OF refl, of "V4 1" "[]", THEN conjunct1, rule_format]
  show "length (in_span 0 60 (let_in (V4 1) (br_log (fold callback_turn [(PendingInbound [Ip4 1], 0), (EstablishedInbound, 1),
     (PendingInbound [Ip4 1], 1)] (behaviour_start 1 60 [] 0))))) \<le> 1"
    by (metis empty_iff empty_set unat_1)
qed

end
