(* ===== verification/Fuzz_Targets.thy ===== *)
theory Fuzz_Targets imports Codec begin

text \<open>
  The three fuzz targets, \<^verbatim>\<open>fuzz/fuzz_targets/decode_request.rs\<close>, \<^verbatim>\<open>decode_response.rs\<close> and \<^verbatim>\<open>decode_tunnel_header.rs\<close>: what
  they accept, and what they ask of bincode beyond \<open>bincode_ok\<close>.
\<close>

text \<open>A target passes or panics, at one of the two \<^verbatim>\<open>expect\<close> or at the \<^verbatim>\<open>assert_eq\<close>.\<close>

datatype fuzz_result = Passes | DoesNotEncode | DoesNotDecode | Differs

definition fuzz_round :: "'m bincode \<Rightarrow> bytes \<Rightarrow> fuzz_result" where
  "fuzz_round B data =
     (case decode B data of
        Inl _ \<Rightarrow> Passes
      | Inr message \<Rightarrow> (case encode B message of
            Inl _ \<Rightarrow> DoesNotEncode
          | Inr bs \<Rightarrow> (case decode B bs of
                Inl _ \<Rightarrow> DoesNotDecode
              | Inr back \<Rightarrow> if message = back then Passes else Differs)))"

definition fuzz_decode_request :: "nux_request bincode \<Rightarrow> bytes \<Rightarrow> fuzz_result" where
  "fuzz_decode_request B data = fuzz_round B data"

definition fuzz_decode_response :: "nux_response bincode \<Rightarrow> bytes \<Rightarrow> fuzz_result" where
  "fuzz_decode_response B data = fuzz_round B data"

definition fuzz_decode_tunnel_header :: "tunnel_header bincode \<Rightarrow> bytes \<Rightarrow> fuzz_result" where
  "fuzz_decode_tunnel_header B data = fuzz_round B data"

text \<open>Under \<open>bincode_ok\<close> only the first \<^verbatim>\<open>expect\<close> can fail, and it fails exactly on the messages that decode and do not encode under
  the limit of the options; so that none does is what the targets test.\<close>

lemma fuzz_round_iff:
  assumes "bincode_ok B"
  shows "fuzz_round B data = (case deserialize B bincode_options data of
      None \<Rightarrow> Passes
    | Some m \<Rightarrow> if serialize B bincode_options m = None then DoesNotEncode else Passes)"
  using assms
  by (auto simp: fuzz_round_def decode_def encode_def bincode_ok_def ok_or_def split: option.split sum.split)

lemma fuzz_round_passes_iff:
  assumes "bincode_ok B"
  shows "fuzz_round B data = Passes \<longleftrightarrow> (\<forall>m. deserialize B bincode_options data = Some m \<longrightarrow> serialize B bincode_options m \<noteq> None)"
  using fuzz_round_iff [OF assms, of data] by (simp split: option.split)

theorem fuzz_targets_pass:
  assumes "bincode_ok Q" "bincode_ok R" "bincode_ok H"
  shows "(\<forall>data. fuzz_decode_request Q data = Passes \<and> fuzz_decode_response R data = Passes \<and> fuzz_decode_tunnel_header H data = Passes) \<longleftrightarrow>
    (\<forall>data. (\<forall>m. deserialize Q bincode_options data = Some m \<longrightarrow> serialize Q bincode_options m \<noteq> None) \<and>
       (\<forall>m. deserialize R bincode_options data = Some m \<longrightarrow> serialize R bincode_options m \<noteq> None) \<and>
       (\<forall>m. deserialize H bincode_options data = Some m \<longrightarrow> serialize H bincode_options m \<noteq> None))"
  unfolding fuzz_decode_request_def fuzz_decode_response_def fuzz_decode_tunnel_header_def
  by (simp only: fuzz_round_passes_iff [OF assms(1)] fuzz_round_passes_iff [OF assms(2)] fuzz_round_passes_iff [OF assms(3)])

end
