(* ===== verification/Gateway_Limit.thy ===== *)
theory Gateway_Limit imports Machine begin

text \<open>
  \<^verbatim>\<open>nux_gateway/src/rate_limit.rs\<close>: the fixed-window limiter of the two sensitive routes. The atomic
  fields are words and \<^verbatim>\<open>fetch_add\<close> wraps; requests are taken one at a time; \<open>Gateway_Race\<close> lets
  them interleave. The clock is the argument \<open>now\<close>, in seconds.
\<close>

section \<open>The code\<close>

definition SENSITIVE_ROUTE_MAX_PER_WINDOW :: u32 where "SENSITIVE_ROUTE_MAX_PER_WINDOW = 120"
definition SENSITIVE_ROUTE_WINDOW_SECS :: u64 where "SENSITIVE_ROUTE_WINDOW_SECS = 60"

record window_limiter =
  wl_max :: u32
  wl_window_secs :: u64
  window_start :: u64
  count :: u32

definition window_limiter_new :: "u32 \<Rightarrow> u64 \<Rightarrow> u64 \<Rightarrow> window_limiter" where
  "window_limiter_new m w now = \<lparr>wl_max = m, wl_window_secs = w, window_start = now, count = 0\<rparr>"

definition window_allow :: "u64 \<Rightarrow> window_limiter \<Rightarrow> bool \<times> window_limiter" where
  "window_allow now W =
     (let W = (if saturating_sub now (window_start W) \<ge> wl_window_secs W
               then W\<lparr>window_start := now, count := 0\<rparr> else W)
      in (count W < wl_max W, W\<lparr>count := count W + 1\<rparr>))"

section \<open>Runs\<close>

text \<open>A run keeps the limiter, the clock, the requests seen and the instants of the admissions.\<close>

record window_run =
  window_of :: window_limiter
  run_clock :: nat
  seen :: nat
  admissions :: "nat list"

definition request :: "nat \<Rightarrow> window_run \<Rightarrow> window_run" where
  "request elapsed s =
     (let now = run_clock s + elapsed; (ok, W) = window_allow (of_nat now) (window_of s) in
      s\<lparr>window_of := W, run_clock := now, seen := Suc (seen s),
        admissions := (if ok then admissions s @ [now] else admissions s)\<rparr>)"

definition window_run_start :: "u32 \<Rightarrow> u64 \<Rightarrow> nat \<Rightarrow> window_run" where
  "window_run_start m w now = \<lparr>window_of = window_limiter_new m w (of_nat now), run_clock = now, seen = 0, admissions = []\<rparr>"

definition in_span :: "nat \<Rightarrow> nat \<Rightarrow> nat list \<Rightarrow> nat" where
  "in_span lo hi ts = length (filter (\<lambda>t. lo \<le> t \<and> t < hi) ts)"

lemma in_span_simps [simp]:
  "in_span lo hi [] = 0"
  "in_span lo hi (ts @ [t]) = in_span lo hi ts + (if lo \<le> t \<and> t < hi then 1 else 0)"
  by (simp_all add: in_span_def)

lemma in_span_mono: "lo' \<le> lo \<Longrightarrow> hi \<le> hi' \<Longrightarrow> in_span lo hi ts \<le> in_span lo' hi' ts"
  unfolding in_span_def by (rule filter_length_mono) auto

lemma in_span_split: "lo \<le> mid \<Longrightarrow> mid \<le> hi \<Longrightarrow> in_span lo hi ts = in_span lo mid ts + in_span mid hi ts"
  by (induction ts) (auto simp: in_span_def)

lemma in_span_empty: "\<forall>t \<in> set ts. t < lo \<Longrightarrow> in_span lo hi ts = 0"
  by (auto simp: in_span_def filter_empty_conv)

lemma in_span_within: "\<forall>t \<in> set ts. t < hi' \<Longrightarrow> lo' \<le> lo \<Longrightarrow> in_span lo hi ts \<le> in_span lo' hi' ts"
  by (induction ts) (auto simp: in_span_def)

text \<open>
  The window in progress began at \<open>start\<close>. It has admitted what its counter says, up to the limit, and
  whatever was admitted less than a window before it began is at most the limit.
\<close>

definition window_inv_at :: "nat \<Rightarrow> nat \<Rightarrow> nat \<Rightarrow> window_run \<Rightarrow> bool" where
  "window_inv_at m w start s \<longleftrightarrow>
     unat (wl_max (window_of s)) = m \<and> unat (wl_window_secs (window_of s)) = w \<and>
     window_start (window_of s) = of_nat start \<and> start \<le> run_clock s \<and> run_clock s < start + w \<and>
     (\<forall>t \<in> set (admissions s). t \<le> run_clock s) \<and>
     unat (count (window_of s)) \<le> seen s \<and>
     in_span start (start + w) (admissions s) = min m (unat (count (window_of s))) \<and>
     in_span (Suc start - w) start (admissions s) \<le> m \<and>
     (\<forall>lo. in_span lo (lo + w) (admissions s) \<le> 2 * m)"

definition unwrapped :: "window_run \<Rightarrow> bool" where
  "unwrapped s \<longleftrightarrow> run_clock s < 2 ^ 64 \<and> seen s < 2 ^ 32"

definition window_inv :: "nat \<Rightarrow> nat \<Rightarrow> window_run \<Rightarrow> bool" where
  "window_inv m w s \<longleftrightarrow> (unwrapped s \<longrightarrow> (\<exists>start. window_inv_at m w start s))"

lemma unwrapped_before: "unwrapped (request e s) \<Longrightarrow> unwrapped s"
  by (simp add: unwrapped_def request_def Let_def split: prod.splits)

lemma unat_clock: "n < 2 ^ 64 \<Longrightarrow> unat (of_nat n :: u64) = n"
  by (simp add: unsigned_of_nat take_bit_nat_eq_self)

lemma window_over_iff:
  assumes "window_inv_at m w start s" "run_clock s + e < 2 ^ 64"
  shows "wl_window_secs (window_of s) \<le> saturating_sub (of_nat (run_clock s + e)) (window_start (window_of s))
    \<longleftrightarrow> start + w \<le> run_clock s + e"
proof -
  have "unat (saturating_sub (of_nat (run_clock s + e) :: u64) (of_nat start)) = run_clock s + e - start"
    using assms by (simp only: unat_saturating_sub) (simp add: unat_clock window_inv_at_def del: of_nat_add)
  with assms(1) show ?thesis by (auto simp: word_le_nat_alt window_inv_at_def)
qed

text \<open>A request after the end of the window begins a new one; any other is counted in it.\<close>

lemma request_new_window:
  assumes "unwrapped (request e s)" "window_inv_at m w start s" "start + w \<le> run_clock s + e"
  shows "request e s = \<lparr>window_of = (window_of s)\<lparr>window_start := of_nat (run_clock s + e), count := 1\<rparr>,
    run_clock = run_clock s + e, seen = Suc (seen s),
    admissions = (if 0 < m then admissions s @ [run_clock s + e] else admissions s)\<rparr>"
proof -
  have "run_clock s + e < 2 ^ 64" using assms(1) by (simp add: unwrapped_def request_def Let_def split: prod.splits)
  with assms(2,3) have "wl_window_secs (window_of s) \<le> saturating_sub (of_nat (run_clock s + e)) (window_start (window_of s))"
    by (simp only: window_over_iff)
  moreover have "0 < wl_max (window_of s) \<longleftrightarrow> 0 < m"
    using assms(2) by (simp add: window_inv_at_def word_less_nat_alt)
  ultimately show ?thesis by (cases s) (simp add: request_def window_allow_def Let_def)
qed

lemma request_same_window:
  assumes "unwrapped (request e s)" "window_inv_at m w start s" "run_clock s + e < start + w"
  shows "request e s = \<lparr>window_of = (window_of s)\<lparr>count := count (window_of s) + 1\<rparr>,
    run_clock = run_clock s + e, seen = Suc (seen s),
    admissions = (if unat (count (window_of s)) < m then admissions s @ [run_clock s + e] else admissions s)\<rparr>"
proof -
  have "run_clock s + e < 2 ^ 64" using assms(1) by (simp add: unwrapped_def request_def Let_def split: prod.splits)
  with assms(2,3) have "\<not> wl_window_secs (window_of s) \<le> saturating_sub (of_nat (run_clock s + e)) (window_start (window_of s))"
    by (simp only: window_over_iff not_le)
  moreover have "count (window_of s) < wl_max (window_of s) \<longleftrightarrow> unat (count (window_of s)) < m"
    using assms(2) by (simp add: window_inv_at_def word_less_nat_alt)
  ultimately show ?thesis by (cases s) (simp add: request_def window_allow_def Let_def)
qed

lemma window_inv_new_window:
  assumes "unwrapped (request e s)" "window_inv_at m w start s" "start + w \<le> run_clock s + e" "0 < w"
  shows "window_inv_at m w (run_clock s + e) (request e s)"
proof -
  let ?now = "run_clock s + e"
  have i: "\<forall>t \<in> set (admissions s). t < start + w" "in_span start (start + w) (admissions s) \<le> m"
    "\<And>lo. in_span lo (lo + w) (admissions s) \<le> 2 * m"
    using assms(2) by (auto simp: window_inv_at_def)
  then have old: "\<forall>t \<in> set (admissions s). t < ?now" using assms(3) by fastforce
  have late: "in_span lo hi (admissions s) \<le> m" if "start \<le> lo" for lo hi
    using in_span_within [OF i(1) that, of hi] i(2) by simp
  have none: "in_span ?now (?now + w) (admissions s) = 0" using old by (rule in_span_empty)
  have "in_span lo (lo + w) (admissions (request e s)) \<le> 2 * m" for lo
    using i(3) [of lo] late [of lo "lo + w"] assms(3)
    by (auto simp: request_new_window [OF assms(1-3)])
  moreover have "start \<le> Suc ?now - w" using assms(3) by simp
  ultimately show ?thesis
    using assms(2,4) late none old
    by (auto simp: window_inv_at_def request_new_window [OF assms(1-3)] min_def)
qed

lemma window_inv_same_window:
  assumes "unwrapped (request e s)" "window_inv_at m w start s" "run_clock s + e < start + w"
  shows "window_inv_at m w start (request e s)"
proof -
  let ?now = "run_clock s + e" and ?c = "unat (count (window_of s))"
  have i: "\<forall>t \<in> set (admissions s). t < start + w" "in_span start (start + w) (admissions s) = min m ?c"
    "\<And>lo. in_span lo (lo + w) (admissions s) \<le> 2 * m" "in_span (Suc start - w) start (admissions s) \<le> m"
    "?c \<le> seen s" "start \<le> run_clock s"
    using assms(2) by (auto simp: window_inv_at_def)
  have "Suc (seen s) < 2 ^ 32" using assms(1) by (simp add: unwrapped_def request_def Let_def split: prod.splits)
  with i(5) have count: "unat (count (window_of s) + 1) = Suc ?c"
    by (simp add: unat_word_ariths)
  have spans: "in_span lo (lo + w) (admissions s) + 1 \<le> 2 * m" if lo: "lo \<le> ?now" "?now < lo + w" and c: "?c < m" for lo
  proof (cases "start \<le> lo")
    case True
    then show ?thesis using in_span_within [OF i(1) True, of "lo + w"] i(2) c by simp
  next
    case False
    have "in_span start (lo + w) (admissions s) \<le> ?c"
      using in_span_within [OF i(1), of start start "lo + w"] i(2) by simp
    moreover have "Suc start - w \<le> lo" using lo(2) i(6) by linarith
    then have "in_span lo start (admissions s) \<le> m"
      using in_span_mono [of "Suc start - w" lo start start "admissions s"] i(4) by simp
    ultimately show ?thesis
      using in_span_split [of lo start "lo + w" "admissions s"] False lo i(6) c by simp
  qed
  have "in_span lo (lo + w) (admissions (request e s)) \<le> 2 * m" for lo
    using i(3) [of lo] spans [of lo] by (auto simp: request_same_window [OF assms])
  then show ?thesis
    using assms(2,3) i count
    by (auto simp: window_inv_at_def request_same_window [OF assms] min_def)
qed

lemma window_inv_step:
  assumes "0 < w" "window_inv m w s"
  shows "window_inv m w (request e s)"
  unfolding window_inv_def
proof
  assume u: "unwrapped (request e s)"
  then obtain start where "window_inv_at m w start s"
    using assms(2) unwrapped_before by (auto simp: window_inv_def)
  then show "\<exists>start. window_inv_at m w start (request e s)"
    using window_inv_new_window [OF u] window_inv_same_window [OF u] assms(1) by (metis not_less)
qed

lemma window_inv_start: "0 < w \<Longrightarrow> window_inv (unat m) (unat w) (window_run_start m w now)"
  by (auto simp: window_inv_def window_inv_at_def window_run_start_def window_limiter_new_def word_gt_0
      intro!: exI [of _ now] simp flip: unat_gt_0)

interpretation window: machine request "window_inv m (Suc w)" "\<lambda>_. True"
  by unfold_locales (simp add: window_inv_step)

section \<open>Properties\<close>

text \<open>C39 (\<open>WindowLimiter\<close>): under a clock that does not go back and fewer than \<open>2 ^ 32\<close> requests, any stretch of time as
  long as the window contains at most twice the limit of admitted requests, the usual price of fixed
  windows; and the window in progress has admitted its requests in order until the limit, no fewer.\<close>

theorem window_limiter_bound:
  assumes "0 < w" "s = fold request elapsed (window_run_start m w now)" "unwrapped s"
  shows "(\<forall>lo. in_span lo (lo + unat w) (admissions s) \<le> 2 * unat m) \<and>
    (\<exists>start. start \<le> run_clock s \<and> run_clock s < start + unat w \<and>
       in_span start (start + unat w) (admissions s) = min (unat m) (unat (count (window_of s))))"
proof -
  obtain k where k: "unat w = Suc k" using assms(1) by (metis gr0_conv_Suc unat_gt_0 word_greater_zero_iff)
  have "window_inv (unat m) (Suc k) (window_run_start m w now)"
    using window_inv_start [OF assms(1), of m now] by (simp add: k)
  then have "window_inv (unat m) (Suc k) s"
    unfolding assms(2) by (rule window.inv_run) simp
  with assms(3) show ?thesis by (auto simp: window_inv_def window_inv_at_def k)
qed

lemma request_totals:
  "run_clock (fold request es s) = run_clock s + sum_list es" "seen (fold request es s) = seen s + length es"
  by (induction es arbitrary: s) (simp_all add: request_def Let_def split: prod.splits)

theorem window_limiter_bound_witness:
  "in_span 100 160 (admissions (fold request [0, 1, 1, 70, 2] (window_run_start 2 60 100))) \<le> 2 * unat (2 :: u32)"
proof -
  have "unwrapped (fold request [0, 1, 1, 70, 2] (window_run_start 2 60 100))"
    unfolding unwrapped_def request_totals by (simp add: window_run_start_def)
  from window_limiter_bound [OF _ refl this] have "\<forall>lo. in_span lo (lo + unat (60 :: u64))
      (admissions (fold request [0, 1, 1, 70, 2] (window_run_start 2 60 100))) \<le> 2 * unat (2 :: u32)" by simp
  from spec [OF this, of 100] show ?thesis by simp
qed

text \<open>The counter wraps: after \<open>2 ^ 32\<close> requests in one window the limiter admits again.\<close>

lemma window_counter_wraps:
  assumes "count W = - 1" "wl_max W = 120" "window_start W = now" "0 < wl_window_secs W"
  shows "fst (window_allow now W) = False \<and> fst (window_allow now (snd (window_allow now W))) = True"
  using assms by (simp add: window_allow_def Let_def word_gt_0 not_le)

end
