(* ===== verification/Gateway.thy ===== *)
theory Gateway imports Guard_Config Guard Gateway_Limit begin

text \<open>
  The Gateway, \<^verbatim>\<open>nux_gateway/src\<close>: models, errors, roles, handlers, bearer check, routers and the
  configuration from the environment. Its tunnel side is a Guard (\<open>Guard\<close>, \<open>Tunnel\<close>), to which it sends
  \<open>Allow\<close> commands.

  Parameters: the JSON codec (\<open>json_lib\<close>), the parsers of \<open>config_lib\<close>, the answers of the dashboard. The
  SQLite table is the list of its rows in insertion order; \<open>db_fails\<close> says whether the connection or
  the statement fails. What axum rejects before a handler runs (no route, a body that does not
  deserialise) is \<open>Rejected\<close>; \<open>Panic\<close> is a failed \<^verbatim>\<open>expect\<close>. \<open>RateLimit\<close>, \<open>Allow\<close> and \<open>CheckSum\<close> have the fields of
  the records of \<open>Guard_Config\<close>, which are used for them.
\<close>

section \<open>Errors\<close>

datatype app_error =
    Unauthorized | ConfigNotFound | BadRequest string string | DashboardNotConfigured | DashboardUnreachable
  | RateLimited | Internal

definition status_code :: "app_error \<Rightarrow> nat" where
  "status_code e = (case e of
       Unauthorized \<Rightarrow> 401 | ConfigNotFound \<Rightarrow> 404 | BadRequest _ _ \<Rightarrow> 400
     | DashboardNotConfigured \<Rightarrow> 503 | DashboardUnreachable \<Rightarrow> 503 | RateLimited \<Rightarrow> 429 | Internal \<Rightarrow> 500)"

section \<open>Models\<close>

record config_input =
  in_rate_limit :: raw_rate_limit
  in_allow :: "raw_allow list"
  in_check_sum :: "raw_checksum_bin list"

record config_row =
  row_uuid :: string
  rate_limit_json :: string
  allow_json :: string
  check_sum_json :: string
  row_updated_at :: string

record config_node_guard =
  uuid :: string
  gw_rate_limit :: raw_rate_limit
  gw_allow :: "raw_allow list"
  gw_check_sum :: "raw_checksum_bin list"
  gw_updated_at :: string

record json_lib =
  rate_to_json :: "raw_rate_limit \<Rightarrow> string"
  rate_of_json :: "string \<Rightarrow> raw_rate_limit option"
  allow_to_json :: "raw_allow list \<Rightarrow> string"
  allow_of_json :: "string \<Rightarrow> raw_allow list option"
  sums_to_json :: "raw_checksum_bin list \<Rightarrow> string"
  sums_of_json :: "string \<Rightarrow> raw_checksum_bin list option"
  input_of_json :: "string \<Rightarrow> config_input option"
  state_of_json :: "string \<Rightarrow> string option"
  state_to_json :: "string \<Rightarrow> string"

definition json_ok :: "json_lib \<Rightarrow> bool" where
  "json_ok J \<longleftrightarrow> (\<forall>r. rate_of_json J (rate_to_json J r) = Some r) \<and>
     (\<forall>a. allow_of_json J (allow_to_json J a) = Some a) \<and> (\<forall>c. sums_of_json J (sums_to_json J c) = Some c)"

definition into_row :: "json_lib \<Rightarrow> config_node_guard \<Rightarrow> string \<Rightarrow> config_row" where
  "into_row J c t = \<lparr>row_uuid = uuid c, rate_limit_json = rate_to_json J (gw_rate_limit c),
     allow_json = allow_to_json J (gw_allow c), check_sum_json = sums_to_json J (gw_check_sum c), row_updated_at = t\<rparr>"

definition from_row :: "json_lib \<Rightarrow> config_row \<Rightarrow> config_node_guard option" where
  "from_row J r =
     (case (rate_of_json J (rate_limit_json r), allow_of_json J (allow_json r), sums_of_json J (check_sum_json r)) of
        (Some rl, Some al, Some cs) \<Rightarrow> Some \<lparr>uuid = row_uuid r, gw_rate_limit = rl, gw_allow = al, gw_check_sum = cs,
          gw_updated_at = row_updated_at r\<rparr>
      | _ \<Rightarrow> None)"

section \<open>Roles\<close>

definition ROLE_GUARD :: role where "ROLE_GUARD = ''gw-guard''"
definition ROLE_CLIENT :: role where "ROLE_CLIENT = ''gw-client''"

definition roles_for_config :: "config_lib \<Rightarrow> config_node_guard \<Rightarrow> (peer_id \<times> role list) list" where
  "roles_for_config L c =
     (case parse_peer L (uuid c) of Inr p \<Rightarrow> [(p, [ROLE_GUARD, ROLE_CLIENT])] | Inl _ \<Rightarrow> []) @
     List.map_filter (\<lambda>e. case parse_peer L (allow_peer e) of Inr p \<Rightarrow> Some (p, [ROLE_CLIENT]) | Inl _ \<Rightarrow> None) (gw_allow c)"

section \<open>State and replies\<close>

datatype http_method = GET | HEAD | POST | PUT | OtherMethod

text \<open>axum serves a \<^verbatim>\<open>get\<close> route for HEAD too.\<close>

definition gets :: "http_method \<Rightarrow> bool" where
  "gets meth \<longleftrightarrow> meth = GET \<or> meth = HEAD"

record upstream_request =
  up_method :: http_method
  up_url :: string
  up_body :: "string option"
  up_bearer :: "string option"

record upstream_response =
  up_status :: nat
  up_content_type :: "string option"
  up_bytes :: string

record gateway =
  db_rows :: "config_row list"
  sent :: "guard_control list"
  ctl_open :: bool
  dashboard_base_url :: string
  dashboard_token :: "string option"
  get_config_limiter :: window_limiter
  node_state_limiter :: window_limiter
  upstream_log :: "upstream_request list"

datatype reply =
    Rejected | Panic | Failed app_error
  | ConfigJson config_node_guard
  | HealthJson string
  | Relayed_response upstream_response

section \<open>Configurations\<close>

fun check_all :: "('a \<Rightarrow> app_error + unit) \<Rightarrow> 'a list \<Rightarrow> app_error + unit" where
  "check_all f [] = Inr ()"
| "check_all f (x # xs) = and_then (f x) (\<lambda>_. check_all f xs)"

definition validate_input :: "config_lib \<Rightarrow> config_input \<Rightarrow> app_error + unit" where
  "validate_input L i =
     (if rl_window_secs (in_rate_limit i) = 0 then Inl (BadRequest ''rate_limit.window_secs'' []) else
      and_then (check_all (\<lambda>ip. map_err (\<lambda>_. BadRequest ''rate_limit.exempt'' ip) (map_sum id (\<lambda>_. ()) (parse_ip L ip)))
         (rl_exempt (in_rate_limit i))) (\<lambda>_.
      and_then (check_all (\<lambda>e. map_err (\<lambda>_. BadRequest ''allow.peer'' (allow_peer e)) (map_sum id (\<lambda>_. ()) (parse_peer L (allow_peer e))))
         (in_allow i)) (\<lambda>_.
       check_all (\<lambda>e.
         and_then (map_err (\<lambda>_. BadRequest ''check_sum.peer'' (checksum_peer e)) (parse_peer L (checksum_peer e))) (\<lambda>_.
         and_then (map_err (\<lambda>_. BadRequest ''check_sum.sha256'' (checksum_sha256 e)) (hex_bytes L (trim (checksum_sha256 e)))) (\<lambda>b.
           if length b \<noteq> SHA256_LEN then Inl (BadRequest ''check_sum.sha256'' (checksum_sha256 e)) else Inr ())))
         (in_check_sum i))))"

definition unix_now_string :: "u64 option \<Rightarrow> string" where
  "unix_now_string tick = decimal (unat (unix_now tick))"

text \<open>\<^verbatim>\<open>insert .. on conflict (uuid) do update\<close>: the row keeps its place.\<close>

fun upsert :: "config_row \<Rightarrow> config_row list \<Rightarrow> config_row list" where
  "upsert r [] = [r]"
| "upsert r (q # qs) = (if row_uuid q = row_uuid r then r # qs else q # upsert r qs)"

definition send_control :: "guard_control \<Rightarrow> gateway \<Rightarrow> gateway" where
  "send_control c g = (if ctl_open g then g\<lparr>sent := sent g @ [c]\<rparr> else g)"

definition put_config :: "config_lib \<Rightarrow> json_lib \<Rightarrow> bool \<Rightarrow> u64 option \<Rightarrow> string \<Rightarrow> config_input \<Rightarrow> gateway \<Rightarrow> reply \<times> gateway" where
  "put_config L J db_fails tick u i g =
     (case and_then (map_err (\<lambda>_. BadRequest ''uuid'' u) (parse_peer L u)) (\<lambda>_. validate_input L i) of
        Inl e \<Rightarrow> (Failed e, g)
      | Inr _ \<Rightarrow>
          let row = into_row J \<lparr>uuid = u, gw_rate_limit = in_rate_limit i, gw_allow = in_allow i,
                gw_check_sum = in_check_sum i, gw_updated_at = []\<rparr> (unix_now_string tick)
          in if db_fails then (Failed Internal, g)
             else let g = g\<lparr>db_rows := upsert row (db_rows g)\<rparr> in
               case from_row J row of
                 None \<Rightarrow> (Panic, g)
               | Some saved \<Rightarrow> (ConfigJson saved, fold (\<lambda>(p, rs). send_control (Allow p rs)) (roles_for_config L saved) g))"

definition get_config :: "config_lib \<Rightarrow> json_lib \<Rightarrow> bool \<Rightarrow> string \<Rightarrow> gateway \<Rightarrow> reply" where
  "get_config L J db_fails u g =
     (case parse_peer L u of
        Inl _ \<Rightarrow> Failed (BadRequest ''uuid'' u)
      | Inr _ \<Rightarrow>
          if db_fails then Failed Internal
          else case List.find (\<lambda>r. row_uuid r = u) (db_rows g) of
              None \<Rightarrow> Failed ConfigNotFound
            | Some r \<Rightarrow> (case from_row J r of None \<Rightarrow> Panic | Some c \<Rightarrow> ConfigJson c))"

text \<open>At start: \<open>None\<close> is a failed \<^verbatim>\<open>expect\<close>.\<close>

fun rebuild_whitelist :: "config_lib \<Rightarrow> json_lib \<Rightarrow> config_row list \<Rightarrow> whitelist \<Rightarrow> whitelist option" where
  "rebuild_whitelist L J [] w = Some w"
| "rebuild_whitelist L J (r # rs) w = (case from_row J r of
       None \<Rightarrow> None
     | Some c \<Rightarrow> rebuild_whitelist L J rs (fold (\<lambda>(p, rs). allow p rs) (roles_for_config L c) w))"

section \<open>The dashboard\<close>

type_synonym dashboard = "upstream_request \<Rightarrow> string + upstream_response"

definition forward_to_dashboard :: "dashboard \<Rightarrow> http_method \<Rightarrow> string \<Rightarrow> string option \<Rightarrow> string option \<Rightarrow> string option \<Rightarrow>
    gateway \<Rightarrow> reply \<times> gateway" where
  "forward_to_dashboard D meth path query body bearer g =
     (let url = dashboard_base_url g @ path @ (case query of Some q \<Rightarrow> if q = [] then [] else CHR ''?'' # q | None \<Rightarrow> []);
          req = \<lparr>up_method = meth, up_url = url, up_body = body, up_bearer = bearer\<rparr>;
          g = g\<lparr>upstream_log := upstream_log g @ [req]\<rparr>
      in (case D req of Inl _ \<Rightarrow> Failed DashboardUnreachable | Inr resp \<Rightarrow> Relayed_response resp, g))"

definition device_code :: "dashboard \<Rightarrow> string \<Rightarrow> gateway \<Rightarrow> reply \<times> gateway" where
  "device_code D body g = forward_to_dashboard D POST ''/api/v1/public/device/code'' None (Some body) None g"

definition device_status :: "dashboard \<Rightarrow> string option \<Rightarrow> gateway \<Rightarrow> reply \<times> gateway" where
  "device_status D query g = forward_to_dashboard D GET ''/api/v1/public/device/status'' query None None g"

definition public_key :: "dashboard \<Rightarrow> gateway \<Rightarrow> reply \<times> gateway" where
  "public_key D g = forward_to_dashboard D GET ''/api/v1/public/keys/public.pem'' None None None g"

definition healthz :: "dashboard \<Rightarrow> gateway \<Rightarrow> reply \<times> gateway" where
  "healthz D g =
     (let req = \<lparr>up_method = GET, up_url = dashboard_base_url g @ ''/api/v1/public/healthz'', up_body = None, up_bearer = None\<rparr>
      in (HealthJson (case D req of Inr resp \<Rightarrow> if 200 \<le> up_status resp \<and> up_status resp < 300 then ''ok'' else ''unreachable''
           | Inl _ \<Rightarrow> ''unreachable''),
          g\<lparr>upstream_log := upstream_log g @ [req]\<rparr>))"

definition ALLOWED_STATES :: "string list" where
  "ALLOWED_STATES = [''active'', ''inactive'', ''relay'', ''suspended'']"

definition node_state_path :: "string \<Rightarrow> string" where
  "node_state_path peer = ''/api/v1/private/nodes/'' @ peer @ ''/state''"

definition post_node_state :: "config_lib \<Rightarrow> json_lib \<Rightarrow> dashboard \<Rightarrow> string \<Rightarrow> string \<Rightarrow> gateway \<Rightarrow> reply \<times> gateway" where
  "post_node_state L J D peer st g =
     (case parse_peer L peer of
        Inl _ \<Rightarrow> (Failed (BadRequest ''peer_id'' peer), g)
      | Inr _ \<Rightarrow>
          if st \<notin> set ALLOWED_STATES then (Failed (BadRequest ''state'' st), g)
          else case dashboard_token g of
              None \<Rightarrow> (Failed DashboardNotConfigured, g)
            | Some tok \<Rightarrow> forward_to_dashboard D POST (node_state_path peer) None (Some (state_to_json J st)) (Some tok) g)"

section \<open>Routers\<close>

text \<open>\<open>req_authorization\<close> is the value of the header \<^verbatim>\<open>Authorization\<close> when it is visible ASCII; \<open>req_json\<close> says whether the header
  \<^verbatim>\<open>Content-Type\<close> announces JSON; the segments of the path are percent-decoded.\<close>

record http_request =
  req_method :: http_method
  req_path :: "string list"
  req_authorization :: "string option"
  req_query :: "string option"
  req_json :: bool
  req_body :: string

definition require_bearer :: "string \<Rightarrow> http_request \<Rightarrow> bool" where
  "require_bearer expected req = (case req_authorization req of
       None \<Rightarrow> False
     | Some v \<Rightarrow> if prefix ''Bearer '' v
                 then (let token = drop 7 v in length token = length expected \<and> token = expected) else False)"

text \<open>The \<^verbatim>\<open>enforce\<close> layer: the limiter is asked before the handler runs.\<close>

definition enforce :: "u64 option \<Rightarrow> (gateway \<Rightarrow> window_limiter) \<Rightarrow> ((window_limiter \<Rightarrow> window_limiter) \<Rightarrow> gateway \<Rightarrow> gateway) \<Rightarrow>
    (gateway \<Rightarrow> reply \<times> gateway) \<Rightarrow> gateway \<Rightarrow> reply \<times> gateway" where
  "enforce tick sel upd handler g =
     (case window_allow (unix_now tick) (sel g) of
        (ok, W) \<Rightarrow> let g = upd (\<lambda>_. W) g in if ok then handler g else (Failed RateLimited, g))"

definition MAX_BODY_BYTES :: nat where "MAX_BODY_BYTES = 64 * 1024"

text \<open>A handler that reads the body: too long or malformed, and axum rejects the request.\<close>

definition with_body :: "(string \<Rightarrow> 'a option) \<Rightarrow> string \<Rightarrow> ('a \<Rightarrow> gateway \<Rightarrow> reply \<times> gateway) \<Rightarrow> gateway \<Rightarrow> reply \<times> gateway" where
  "with_body dec body handler g =
     (if length body > MAX_BODY_BYTES then (Rejected, g)
      else case dec body of None \<Rightarrow> (Rejected, g) | Some x \<Rightarrow> handler x g)"

definition json_body :: "(string \<Rightarrow> 'a option) \<Rightarrow> http_request \<Rightarrow> ('a \<Rightarrow> gateway \<Rightarrow> reply \<times> gateway) \<Rightarrow> gateway \<Rightarrow> reply \<times> gateway" where
  "json_body dec req handler g = (if req_json req then with_body dec (req_body req) handler g else (Rejected, g))"

text \<open>\<open>OtherOnConfigs\<close> and \<open>OtherOnState\<close>: the path of a route, asked with another method. The layers of \<^verbatim>\<open>route_layer\<close> are around
  the answer that axum then gives itself, too.\<close>

datatype endpoint = PutConfig string | Healthz | GetConfig string | PostNodeState string | DeviceCode | DeviceStatus | PublicKeyPem | OtherOnConfigs | OtherOnState

definition admin_route :: "http_method \<Rightarrow> string list \<Rightarrow> endpoint option" where
  "admin_route meth path = (case path of
       [a, b, c, u] \<Rightarrow> if [a, b, c] = [''api'', ''v1'', ''configs''] then Some (if meth = PUT then PutConfig u else OtherOnConfigs) else None
     | [h] \<Rightarrow> if h = ''healthz'' \<and> gets meth then Some Healthz else None
     | _ \<Rightarrow> None)"

definition node_state_route :: "http_method \<Rightarrow> string list \<Rightarrow> endpoint option" where
  "node_state_route meth path = (case path of
       [a, b, c, p, d] \<Rightarrow> if [a, b, c, d] = [''api'', ''v1'', ''nodes'', ''state''] then Some (if meth = POST then PostNodeState p else OtherOnState) else None
     | _ \<Rightarrow> None)"

definition guard_route :: "http_method \<Rightarrow> string list \<Rightarrow> endpoint option" where
  "guard_route meth path = (case path of
       [a, b, c, u] \<Rightarrow> if [a, b, c] = [''api'', ''v1'', ''configs''] then Some (if gets meth then GetConfig u else OtherOnConfigs) else None
     | _ \<Rightarrow> node_state_route meth path)"

definition client_route :: "http_method \<Rightarrow> string list \<Rightarrow> endpoint option" where
  "client_route meth path =
     (if path = [''api'', ''v1'', ''device'', ''code''] then (if meth = POST then Some DeviceCode else None)
      else if path = [''api'', ''v1'', ''device'', ''status''] then (if gets meth then Some DeviceStatus else None)
      else if path = [''api'', ''v1'', ''keys'', ''public.pem''] then (if gets meth then Some PublicKeyPem else None)
      else node_state_route meth path)"

definition admin_router :: "config_lib \<Rightarrow> json_lib \<Rightarrow> dashboard \<Rightarrow> bool \<Rightarrow> string \<Rightarrow> u64 option \<Rightarrow> http_request \<Rightarrow> gateway \<Rightarrow> reply \<times> gateway" where
  "admin_router L J D db_fails token tick req g =
     (case admin_route (req_method req) (req_path req) of
        Some (PutConfig u) \<Rightarrow>
          if require_bearer token req then json_body (input_of_json J) req (put_config L J db_fails tick u) g
          else (Failed Unauthorized, g)
      | Some OtherOnConfigs \<Rightarrow> (if require_bearer token req then Rejected else Failed Unauthorized, g)
      | Some Healthz \<Rightarrow> healthz D g
      | _ \<Rightarrow> (Rejected, g))"

definition limited_state_route :: "config_lib \<Rightarrow> json_lib \<Rightarrow> dashboard \<Rightarrow> u64 option \<Rightarrow> string \<Rightarrow> http_request \<Rightarrow> gateway \<Rightarrow> reply \<times> gateway" where
  "limited_state_route L J D tick peer req =
     enforce tick node_state_limiter node_state_limiter_update (json_body (state_of_json J) req (post_node_state L J D peer))"

definition limited_other :: "u64 option \<Rightarrow> gateway \<Rightarrow> reply \<times> gateway" where
  "limited_other tick = enforce tick node_state_limiter node_state_limiter_update (Pair Rejected)"

definition guard_router :: "config_lib \<Rightarrow> json_lib \<Rightarrow> dashboard \<Rightarrow> bool \<Rightarrow> u64 option \<Rightarrow> http_request \<Rightarrow> gateway \<Rightarrow> reply \<times> gateway" where
  "guard_router L J D db_fails tick req g =
     (case guard_route (req_method req) (req_path req) of
        Some (GetConfig u) \<Rightarrow>
          enforce tick get_config_limiter get_config_limiter_update (\<lambda>g. (get_config L J db_fails u g, g)) g
      | Some OtherOnConfigs \<Rightarrow> enforce tick get_config_limiter get_config_limiter_update (Pair Rejected) g
      | Some OtherOnState \<Rightarrow> limited_other tick g
      | Some (PostNodeState p) \<Rightarrow> limited_state_route L J D tick p req g
      | _ \<Rightarrow> (Rejected, g))"

definition client_router :: "config_lib \<Rightarrow> json_lib \<Rightarrow> dashboard \<Rightarrow> u64 option \<Rightarrow> http_request \<Rightarrow> gateway \<Rightarrow> reply \<times> gateway" where
  "client_router L J D tick req g =
     (case client_route (req_method req) (req_path req) of
        Some DeviceCode \<Rightarrow> with_body Some (req_body req) (device_code D) g
      | Some DeviceStatus \<Rightarrow> device_status D (req_query req) g
      | Some PublicKeyPem \<Rightarrow> public_key D g
      | Some OtherOnState \<Rightarrow> limited_other tick g
      | Some (PostNodeState p) \<Rightarrow> limited_state_route L J D tick p req g
      | _ \<Rightarrow> (Rejected, g))"

end
