(* ===== verification/Gateway_Properties.thy ===== *)
theory Gateway_Properties imports Gateway begin

text \<open>
  What the Gateway promises: who may write, what is stored and read back, which roles a stored
  configuration gives on the live whitelist and after a restart, what reaches the dashboard.
\<close>

section \<open>Facts\<close>

lemma require_bearer_iff: "require_bearer token req \<longleftrightarrow> req_authorization req = Some (''Bearer '' @ token)"
  by (auto simp: require_bearer_def prefix_def Let_def split: option.splits)

lemma check_all_Inr: "check_all f xs = Inr () \<longleftrightarrow> (\<forall>x \<in> set xs. f x = Inr ())"
  by (induction xs) (auto simp: and_then_Inr_iff)

text \<open>The part of the state only \<open>put_config\<close> writes, and the channel to the embedded Guard, which no request closes.\<close>

definition stored_part :: "gateway \<Rightarrow> config_row list \<times> guard_control list \<times> bool" where
  "stored_part g = (db_rows g, sent g, ctl_open g)"

lemma forward_frame [simp, frame_simps]:
  "stored_part (snd (forward_to_dashboard D m p q b t g)) = stored_part g"
  "stored_part (g\<lparr>node_state_limiter := W\<rparr>) = stored_part g"
  "stored_part (g\<lparr>get_config_limiter := W\<rparr>) = stored_part g"
  by (simp_all add: forward_to_dashboard_def stored_part_def Let_def)

lemma post_node_state_frame [simp, frame_simps]: "stored_part (snd (post_node_state L J D p st g)) = stored_part g"
  by (simp add: post_node_state_def split: sum.split option.split)

lemma with_body_frame: "(\<And>x g. stored_part (snd (h x g)) = stored_part g) \<Longrightarrow> stored_part (snd (with_body dec b h g)) = stored_part g"
  by (simp add: with_body_def split: option.split)

lemma json_body_frame: "(\<And>x g. stored_part (snd (h x g)) = stored_part g) \<Longrightarrow> stored_part (snd (json_body dec req h g)) = stored_part g"
  by (simp add: json_body_def with_body_frame)

lemma limited_state_frame [simp, frame_simps]: "stored_part (snd (limited_state_route L J D tick p b g)) = stored_part g"
  by (auto simp: limited_state_route_def enforce_def Let_def json_body_frame split: prod.split)

lemma limited_other_frame [simp, frame_simps]: "stored_part (snd (limited_other tick g)) = stored_part g"
  by (simp add: limited_other_def enforce_def Let_def split: prod.split)

text \<open>The routers behind the tunnels write nothing.\<close>

lemma tunnel_routers_frame:
  "stored_part (snd (guard_router L J D db_fails tick req g)) = stored_part g"
  "stored_part (snd (client_router L J D tick req' g)) = stored_part g"
  by (auto simp: guard_router_def enforce_def client_router_def with_body_frame device_code_def device_status_def
      public_key_def Let_def split: option.split endpoint.split prod.split)

lemma find_upsert: "List.find (\<lambda>q. row_uuid q = v) (upsert r rows) =
    (if v = row_uuid r then Some r else List.find (\<lambda>q. row_uuid q = v) rows)"
  by (induction r rows rule: upsert.induct) auto

lemma row_uuid_into_row [simp]: "row_uuid (into_row J c t) = uuid c"
  by (simp add: into_row_def)

lemma from_into_row: "json_ok J \<Longrightarrow> from_row J (into_row J c t) = Some (c\<lparr>gw_updated_at := t\<rparr>)"
  by (simp add: from_row_def into_row_def json_ok_def)

lemma send_all:
  "fold (\<lambda>(p, rs). send_control (Allow p rs)) prs g =
     (if ctl_open g then g\<lparr>sent := sent g @ map (\<lambda>(p, rs). Allow p rs) prs\<rparr> else g)"
  by (induction prs arbitrary: g) (auto simp: send_control_def)

text \<open>A successful write, in one step.\<close>

lemma put_config_ok:
  assumes "json_ok J" "put_config L J db_fails tick u i g = (ConfigJson c, g')"
  shows "is_ok (parse_peer L u) \<and> validate_input L i = Inr () \<and>
    c = \<lparr>uuid = u, gw_rate_limit = in_rate_limit i, gw_allow = in_allow i, gw_check_sum = in_check_sum i,
      gw_updated_at = unix_now_string tick\<rparr> \<and>
    db_rows g' = upsert (into_row J c (unix_now_string tick)) (db_rows g) \<and>
    sent g' = (if ctl_open g then sent g @ map (\<lambda>(p, rs). Allow p rs) (roles_for_config L c) else sent g) \<and> ctl_open g' = ctl_open g"
proof -
  let ?t = "unix_now_string tick"
  let ?row = "into_row J \<lparr>uuid = u, gw_rate_limit = in_rate_limit i, gw_allow = in_allow i, gw_check_sum = in_check_sum i,
      gw_updated_at = []\<rparr> ?t"
  from assms(2) have ok: "is_ok (parse_peer L u)" "validate_input L i = Inr ()" "\<not> db_fails"
    by (auto simp: put_config_def and_then_Inr_iff is_ok_iff Let_def split: sum.splits if_splits)
  with assms have c: "c = \<lparr>uuid = u, gw_rate_limit = in_rate_limit i, gw_allow = in_allow i, gw_check_sum = in_check_sum i,
      gw_updated_at = ?t\<rparr>"
    and g': "g' = fold (\<lambda>(p, rs). send_control (Allow p rs)) (roles_for_config L c) (g\<lparr>db_rows := upsert ?row (db_rows g)\<rparr>)"
    by (auto simp: put_config_def is_ok_iff from_into_row)
  have "?row = into_row J c ?t" by (simp add: c into_row_def)
  with ok c g' show ?thesis by (simp add: send_all)
qed

lemma checked_iff: "map_err g (map_sum id (\<lambda>_. ()) r) = Inr () \<longleftrightarrow> is_ok r"
  by (cases r) simp_all

lemma checked_sum_iff:
  "and_then (map_err f (parse_peer L p)) (\<lambda>_. and_then (map_err g (hex_bytes L (trim h))) (\<lambda>b.
     if length b \<noteq> SHA256_LEN then Inl e else Inr ())) = Inr () \<longleftrightarrow> is_ok (parse_peer L p) \<and> is_ok (parse_sha256_hex L h)"
  by (cases "parse_peer L p"; cases "hex_bytes L (trim h)") (auto simp: parse_sha256_hex_def)

lemma and_then_unit: "and_then r (\<lambda>_. q) = Inr () \<longleftrightarrow> r = Inr () \<and> q = Inr ()" for r :: "'e + unit"
  by (cases r) auto

lemma validate_input_accepts:
  "validate_input L i = Inr () \<longleftrightarrow> rl_window_secs (in_rate_limit i) \<noteq> 0 \<and>
     is_ok (load_exempt L (rl_exempt (in_rate_limit i))) \<and> is_ok (load_allow L (in_allow i) w) \<and>
     is_ok (load_checksums L (in_check_sum i))"
proof (cases "rl_window_secs (in_rate_limit i) = 0")
  case True
  then show ?thesis by (simp add: validate_input_def)
next
  case False
  then show ?thesis
    unfolding accepts_iffs list_all_iff validate_input_def
    by (simp only: if_False and_then_unit check_all_Inr checked_iff checked_sum_iff not_False_eq_True simp_thms)
qed

lemma i64_secs_zero: "i64_secs x = 0 \<longleftrightarrow> x = 0"
  by (auto simp: i64_secs_def)

text \<open>The commands of a write, taken by the embedded Guard in order.\<close>

definition take_commands :: "guard_control list \<Rightarrow> instant \<Rightarrow> 's guard \<Rightarrow> 's guard" where
  "take_commands cs t G = fold (\<lambda>c G. snd (handle_command c t G)) cs G"

lemma take_allows:
  "whitelist (authenticator (take_commands (map (\<lambda>(p, rs). Allow p rs) prs) t G)) =
     fold (\<lambda>(p, rs). allow p rs) prs (whitelist (authenticator G))"
  by (induction prs arbitrary: G) (auto simp: take_commands_def handle_command_def whitelist_mut_def)

definition names :: "config_lib \<Rightarrow> raw_allow list \<Rightarrow> peer_id \<Rightarrow> bool" where
  "names L es p \<longleftrightarrow> (\<exists>e \<in> set es. parse_peer L (allow_peer e) = Inr p)"

lemma map_of_clients:
  "map_of (rev (List.map_filter (\<lambda>e. case parse_peer L (allow_peer e) of Inr p \<Rightarrow> Some (p, [ROLE_CLIENT]) | Inl _ \<Rightarrow> None) es)) p =
     (if names L es p then Some [ROLE_CLIENT] else None)"
proof (induction es)
  case Nil
  then show ?case by (simp add: map_filter_simps names_def)
next
  case (Cons e es)
  then show ?case
    by (cases "parse_peer L (allow_peer e)") (auto simp: map_filter_simps names_def map_add_def)
qed

lemma roles_of_config:
  "map_of (rev (roles_for_config L c)) p =
     (if names L (gw_allow c) p then Some [ROLE_CLIENT]
      else if parse_peer L (uuid c) = Inr p then Some [ROLE_GUARD, ROLE_CLIENT] else None)"
  by (auto simp: roles_for_config_def map_of_clients map_add_def split: sum.split)

section \<open>What is asked of the dashboard\<close>

definition PUBLIC_PATHS :: "string list" where
  "PUBLIC_PATHS = [''/api/v1/public/device/code'', ''/api/v1/public/device/status'', ''/api/v1/public/keys/public.pem'',
     ''/api/v1/public/healthz'']"

text \<open>The two kinds of request: a public path, perhaps with a query, and no credentials; or the state of a valid peer,
  one of the four known states, with the Gateway's own token.\<close>

definition upstream_allowed :: "config_lib \<Rightarrow> json_lib \<Rightarrow> gateway \<Rightarrow> upstream_request \<Rightarrow> bool" where
  "upstream_allowed L J g q \<longleftrightarrow>
     (up_bearer q = None \<and> (\<exists>path \<in> set PUBLIC_PATHS. \<exists>query. up_url q = dashboard_base_url g @ path @ query \<and>
        (query = [] \<or> hd query = CHR ''?''))) \<or>
     (\<exists>peer st. up_bearer q = dashboard_token g \<and> up_url q = dashboard_base_url g @ node_state_path peer \<and>
        is_ok (parse_peer L peer) \<and> st \<in> set ALLOWED_STATES \<and> up_body q = Some (state_to_json J st))"

definition dashboard_contact :: "config_lib \<Rightarrow> json_lib \<Rightarrow> gateway \<Rightarrow> gateway \<Rightarrow> bool" where
  "dashboard_contact L J g g' \<longleftrightarrow> (\<exists>new. upstream_log g' = upstream_log g @ new \<and> length new \<le> 1 \<and>
     list_all (upstream_allowed L J g) new)"

lemma no_contact: "upstream_log g' = upstream_log g \<Longrightarrow> dashboard_contact L J g g'"
  by (simp add: dashboard_contact_def)

lemma forward_log:
  "upstream_log (snd (forward_to_dashboard D m path q b t g)) = upstream_log g @ [\<lparr>up_method = m,
     up_url = dashboard_base_url g @ path @ (case q of Some q \<Rightarrow> if q = [] then [] else CHR ''?'' # q | None \<Rightarrow> []),
     up_body = b, up_bearer = t\<rparr>]"
  by (simp add: forward_to_dashboard_def Let_def)

lemma public_contact:
  "path \<in> set PUBLIC_PATHS \<Longrightarrow> dashboard_contact L J g (snd (forward_to_dashboard D m path q b None g))"
proof -
  assume "path \<in> set PUBLIC_PATHS"
  then have "upstream_allowed L J g \<lparr>up_method = m, up_url = dashboard_base_url g @ path @ query, up_body = b, up_bearer = None\<rparr>"
    if "query = [] \<or> hd query = CHR ''?''" for query
    using that unfolding upstream_allowed_def by (intro disjI1) auto
  then show ?thesis
    unfolding dashboard_contact_def forward_log by (auto split: option.split)
qed

lemma node_state_contact: "dashboard_contact L J g (snd (post_node_state L J D peer st g))"
proof (cases "is_ok (parse_peer L peer) \<and> st \<in> set ALLOWED_STATES \<and> dashboard_token g \<noteq> None")
  case True
  then obtain p tok where "parse_peer L peer = Inr p" "dashboard_token g = Some tok" by (auto simp: is_ok_iff)
  with True show ?thesis
    by (auto simp: post_node_state_def dashboard_contact_def forward_log upstream_allowed_def is_ok_iff)
next
  case False
  then show ?thesis
    by (auto intro!: no_contact simp: post_node_state_def is_ok_iff split: sum.split option.split)
qed

lemma upstream_allowed_limiter [simp]: "upstream_allowed L J (g\<lparr>node_state_limiter := W\<rparr>) = upstream_allowed L J g"
  by (simp add: upstream_allowed_def fun_eq_iff)

lemma limited_state_contact: "dashboard_contact L J g (snd (limited_state_route L J D tick peer b g))"
proof -
  have same: "dashboard_contact L J (g\<lparr>node_state_limiter := W\<rparr>) g' = dashboard_contact L J g g'" for W g'
    by (simp add: dashboard_contact_def)
  show ?thesis
    using node_state_contact [of L J "g\<lparr>node_state_limiter := snd (window_allow (unix_now tick) (node_state_limiter g))\<rparr>"]
    by (auto simp: limited_state_route_def enforce_def json_body_def with_body_def same Let_def no_contact split: prod.split option.split)
qed

lemma limited_other_contact: "dashboard_contact L J g (snd (limited_other tick g))"
  by (rule no_contact) (simp add: limited_other_def enforce_def Let_def split: prod.split)

lemma put_config_log: "upstream_log (snd (put_config L J db_fails tick u i g)) = upstream_log g"
proof -
  have "upstream_log (fold (\<lambda>(p, rs). send_control (Allow p rs)) prs h) = upstream_log h" for prs h
    by (simp add: send_all)
  then show ?thesis by (simp add: put_config_def Let_def split: sum.split option.split)
qed

section \<open>Properties\<close>

text \<open>C34 (the routers): the store of configurations and the live whitelist change only by a request on the admin
  port that carries the admin token. Without exactly that token, a write is answered 401 before its
  body is read; and whatever reaches the two routers behind the tunnels writes nothing.\<close>

theorem only_the_admin_writes:
  assumes "req_authorization req \<noteq> Some (''Bearer '' @ token)"
  shows "stored_part (snd (admin_router L J D db_fails token tick req g)) = stored_part g \<and>
    (\<forall>u. admin_route (req_method req) (req_path req) = Some (PutConfig u) \<longrightarrow>
       admin_router L J D db_fails token tick req g = (Failed Unauthorized, g)) \<and> status_code Unauthorized = 401 \<and>
    stored_part (snd (guard_router L J D db_fails tick any g)) = stored_part g \<and>
    stored_part (snd (client_router L J D tick any g)) = stored_part g"
proof (intro conjI allI impI)
  have no: "\<not> require_bearer token req" using assms by (simp add: require_bearer_iff)
  show "admin_router L J D db_fails token tick req g = (Failed Unauthorized, g)"
    if "admin_route (req_method req) (req_path req) = Some (PutConfig u)" for u
    using that no by (simp add: admin_router_def)
  show "stored_part (snd (admin_router L J D db_fails token tick req g)) = stored_part g"
    using no by (auto simp: admin_router_def healthz_def stored_part_def Let_def split: option.split endpoint.split)
qed (simp_all add: status_code_def tunnel_routers_frame)

definition sample_input :: config_input where
  "sample_input = \<lparr>in_rate_limit = \<lparr>rl_max = 7, rl_window_secs = 60, rl_exempt = []\<rparr>,
     in_allow = [\<lparr>allow_peer = ''B'', allow_roles = []\<rparr>], in_check_sum = []\<rparr>"

definition sample_json :: json_lib where
  "sample_json = \<lparr>rate_to_json = (\<lambda>r. replicate (to_nat (unat (rl_max r), unat (rl_window_secs r), rl_exempt r)) CHR ''r''),
     rate_of_json = (\<lambda>s. case from_nat (length s) of (m, w, e) \<Rightarrow> Some \<lparr>rl_max = of_nat m, rl_window_secs = of_nat w, rl_exempt = e\<rparr>),
     allow_to_json = (\<lambda>es. replicate (to_nat (map (\<lambda>e. (allow_peer e, allow_roles e)) es)) CHR ''a''),
     allow_of_json = (\<lambda>s. Some (map (\<lambda>(p, rs). \<lparr>allow_peer = p, allow_roles = rs\<rparr>) (from_nat (length s)))),
     sums_to_json = (\<lambda>es. replicate (to_nat (map (\<lambda>e. (checksum_peer e, checksum_sha256 e)) es)) CHR ''c''),
     sums_of_json = (\<lambda>s. Some (map (\<lambda>(p, h). \<lparr>checksum_peer = p, checksum_sha256 = h\<rparr>) (from_nat (length s)))),
     input_of_json = (\<lambda>_. Some sample_input), state_of_json = Some, state_to_json = id\<rparr>"

lemma sample_json_ok: "json_ok sample_json"
  by (auto simp: json_ok_def sample_json_def comp_def intro!: map_idI)

definition sample_gateway :: gateway where
  "sample_gateway = \<lparr>db_rows = [], sent = [], ctl_open = True, dashboard_base_url = ''https://d'', dashboard_token = Some ''tok'',
     get_config_limiter = window_limiter_new 120 60 0, node_state_limiter = window_limiter_new 120 60 0, upstream_log = []\<rparr>"

definition sample_dashboard :: dashboard where
  "sample_dashboard = (\<lambda>_. Inr \<lparr>up_status = 200, up_content_type = None, up_bytes = []\<rparr>)"

definition sample_request :: "string option \<Rightarrow> http_request" where
  "sample_request auth = \<lparr>req_method = PUT, req_path = [''api'', ''v1'', ''configs'', ''A''], req_authorization = auth,
     req_query = None, req_json = True, req_body = []\<rparr>"

theorem only_the_admin_writes_witness:
  "admin_router sample_lib sample_json sample_dashboard False ''secret'' None (sample_request (Some ''Bearer secre'')) sample_gateway =
     (Failed Unauthorized, sample_gateway)"
proof -
  have "req_authorization (sample_request (Some ''Bearer secre'')) \<noteq> Some (''Bearer '' @ ''secret'')"
    "admin_route (req_method (sample_request (Some ''Bearer secre''))) (req_path (sample_request (Some ''Bearer secre''))) =
       Some (PutConfig ''A'')"
    by (simp_all add: sample_request_def admin_route_def)
  with only_the_admin_writes show ?thesis by blast
qed

lemma sample_put: "\<exists>c g'. put_config sample_lib sample_json False (Some 5) ''A'' sample_input sample_gateway = (ConfigJson c, g')"
proof -
  have "validate_input sample_lib sample_input = Inr ()" "parse_peer sample_lib ''A'' = Inr (PeerId [1])"
    by (simp_all add: validate_input_def sample_input_def sample_lib_def)
  then show ?thesis by (auto simp: put_config_def from_into_row [OF sample_json_ok] Let_def)
qed

text \<open>\<open>put_config\<close>, \<open>get_config\<close>: a configuration accepted by the Gateway is the one read back under its
  identifier, field for field and stamped with the time of the write; every other identifier reads as
  before; and a write that is refused stores and sends nothing.\<close>

theorem stored_config_is_read_back:
  assumes "json_ok J" "put_config L J db_fails tick u i g = (r, g')"
  shows "(\<forall>c. r = ConfigJson c \<longrightarrow> get_config L J False u g' = ConfigJson c \<and>
      c = \<lparr>uuid = u, gw_rate_limit = in_rate_limit i, gw_allow = in_allow i, gw_check_sum = in_check_sum i,
        gw_updated_at = unix_now_string tick\<rparr> \<and>
      (\<forall>v. v \<noteq> u \<longrightarrow> get_config L J False v g' = get_config L J False v g)) \<and>
    ((\<exists>c. r = ConfigJson c) \<or> stored_part g' = stored_part g \<and> (\<exists>e. r = Failed e))"
proof (intro conjI allI impI)
  fix c
  assume c: "r = ConfigJson c"
  with assms have ok: "is_ok (parse_peer L u)" "db_rows g' = upsert (into_row J c (unix_now_string tick)) (db_rows g)"
    and fields: "c = \<lparr>uuid = u, gw_rate_limit = in_rate_limit i, gw_allow = in_allow i, gw_check_sum = in_check_sum i,
      gw_updated_at = unix_now_string tick\<rparr>"
    using put_config_ok [OF assms(1), of L db_fails tick u i g c g'] by auto
  show "c = \<lparr>uuid = u, gw_rate_limit = in_rate_limit i, gw_allow = in_allow i, gw_check_sum = in_check_sum i,
      gw_updated_at = unix_now_string tick\<rparr>" by (rule fields)
  show "get_config L J False u g' = ConfigJson c"
    using ok by (auto simp: get_config_def find_upsert from_into_row [OF assms(1)] is_ok_iff fields)
  show "get_config L J False v g' = get_config L J False v g" if "v \<noteq> u" for v
    using that by (simp add: get_config_def ok(2) find_upsert fields split: sum.split)
next
  show "(\<exists>c. r = ConfigJson c) \<or> stored_part g' = stored_part g \<and> (\<exists>e. r = Failed e)"
    using assms by (auto simp: put_config_def from_into_row Let_def split: sum.splits if_splits)
qed

theorem stored_config_is_read_back_witness:
  "\<exists>c. get_config sample_lib sample_json False ''A''
     (snd (put_config sample_lib sample_json False (Some 5) ''A'' sample_input sample_gateway)) = ConfigJson c"
proof -
  obtain c g' where "put_config sample_lib sample_json False (Some 5) ''A'' sample_input sample_gateway = (ConfigJson c, g')"
    using sample_put by blast
  with stored_config_is_read_back [OF sample_json_ok this] show ?thesis by auto
qed

text \<open>What a Guard's \<open>sync-config\<close> receives for a stored configuration: the fields they share.\<close>

definition as_remote :: "config_node_guard \<Rightarrow> remote_config" where
  "as_remote c = \<lparr>remote_rate = gw_rate_limit c, remote_allow = gw_allow c, remote_check_sum = gw_check_sum c,
     updated_at = gw_updated_at c\<rparr>"

text \<open>Gateway and Guard agree on validity: a configuration the Gateway has accepted never breaks the file of a
  Guard: written over any file that loads, it gives a file that loads.\<close>

theorem accepted_configs_load:
  assumes "json_ok J" "put_config L J db_fails tick u i g = (ConfigJson c, g')"
    and "toml_ok L" "is_ok (load L path f)" "apply_remote_config L path (as_remote c) failing f = (Inr (), f')"
  shows "is_ok (load L path f')"
proof -
  from put_config_ok [OF assms(1,2)] have i: "validate_input L i = Inr ()"
    and c: "gw_rate_limit c = in_rate_limit i" "gw_allow c = in_allow i" "gw_check_sum c = in_check_sum i" by auto
  obtain contents d raw where l: "f = Inr contents" "toml_parse L contents = Inr d" "de_config d = Inr raw"
    "is_ok (validate L raw)"
    using assms(4) by (auto simp: load_Inr is_ok_iff)
  have "failing = None" using assms(5) by (auto simp: apply_remote_config_def split: sum.splits option.splits prod.splits)
  then have "load L path f' = validate L (merged (as_remote c) raw)"
    using edited_load [OF assms(3) l(2,3), of path "as_remote c"] assms(5) l(1) by simp
  moreover have "is_ok (validate L (merged (as_remote c) raw))"
    using l(4) i unfolding validate_accepts validate_input_accepts [where w = whitelist_new]
    by (simp add: merged_def as_remote_def c i64_secs_zero)
  ultimately show ?thesis by simp
qed

theorem accepted_configs_load_witness:
  "\<exists>c. is_ok (load sample_lib ''guard.toml''
     (snd (apply_remote_config sample_lib ''guard.toml'' (as_remote c) None sample_file)))"
proof -
  obtain c g' where put: "put_config sample_lib sample_json False (Some 5) ''A'' sample_input sample_gateway = (ConfigJson c, g')"
    using sample_put by blast
  have "is_ok (load sample_lib ''guard.toml'' sample_file)" using sample_load by (auto simp: is_ok_iff)
  moreover have "apply_remote_config sample_lib ''guard.toml'' (as_remote c) None sample_file =
      (Inr (), snd (apply_remote_config sample_lib ''guard.toml'' (as_remote c) None sample_file))"
    by (simp add: apply_remote_config_def read_doc_def sample_file_def sample_parse)
  ultimately show ?thesis
    using accepted_configs_load [OF sample_json_ok put sample_lib_ok] by blast
qed

text \<open>\<open>put_config\<close> and the embedded Guard: once the Guard has taken the commands of a write, a peer that the
  configuration names has the role of a client and no other, even if it is itself a registered Guard; the Guard
  of the configuration, unless named, has both roles; and every other peer keeps what it had, so that
  a write removes nobody.\<close>

theorem write_updates_live_roles:
  assumes "json_ok J" "put_config L J db_fails tick u i g = (ConfigJson c, g')" "ctl_open g" "auth_wf (authenticator G)"
  shows "roles (whitelist (authenticator (take_commands (drop (length (sent g)) (sent g')) t G))) p =
    (if names L (in_allow i) p then Some [ROLE_CLIENT]
     else if parse_peer L u = Inr p then Some [ROLE_GUARD, ROLE_CLIENT]
     else roles (whitelist (authenticator G)) p)"
proof -
  from put_config_ok [OF assms(1,2)] assms(3) have
    sent: "sent g' = sent g @ map (\<lambda>(p, rs). Allow p rs) (roles_for_config L c)" and c: "uuid c = u" "gw_allow c = in_allow i"
    by auto
  have "whitelist_wf (whitelist (authenticator G))" using assms(4) by (simp add: auth_wf_def)
  from wl.get_fold_insert [OF this, of "roles_for_config L c" p] show ?thesis
    by (simp add: sent take_allows roles_of_config c split: option.split if_split)
qed

definition sample_embedded :: "nat guard" where
  "sample_embedded = guard_start \<lparr>sem_new = id, try_acquire = (\<lambda>n. if n = 0 then None else Some (n - 1)), release = Suc,
     available_permits = id\<rparr> (authenticator_new (allow (PeerId [2]) [ROLE_GUARD, ROLE_CLIENT] whitelist_new)) registry_new True"

theorem write_updates_live_roles_witness:
  "\<exists>g' :: gateway. roles (whitelist (authenticator (take_commands (drop 0 (sent g')) 0 sample_embedded))) (PeerId [2]) = Some [ROLE_CLIENT]"
proof -
  obtain c g' where put: "put_config sample_lib sample_json False (Some 5) ''A'' sample_input sample_gateway = (ConfigJson c, g')"
    using sample_put by blast
  have "auth_wf (authenticator sample_embedded)" "ctl_open sample_gateway"
    by (simp_all add: sample_embedded_def guard_start_def auth_wf_new sample_gateway_def)
  from write_updates_live_roles [OF sample_json_ok put this(2,1), of 0 "PeerId [2]"] show ?thesis
    by (auto simp: names_def sample_input_def sample_lib_def sample_gateway_def)
qed

lemma rebuild_whitelist_fold:
  "rebuild_whitelist L J rows v = Some w \<Longrightarrow> \<exists>cfgs. map (from_row J) rows = map Some cfgs \<and>
     w = fold (\<lambda>(p, rs). allow p rs) (concat (map (roles_for_config L) cfgs)) v"
proof (induction rows arbitrary: v)
  case (Cons r rows)
  then obtain c where c: "from_row J r = Some c" by (auto split: option.splits)
  with Cons.prems Cons.IH obtain cfgs where "map (from_row J) rows = map Some cfgs"
    "w = fold (\<lambda>(p, rs). allow p rs) (concat (map (roles_for_config L) cfgs)) (fold (\<lambda>(p, rs). allow p rs) (roles_for_config L c) v)"
    by auto
  with c show ?case by (intro exI [of _ "c # cfgs"]) simp
qed simp

lemmas rebuilt_whitelist = rebuild_whitelist_fold [where v = whitelist_new]

lemma in_roles_for_config:
  "p \<in> fst ` set (roles_for_config L c) \<longleftrightarrow> parse_peer L (uuid c) = Inr p \<or> names L (gw_allow c) p"
  using roles_of_config [of L c p] map_of_eq_None_iff [of "rev (roles_for_config L c)" p] by (auto split: if_splits)

text \<open>Where a role comes from: that of a Guard from the peer's own configuration, any other from one that is its own or names it.\<close>

definition gives :: "config_lib \<Rightarrow> config_node_guard \<Rightarrow> peer_id \<Rightarrow> role list \<Rightarrow> bool" where
  "gives L c p rs \<longleftrightarrow> (ROLE_GUARD \<in> set rs \<longrightarrow> parse_peer L (uuid c) = Inr p) \<and>
     (parse_peer L (uuid c) = Inr p \<or> names L (gw_allow c) p)"

lemma roles_for_config_gives: "(p, rs) \<in> set (roles_for_config L c) \<Longrightarrow> gives L c p rs"
proof -
  assume c: "(p, rs) \<in> set (roles_for_config L c)"
  then have "p \<in> fst ` set (roles_for_config L c)" by force
  moreover have "ROLE_GUARD \<in> set rs \<longrightarrow> parse_peer L (uuid c) = Inr p"
    using c by (auto simp: roles_for_config_def map_filter_def ROLE_GUARD_def ROLE_CLIENT_def split: sum.splits)
  ultimately show ?thesis by (simp add: gives_def in_roles_for_config)
qed

lemma rebuilt_role:
  assumes "map (from_row J) rows = map Some cfgs" "w = fold (\<lambda>(p, rs). allow p rs) (concat (map (roles_for_config L) cfgs)) whitelist_new"
    and "roles w p = Some rs"
  shows "\<exists>c \<in> set cfgs. gives L c p rs"
proof -
  from assms(2,3) have "map_of (rev (concat (map (roles_for_config L) cfgs))) p = Some rs"
    by (simp add: wl.get_fold_insert_empty)
  then obtain c where "c \<in> set cfgs" "(p, rs) \<in> set (roles_for_config L c)"
    by (auto dest!: map_of_SomeD)
  then show ?thesis using roles_for_config_gives by blast
qed

text \<open>\<open>rebuild_whitelist\<close>: after a restart a peer is listed exactly if some stored configuration is its own or names it, and
  its roles are those of the last row, in the order of first insertion, that mentions it.\<close>

theorem restart_rebuilds_roles:
  assumes "rebuild_whitelist L J rows whitelist_new = Some w"
  shows "\<exists>cfgs. map (from_row J) rows = map Some cfgs \<and> whitelist_wf w \<and>
    (\<forall>p. roles w p = map_of (rev (concat (map (roles_for_config L) cfgs))) p) \<and>
    (\<forall>p. roles w p \<noteq> None \<longleftrightarrow> (\<exists>c \<in> set cfgs. parse_peer L (uuid c) = Inr p \<or> names L (gw_allow c) p))"
proof -
  from rebuilt_whitelist [OF assms] obtain cfgs where cfgs: "map (from_row J) rows = map Some cfgs"
    "w = fold (\<lambda>(p, rs). allow p rs) (concat (map (roles_for_config L) cfgs)) whitelist_new" by blast
  have roles: "roles w p = map_of (rev (concat (map (roles_for_config L) cfgs))) p" for p
    by (simp add: cfgs(2) wl.get_fold_insert_empty)
  then have "roles w p \<noteq> None \<longleftrightarrow> (\<exists>c \<in> set cfgs. p \<in> fst ` set (roles_for_config L c))" for p
    by (auto simp: map_of_eq_None_iff image_UN)
  with roles show ?thesis
    unfolding in_roles_for_config using cfgs wl.wf_fold_insert [OF wl.wf_empty] by blast
qed

definition config_A :: config_node_guard where
  "config_A = \<lparr>uuid = ''A'', gw_rate_limit = raw_rate_limit_default, gw_allow = [], gw_check_sum = [], gw_updated_at = ''1''\<rparr>"

definition config_B :: config_node_guard where
  "config_B = \<lparr>uuid = ''B'', gw_rate_limit = raw_rate_limit_default, gw_allow = [\<lparr>allow_peer = ''A'', allow_roles = []\<rparr>],
     gw_check_sum = [], gw_updated_at = ''1''\<rparr>"

abbreviation row_of :: "config_node_guard \<Rightarrow> config_row" where
  "row_of c \<equiv> into_row sample_json c ''1''"

lemma sample_rebuild:
  "rebuild_whitelist sample_lib sample_json (upsert (row_of config_A) (upsert (row_of config_B) (upsert (row_of config_A) []))) whitelist_new
     = Some (fold (\<lambda>(p, rs). allow p rs) (roles_for_config sample_lib config_A @ roles_for_config sample_lib config_B) whitelist_new)"
proof -
  have "config_A\<lparr>gw_updated_at := ''1''\<rparr> = config_A" "config_B\<lparr>gw_updated_at := ''1''\<rparr> = config_B"
    by (simp_all add: config_A_def config_B_def)
  moreover have "uuid config_A = ''A''" "uuid config_B = ''B''" by (simp_all add: config_A_def config_B_def)
  ultimately show ?thesis by (simp add: from_into_row [OF sample_json_ok])
qed

theorem restart_rebuilds_roles_witness:
  "\<exists>w. rebuild_whitelist sample_lib sample_json (upsert (row_of config_A) (upsert (row_of config_B) (upsert (row_of config_A) []))) whitelist_new
     = Some w \<and> whitelist_wf w"
  using restart_rebuilds_roles [OF sample_rebuild] sample_rebuild by blast

text \<open>A restart can change roles: \<open>A\<close>, \<open>B\<close> (which names \<open>A\<close>) and then \<open>A\<close> again are written. The live whitelist gives \<open>A\<close> both roles;
  after a restart it has lost the role of a Guard.\<close>

lemma restart_downgrades_a_guard:
  "roles (fold (\<lambda>(p, rs). allow p rs) (roles_for_config sample_lib config_A @ roles_for_config sample_lib config_B @
     roles_for_config sample_lib config_A) whitelist_new) (PeerId [1]) = Some [ROLE_GUARD, ROLE_CLIENT]"
  "roles (fold (\<lambda>(p, rs). allow p rs) (roles_for_config sample_lib config_A @ roles_for_config sample_lib config_B)
     whitelist_new) (PeerId [1]) = Some [ROLE_CLIENT]"
  by (simp_all only: wl.get_fold_insert_empty rev_append map_of_append)
    (simp_all add: roles_of_config map_add_def names_def config_A_def config_B_def sample_lib_def)

text \<open>The relay to the dashboard: whatever a caller sends to any of the three routers, the Gateway asks the dashboard at most
  one thing, on one of its four fixed public paths without credentials, or the change of state of a
  well-formed peer to one of the four known states with its own token. Nothing else of the caller's
  request chooses a path, and no credential of the caller is passed on.\<close>

theorem dashboard_requests_are_fixed:
  "dashboard_contact L J g (snd (admin_router L J D db_fails token tick req g)) \<and>
   dashboard_contact L J g (snd (guard_router L J D db_fails tick req g)) \<and>
   dashboard_contact L J g (snd (client_router L J D tick req g))"
proof (intro conjI)
  have health: "dashboard_contact L J g (snd (healthz D g))"
    unfolding dashboard_contact_def healthz_def Let_def snd_conv
    by (intro exI [of _ "[_]"] conjI) (auto simp: upstream_allowed_def PUBLIC_PATHS_def)
  show "dashboard_contact L J g (snd (admin_router L J D db_fails token tick req g))"
    using health
    by (auto simp: admin_router_def json_body_def with_body_def put_config_log no_contact split: option.split endpoint.split)
  show "dashboard_contact L J g (snd (guard_router L J D db_fails tick req g))"
    by (auto simp: guard_router_def enforce_def limited_state_contact limited_other_contact no_contact Let_def
        split: option.split endpoint.split prod.split)
  show "dashboard_contact L J g (snd (client_router L J D tick req g))"
    by (auto simp: client_router_def with_body_def limited_state_contact limited_other_contact no_contact device_code_def device_status_def
        public_key_def PUBLIC_PATHS_def intro!: public_contact split: option.split endpoint.split)
qed

end
