(* ===== verification/Gateway_Store.thy ===== *)
theory Gateway_Store imports Gateway_Properties begin

text \<open>
  The three ports of the Gateway as one service: any sequence of requests, to any port and by anybody, is a run of a
  plain store of configurations. The table of rows, their JSON columns, the limiters, the dashboard and the
  routing are what the store does not know.
\<close>

section \<open>Requests to the three ports\<close>

datatype port = AdminPort | GuardPort | ClientPort

record call =
  call_port :: port
  call_request :: http_request
  call_tick :: "u64 option"
  call_db_fails :: bool
  call_dashboard :: dashboard

definition serve_call :: "config_lib \<Rightarrow> json_lib \<Rightarrow> string \<Rightarrow> call \<Rightarrow> gateway \<Rightarrow> reply \<times> gateway" where
  "serve_call L J token c g =
     (case call_port c of
        AdminPort \<Rightarrow> admin_router L J (call_dashboard c) (call_db_fails c) token (call_tick c) (call_request c) g
      | GuardPort \<Rightarrow> guard_router L J (call_dashboard c) (call_db_fails c) (call_tick c) (call_request c) g
      | ClientPort \<Rightarrow> client_router L J (call_dashboard c) (call_tick c) (call_request c) g)"

fun serve_calls :: "config_lib \<Rightarrow> json_lib \<Rightarrow> string \<Rightarrow> call list \<Rightarrow> gateway \<Rightarrow> (call \<times> reply) list \<times> gateway" where
  "serve_calls L J token [] g = ([], g)"
| "serve_calls L J token (c # cs) g =
     (let (r, g1) = serve_call L J token c g; (log, g2) = serve_calls L J token cs g1 in ((c, r) # log, g2))"

section \<open>The store\<close>

type_synonym store = "string \<Rightarrow> config_node_guard option"

definition reads :: "call \<Rightarrow> string \<Rightarrow> bool" where
  "reads c u \<longleftrightarrow> call_port c = GuardPort \<and> guard_route (req_method (call_request c)) (req_path (call_request c)) = Some (GetConfig u)"

definition writes :: "json_lib \<Rightarrow> string \<Rightarrow> call \<Rightarrow> string \<Rightarrow> config_input \<Rightarrow> bool" where
  "writes J token c u i \<longleftrightarrow> call_port c = AdminPort \<and>
     admin_route (req_method (call_request c)) (req_path (call_request c)) = Some (PutConfig u) \<and>
     req_authorization (call_request c) = Some (''Bearer '' @ token) \<and> req_json (call_request c) \<and> input_of_json J (req_body (call_request c)) = Some i"

inductive store_step :: "config_lib \<Rightarrow> json_lib \<Rightarrow> string \<Rightarrow> store \<Rightarrow> call \<times> reply \<Rightarrow> store \<Rightarrow> bool" for L J token where
  stored: "writes J token c u i \<Longrightarrow> is_ok (parse_peer L u) \<Longrightarrow> validate_input L i = Inr () \<Longrightarrow>
    cfg = \<lparr>uuid = u, gw_rate_limit = in_rate_limit i, gw_allow = in_allow i, gw_check_sum = in_check_sum i,
      gw_updated_at = unix_now_string (call_tick c)\<rparr> \<Longrightarrow>
    store_step L J token s (c, ConfigJson cfg) (s(u \<mapsto> cfg))"
| found: "reads c u \<Longrightarrow> s u = Some cfg \<Longrightarrow> store_step L J token s (c, ConfigJson cfg) s"
| missing: "reads c u \<Longrightarrow> s u = None \<Longrightarrow> store_step L J token s (c, Failed ConfigNotFound) s"
| other: "\<forall>cfg. r \<noteq> ConfigJson cfg \<Longrightarrow> r \<noteq> Failed ConfigNotFound \<Longrightarrow> r \<noteq> Panic \<Longrightarrow> store_step L J token s (c, r) s"

section \<open>The Gateway seen through the store\<close>

definition store_of :: "json_lib \<Rightarrow> gateway \<Rightarrow> store" where
  "store_of J g u = Option.bind (List.find (\<lambda>r. row_uuid r = u) (db_rows g)) (from_row J)"

definition rows_ok :: "json_lib \<Rightarrow> gateway \<Rightarrow> bool" where
  "rows_ok J g \<longleftrightarrow> json_ok J \<and> (\<forall>r \<in> set (db_rows g). from_row J r \<noteq> None)"

lemma db_rows_frame: "stored_part g' = stored_part g \<Longrightarrow> db_rows g' = db_rows g"
  by (simp add: stored_part_def)

lemma store_frame: "stored_part g' = stored_part g \<Longrightarrow> store_of J g' = store_of J g \<and> rows_ok J g' = rows_ok J g"
  using db_rows_frame [of g' g] by (simp add: store_of_def rows_ok_def fun_eq_iff)

lemma set_upsert: "set (upsert r rows) \<subseteq> insert r (set rows)"
  by (induction rows) auto

lemma check_all_Inl: "check_all f xs = Inl e \<Longrightarrow> \<exists>x \<in> set xs. f x = Inl e"
proof (induction xs)
  case (Cons x xs)
  then show ?case by (cases "f x") auto
qed simp

lemma validate_input_error: "validate_input L i = Inl e \<Longrightarrow> e \<noteq> ConfigNotFound"
  by (auto simp: validate_input_def result_iffs dest!: check_all_Inl split: if_splits)

lemma put_config_replies:
  assumes "json_ok J" "put_config L J db_fails tick u i g = (r, g')"
  obtains (accepted) cfg where "r = ConfigJson cfg"
  | (refused) e where "r = Failed e" "e \<noteq> ConfigNotFound" "stored_part g' = stored_part g"
proof -
  have bad: "e \<noteq> ConfigNotFound" if "and_then (map_err (\<lambda>_. BadRequest ''uuid'' u) (parse_peer L u)) (\<lambda>_. validate_input L i) = Inl e" for e
    using that by (cases "parse_peer L u") (auto dest: validate_input_error)
  show thesis
    using assms bad accepted refused
    by (auto simp: put_config_def from_into_row Let_def split: sum.splits if_splits)
qed

lemma put_config_simulates:
  assumes "rows_ok J g" "writes J token c u i"
    and "put_config L J (call_db_fails c) (call_tick c) u i g = (r, g')"
  shows "rows_ok J g' \<and> store_step L J token (store_of J g) (c, r) (store_of J g')"
proof -
  have J: "json_ok J" using assms(1) by (simp add: rows_ok_def)
  from J assms(3) show ?thesis
  proof (cases rule: put_config_replies)
    case (accepted cfg)
    note put = put_config_ok [OF J assms(3) [unfolded accepted]]
    let ?row = "into_row J cfg (unix_now_string (call_tick c))"
    have row: "from_row J ?row = Some cfg" "row_uuid ?row = u"
      using put by (auto simp: from_into_row [OF J])
    have "store_of J g' = (store_of J g)(u \<mapsto> cfg)"
      using put row by (auto simp: store_of_def find_upsert fun_eq_iff)
    moreover have "rows_ok J g'"
      using put row(1) assms(1) set_upsert [of ?row "db_rows g"] by (auto simp: rows_ok_def)
    ultimately show ?thesis
      using store_step.stored [OF assms(2), of L cfg "store_of J g"] put accepted by simp
  next
    case (refused e)
    then show ?thesis
      using store_frame [OF refused(3), of J] assms(1) store_step.other [of r L J token "store_of J g" c] by simp
  qed
qed

text \<open>Replies that say nothing about the store.\<close>

definition plain :: "reply \<Rightarrow> bool" where
  "plain r \<longleftrightarrow> (\<forall>cfg. r \<noteq> ConfigJson cfg) \<and> r \<noteq> Failed ConfigNotFound \<and> r \<noteq> Panic"

lemma plain_simps [simp]:
  "plain Rejected" "plain (HealthJson h)" "plain (Relayed_response x)" "\<not> plain Panic" "\<not> plain (ConfigJson cfg)"
  "plain (Failed e) \<longleftrightarrow> e \<noteq> ConfigNotFound"
  by (simp_all add: plain_def)

lemma plain_forward: "plain (fst (forward_to_dashboard D m p q b t g))"
  by (simp add: forward_to_dashboard_def Let_def split: sum.split)

lemma plain_limited_state: "plain (fst (limited_state_route L J D tick p b g))"
  by (auto simp: limited_state_route_def enforce_def json_body_def with_body_def post_node_state_def plain_forward Let_def
      split: prod.split option.split sum.split)

lemma plain_limited_stateD: "limited_state_route L J D tick p b g = (r, g') \<Longrightarrow> plain r"
  using plain_limited_state [of L J D tick p b g] by simp

lemma plain_limited_other: "plain (fst (limited_other tick g))"
  by (simp add: limited_other_def enforce_def Let_def split: prod.split)

lemma plain_limited_otherD: "limited_other tick g = (r, g') \<Longrightarrow> plain r"
  using plain_limited_other [of tick g] by simp

lemma plain_client: "plain (fst (client_router L J D tick req g))"
  by (auto simp: client_router_def with_body_def device_code_def device_status_def public_key_def plain_forward plain_limited_state plain_limited_other
      split: option.split endpoint.split)

lemma plain_keeps:
  assumes "rows_ok J g" "plain r" "stored_part g' = stored_part g"
  shows "rows_ok J g' \<and> store_step L J token (store_of J g) (c, r) (store_of J g')"
  using assms store_frame [OF assms(3), of J] store_step.other [of r L J token "store_of J g" c] by (simp add: plain_def)

lemma admin_simulates:
  assumes "rows_ok J g" "call_port c = AdminPort" "serve_call L J token c g = (r, g')"
  shows "rows_ok J g' \<and> store_step L J token (store_of J g) (c, r) (store_of J g')"
proof (cases "\<exists>u i. writes J token c u i \<and> length (req_body (call_request c)) \<le> MAX_BODY_BYTES")
  case True
  then obtain u i where w: "writes J token c u i" "length (req_body (call_request c)) \<le> MAX_BODY_BYTES" by blast
  then have "put_config L J (call_db_fails c) (call_tick c) u i g = (r, g')"
    using assms(3) by (simp add: writes_def serve_call_def admin_router_def require_bearer_iff json_body_def with_body_def)
  with put_config_simulates [OF assms(1) w(1)] show ?thesis by blast
next
  case False
  then have "plain r \<and> stored_part g' = stored_part g"
    using assms(2,3)
    by (auto simp: writes_def serve_call_def admin_router_def require_bearer_iff json_body_def with_body_def healthz_def stored_part_def Let_def
        not_le split: option.splits endpoint.splits if_splits)
  with plain_keeps [OF assms(1)] show ?thesis by blast
qed

lemma guard_port_simulates:
  assumes "rows_ok J g" "call_port c = GuardPort" "serve_call L J token c g = (r, g')"
  shows "rows_ok J g' \<and> store_step L J token (store_of J g) (c, r) (store_of J g')"
proof -
  have frame: "stored_part g' = stored_part g"
    using assms(2,3) tunnel_routers_frame(1) [of L J "call_dashboard c" "call_db_fails c" "call_tick c" "call_request c" g]
    by (simp add: serve_call_def)
  show ?thesis
  proof (cases "plain r")
    case True
    with plain_keeps [OF assms(1)] frame show ?thesis by blast
  next
    case False
    then obtain u where u: "reads c u" and ok: "is_ok (parse_peer L u)"
      and r: "r = (case List.find (\<lambda>r. row_uuid r = u) (db_rows g) of None \<Rightarrow> Failed ConfigNotFound
         | Some row \<Rightarrow> (case from_row J row of None \<Rightarrow> Panic | Some cfg \<Rightarrow> ConfigJson cfg))"
      using assms(2,3)
      by (auto dest: plain_limited_stateD plain_limited_otherD simp: reads_def serve_call_def guard_router_def enforce_def get_config_def Let_def is_ok_iff
          split: option.splits endpoint.splits prod.splits if_splits sum.splits)
    have "store_step L J token (store_of J g) (c, r) (store_of J g)"
    proof (cases "List.find (\<lambda>r. row_uuid r = u) (db_rows g)")
      case None
      with r u show ?thesis by (auto simp: store_of_def intro: store_step.missing)
    next
      case (Some row)
      with assms(1) obtain cfg where "from_row J row = Some cfg"
        by (fastforce simp: rows_ok_def find_Some_iff)
      with Some r u show ?thesis by (auto simp: store_of_def intro: store_step.found)
    qed
    with store_frame [OF frame, of J] assms(1) show ?thesis by simp
  qed
qed

lemma serve_call_simulates:
  assumes "rows_ok J g" "serve_call L J token c g = (r, g')"
  shows "rows_ok J g' \<and> store_step L J token (store_of J g) (c, r) (store_of J g')"
proof (cases "call_port c")
  case ClientPort
  then have "r = fst (client_router L J (call_dashboard c) (call_tick c) (call_request c) g)"
    "g' = snd (client_router L J (call_dashboard c) (call_tick c) (call_request c) g)"
    using assms(2) by (simp_all add: serve_call_def)
  then show ?thesis using plain_keeps [OF assms(1)] plain_client tunnel_routers_frame(2) by blast
qed (use assms admin_simulates guard_port_simulates in blast)+

interpretation gateway: implementation "\<lambda>g l g'. serve_call L J token (fst l) g = (snd l, g')" "store_step L J token"
    "store_of J" "rows_ok J" "\<lambda>_. True" for L :: config_lib and J :: json_lib and token :: string
proof unfold_locales
  fix g g' :: gateway and l :: "call \<times> reply"
  assume *: "rows_ok J g" "serve_call L J token (fst l) g = (snd l, g')"
  from serve_call_simulates [OF this]
  show "rows_ok J g'" "store_step L J token (store_of J g) l (store_of J g')" by simp_all
qed

lemma serve_calls_steps:
  "serve_calls L J token cs g = (log, g') \<Longrightarrow>
     map fst log = cs \<and> steps (\<lambda>g l g'. serve_call L J token (fst l) g = (snd l, g')) g log g'"
  by (induction cs arbitrary: g log) (auto split: prod.splits)

lemma rebuilt_rows_ok:
  assumes "json_ok J" "rebuild_whitelist L J (db_rows g) w = Some w'"
  shows "rows_ok J g"
proof -
  from rebuild_whitelist_fold [OF assms(2)] obtain cfgs where "map (from_row J) (db_rows g) = map Some cfgs" by blast
  then have "from_row J ` set (db_rows g) = Some ` set cfgs" by (metis list.set_map)
  then have "from_row J r \<in> Some ` set cfgs" if "r \<in> set (db_rows g)" for r using that by blast
  then have "from_row J r \<noteq> None" if "r \<in> set (db_rows g)" for r using that by fastforce
  with assms(1) show ?thesis by (simp add: rows_ok_def)
qed

section \<open>Properties\<close>

text \<open>C35 (refinement of a store): from any table the Gateway can start with, any sequence of requests to its three ports
  is a run of a plain store. Only an accepted write with the admin token changes it, and sets exactly the
  configuration that was sent; a read on the port of the Guards is answered with the configuration last written under its
  identifier, or 404 if there is none, unless the request is refused for another reason; and no request ever makes a
  handler panic.\<close>

theorem gateway_refines_store:
  assumes "json_ok J" "rebuild_whitelist L J (db_rows g) whitelist_new = Some w"
    and "serve_calls L J token cs g = (log, g')"
  shows "map fst log = cs \<and> steps (store_step L J token) (store_of J g) log (store_of J g')"
  using gateway.steps_simulate [OF rebuilt_rows_ok [OF assms(1,2)]] serve_calls_steps [OF assms(3)]
  by (simp add: list.pred_True)

definition sample_call :: "port \<Rightarrow> http_method \<Rightarrow> string option \<Rightarrow> call" where
  "sample_call p meth auth = \<lparr>call_port = p, call_request = \<lparr>req_method = meth, req_path = [''api'', ''v1'', ''configs'', ''A''],
     req_authorization = auth, req_query = None, req_json = True, req_body = []\<rparr>, call_tick = Some 5, call_db_fails = False,
     call_dashboard = sample_dashboard\<rparr>"

theorem gateway_refines_store_witness:
  "\<exists>log. map fst log = [sample_call GuardPort GET None, sample_call AdminPort PUT (Some ''Bearer s'')] \<and>
     (\<exists>s. steps (store_step sample_lib sample_json ''s'') (\<lambda>_. None) log s)"
proof -
  obtain log g' where run: "serve_calls sample_lib sample_json ''s''
      [sample_call GuardPort GET None, sample_call AdminPort PUT (Some ''Bearer s'')] sample_gateway = (log, g')"
    by fastforce
  have "rebuild_whitelist sample_lib sample_json (db_rows sample_gateway) whitelist_new = Some whitelist_new"
    by (simp add: sample_gateway_def)
  moreover have "store_of sample_json sample_gateway = (\<lambda>_. None)"
    by (simp add: store_of_def sample_gateway_def fun_eq_iff)
  ultimately show ?thesis using gateway_refines_store [OF sample_json_ok _ run] by metis
qed

end
