(* ===== verification/Gateway_Start.thy ===== *)
theory Gateway_Start imports Gateway_Properties Startup begin

text \<open>
  The start of the Gateway: \<^verbatim>\<open>nux_gateway/src/config.rs\<close> and \<^verbatim>\<open>nux_gateway/src/main.rs\<close>, from the environment
  to the state of the routers and the Guard that runs behind them. The parser of socket addresses
  and the opening of the database are arguments; \<open>Gateway_Database\<close> has the pool and the servers.
\<close>

section \<open>The environment\<close>

definition MIN_TOKEN_LEN :: nat where "MIN_TOKEN_LEN = 16"

record gateway_config =
  admin_addr :: socket_addr
  gc_listen :: multiaddr
  gc_identity_file :: "string option"
  guard_port :: u16
  client_port :: u16
  database_url :: string
  gc_dashboard_base_url :: string
  admin_token :: string
  gc_dashboard_token :: "string option"
  upstream_timeout :: duration

type_synonym env = "string \<Rightarrow> string option"

definition env_or :: "env \<Rightarrow> string \<Rightarrow> string \<Rightarrow> string" where
  "env_or env key dflt = (case env key of Some v \<Rightarrow> v | None \<Rightarrow> dflt)"

definition required_token :: "env \<Rightarrow> string \<Rightarrow> string + string" where
  "required_token env key =
     and_then (ok_or (key @ '' missing'') (env key)) (\<lambda>v.
       if length v < MIN_TOKEN_LEN then Inl (key @ '' too short'') else Inr v)"

definition trim_end_matches :: "char \<Rightarrow> string \<Rightarrow> string" where
  "trim_end_matches c s = rev (dropWhile (\<lambda>x. x = c) (rev s))"

definition non_blank :: "string option \<Rightarrow> string option" where
  "non_blank v = (case v of Some s \<Rightarrow> if trim s = [] then None else Some s | None \<Rightarrow> None)"

definition parse_port :: "env \<Rightarrow> string \<Rightarrow> string \<Rightarrow> string + u16" where
  "parse_port env key dflt =
     ok_or (key @ '' invalid'') (map_option of_nat (parse_unsigned (2 ^ 16 - 1) (env_or env key dflt)))"

definition from_env_config :: "config_lib \<Rightarrow> (string \<Rightarrow> string + socket_addr) \<Rightarrow> env \<Rightarrow> string + gateway_config" where
  "from_env_config L parse_socket env =
     and_then (parse_socket (env_or env ''NUX_GW_ADMIN_ADDR'' ''0.0.0.0:8088'')) (\<lambda>addr.
     and_then (parse_multiaddr L (env_or env ''NUX_GW_LISTEN'' ''/ip4/0.0.0.0/tcp/4589'')) (\<lambda>listen.
     and_then (parse_port env ''NUX_GW_GUARD_PORT'' ''8089'') (\<lambda>gp.
     and_then (parse_port env ''NUX_GW_CLIENT_PORT'' ''8090'') (\<lambda>cp.
     if gp = cp then Inl ''ports must differ'' else
     and_then (ok_or ''DATABASE_URL missing'' (env ''DATABASE_URL'')) (\<lambda>db.
     and_then (ok_or ''NUX_GW_API_URL missing'' (env ''NUX_GW_API_URL'')) (\<lambda>url.
     and_then (required_token env ''NUX_GW_ADMIN_TOKEN'') (\<lambda>token.
       Inr \<lparr>admin_addr = addr, gc_listen = listen, gc_identity_file = non_blank (env ''NUX_GW_IDENTITY_FILE''),
            guard_port = gp, client_port = cp, database_url = db,
            gc_dashboard_base_url = trim_end_matches (CHR ''/'') url, admin_token = token,
            gc_dashboard_token = non_blank (env ''NUX_GW_DASHBOARD_TOKEN''), upstream_timeout = from_secs 10\<rparr>)))))))"

section \<open>The start\<close>

text \<open>A start that fails prints a message and exits: \<open>None\<close>.\<close>

record 'k gateway_launch =
  gl_config :: gateway_config
  gl_state :: gateway
  gl_node :: "'k nux_node"
  gl_authenticator :: guard_authenticator
  gl_registry :: tunnel_registry

definition gateway_state :: "gateway_config \<Rightarrow> config_row list \<Rightarrow> u64 \<Rightarrow> gateway" where
  "gateway_state c rows now = \<lparr>db_rows = rows, sent = [], ctl_open = True,
     dashboard_base_url = gc_dashboard_base_url c, dashboard_token = gc_dashboard_token c,
     get_config_limiter = window_limiter_new SENSITIVE_ROUTE_MAX_PER_WINDOW SENSITIVE_ROUTE_WINDOW_SECS now,
     node_state_limiter = window_limiter_new SENSITIVE_ROUTE_MAX_PER_WINDOW SENSITIVE_ROUTE_WINDOW_SECS now,
     upstream_log = []\<rparr>"

definition gateway_builder :: "gateway_config \<Rightarrow> 'k node_builder" where
  "gateway_builder c =
     (let b = builder_listen_on (gc_listen c) (set_mode GuardMode builder_new) in
      case gc_identity_file c of
        Some path \<Rightarrow> identity_file path b
      | None \<Rightarrow> identity_env IDENTITY_ENV_VAR b)"

definition gateway_registry :: "gateway_config \<Rightarrow> tunnel_registry" where
  "gateway_registry c =
     expose ''gwapi-client'' (LOCALHOST, client_port c) (Some ROLE_CLIENT)
       (expose ''gwapi-guard'' (LOCALHOST, guard_port c) (Some ROLE_GUARD) registry_new)"

definition gateway_main :: "config_lib \<Rightarrow> json_lib \<Rightarrow> (string \<Rightarrow> string + socket_addr) \<Rightarrow> 'k host \<Rightarrow> swarm_answers \<Rightarrow>
    (string \<Rightarrow> (string + config_row list)) \<Rightarrow> u64 option \<Rightarrow> 'k gateway_launch option" where
  "gateway_main L J parse_socket H sw open_db tick =
     (case from_env_config L parse_socket (host_env H) of
        Inl _ \<Rightarrow> None
      | Inr c \<Rightarrow> (case open_db (database_url c) of
            Inl _ \<Rightarrow> None
          | Inr rows \<Rightarrow> (case rebuild_whitelist L J rows whitelist_new of
                None \<Rightarrow> None
              | Some w \<Rightarrow> (case host_build H sw (gateway_builder c) of
                    Inl _ \<Rightarrow> None
                  | Inr node \<Rightarrow> Some \<lparr>gl_config = c, gl_state = gateway_state c rows (unix_now tick), gl_node = node,
                      gl_authenticator = authenticator_new w, gl_registry = gateway_registry c\<rparr>))))"

section \<open>Facts\<close>

lemma trim_end_no_suffix: "trim_end_matches c s \<noteq> [] \<Longrightarrow> last (trim_end_matches c s) \<noteq> c"
  using hd_dropWhile [of "\<lambda>x. x = c" "rev s"] by (auto simp: trim_end_matches_def last_rev)

lemma from_env_Inr:
  "from_env_config L parse_socket env = Inr c \<Longrightarrow>
     env ''NUX_GW_ADMIN_TOKEN'' = Some (admin_token c) \<and> MIN_TOKEN_LEN \<le> length (admin_token c) \<and>
     guard_port c \<noteq> client_port c \<and> gc_dashboard_token c = non_blank (env ''NUX_GW_DASHBOARD_TOKEN'') \<and>
     (\<exists>url. env ''NUX_GW_API_URL'' = Some url \<and> gc_dashboard_base_url c = trim_end_matches (CHR ''/'') url) \<and>
     env ''DATABASE_URL'' = Some (database_url c)"
  by (auto simp: from_env_config_def required_token_def and_then_Inr_iff split: if_splits)

lemma gateway_registry_get:
  "registry_get (gateway_registry c) name =
     (if name = ''gwapi-guard'' then Some \<lparr>target = (LOCALHOST, guard_port c), required_role = Some ROLE_GUARD\<rparr>
      else if name = ''gwapi-client'' then Some \<lparr>target = (LOCALHOST, client_port c), required_role = Some ROLE_CLIENT\<rparr>
      else None)"
  by (simp add: gateway_registry_def expose_def registry_get_def registry_new_def hm.get_insert hm.wf_insert
      hm.wf_empty hm.get_empty)

lemma port_needs_role:
  assumes "serve_io B N peer stream rs (gateway_registry c) = (Served n m, out)"
  shows "\<exists>header rest. header_in_time B stream = Some (Inr (header, rest)) \<and>
    (service header = ''gwapi-guard'' \<and> ROLE_GUARD \<in> set rs \<or> service header = ''gwapi-client'' \<and> ROLE_CLIENT \<in> set rs)"
proof -
  from assms obtain header rest srv where h: "header_in_time B stream = Some (Inr (header, rest))"
    "tunnel_allowed (gateway_registry c) peer rs header srv"
    using serve_io_refused [of B stream "gateway_registry c" peer rs N] by fastforce
  then have "service header = ''gwapi-guard'' \<and> ROLE_GUARD \<in> set rs \<or> service header = ''gwapi-client'' \<and> ROLE_CLIENT \<in> set rs"
    using gateway_registry_get [of c "service header"]
    by (auto simp: tunnel_allowed_def registry_get_def split: if_splits)
  with h(1) show ?thesis by blast
qed

section \<open>Properties\<close>

text \<open>The configuration of the Gateway: the Gateway fails closed. It starts only with an admin token of at least 16 bytes taken from the
  environment and with two different tunnel ports; a blank dashboard token counts as none; and the base of every
  request to the dashboard does not end in a slash.\<close>

theorem gateway_fails_closed:
  assumes "gateway_main L J parse_socket H sw open_db tick = Some G"
  shows "16 \<le> length (admin_token (gl_config G)) \<and> host_env H ''NUX_GW_ADMIN_TOKEN'' = Some (admin_token (gl_config G)) \<and>
    guard_port (gl_config G) \<noteq> client_port (gl_config G) \<and>
    (\<forall>tok. dashboard_token (gl_state G) = Some tok \<longrightarrow> trim tok \<noteq> [] \<and> host_env H ''NUX_GW_DASHBOARD_TOKEN'' = Some tok) \<and>
    (dashboard_base_url (gl_state G) = [] \<or> last (dashboard_base_url (gl_state G)) \<noteq> CHR ''/'')"
proof -
  from assms obtain rows where env: "from_env_config L parse_socket (host_env H) = Inr (gl_config G)"
    and st: "gl_state G = gateway_state (gl_config G) rows (unix_now tick)"
    by (auto simp: gateway_main_def split: sum.splits option.splits)
  from from_env_Inr [OF env] st show ?thesis
    by (auto simp: MIN_TOKEN_LEN_def gateway_state_def non_blank_def trim_end_no_suffix split: option.splits if_splits)
qed

definition sample_env :: env where
  "sample_env = [''NUX_GW_ADMIN_TOKEN'' \<mapsto> ''0123456789abcdef'', ''DATABASE_URL'' \<mapsto> ''db.sqlite'',
     ''NUX_GW_API_URL'' \<mapsto> ''https://d/'', ''NUX_GW_IDENTITY_FILE'' \<mapsto> ''/k'',
     ''NUX_GW_GUARD_PORT'' \<mapsto> decimal 8089, ''NUX_GW_CLIENT_PORT'' \<mapsto> decimal 8090]"

definition sample_keyed_fs :: fs where
  "sample_keyed_fs = \<lparr>inodes = [''/k'' \<mapsto> \<lparr>file_kind = RegularFile (replicate 32 7), perm = 0x180\<rparr>], umask = 0x12, refused = (\<lambda>_. None)\<rparr>"

definition sample_gateway_host :: "bytes host" where
  "sample_gateway_host = sample_host\<lparr>host_env := sample_env, host_fs := sample_keyed_fs\<rparr>"

lemma sample_env_config:
  "\<exists>c. from_env_config sample_lib (\<lambda>_. Inr (V4 0, 8088)) sample_env = Inr c \<and> gc_identity_file c = Some ''/k''"
proof -
  have ports: "parse_port sample_env ''NUX_GW_GUARD_PORT'' dflt = Inr 8089" "parse_port sample_env ''NUX_GW_CLIENT_PORT'' dflt = Inr 8090" for dflt
    by (simp_all add: parse_port_def env_or_def sample_env_def parse_decimal)
  have "trim ''/k'' = ''/k''" by (rule trim_visible) (simp add: visible_def)
  then have "non_blank (sample_env ''NUX_GW_IDENTITY_FILE'') = Some ''/k''" by (simp add: non_blank_def sample_env_def)
  then show ?thesis
    by (simp add: from_env_config_def ports) (simp add: sample_env_def sample_lib_def required_token_def MIN_TOKEN_LEN_def)
qed

lemma sample_gateway_starts:
  "\<exists>G. gateway_main sample_lib sample_json (\<lambda>_. Inr (V4 0, 8088)) sample_gateway_host sample_swarm (\<lambda>_. Inr []) None = Some G"
proof -
  obtain c where c: "from_env_config sample_lib (\<lambda>_. Inr (V4 0, 8088)) sample_env = Inr c" "gc_identity_file c = Some ''/k''"
    using sample_env_config by blast
  have "from_file sample_codec ''/k'' sample_keyed_fs = Inr (replicate 32 7)"
    by (subst from_file_at [where i = "\<lparr>file_kind = RegularFile (replicate 32 7), perm = 0x180\<rparr>"])
      (simp_all add: sample_keyed_fs_def fs_read_def lookup_direct sample_codec_def keypair_from_secret_bytes_def ED25519_SECRET_LEN_def)
  then have "is_ok (host_build sample_gateway_host sample_swarm (gateway_builder c))"
    by (simp add: host_build_def gateway_builder_def c(2) builder_setters builder_new_def build_def resolve_identity_def
        sample_gateway_host_def sample_host_def sample_swarm_def)
  with c(1) show ?thesis
    by (auto simp: gateway_main_def sample_gateway_host_def is_ok_iff)
qed

theorem gateway_fails_closed_witness:
  "\<exists>G. gateway_main sample_lib sample_json (\<lambda>_. Inr (V4 0, 8088)) sample_gateway_host sample_swarm (\<lambda>_. Inr []) None = Some G \<and>
     16 \<le> length (admin_token (gl_config G))"
  using sample_gateway_starts gateway_fails_closed by blast

text \<open>The ports behind the tunnels: while the roles are those of the start, whoever is served on a tunnel of the
  Gateway asked for one of its two services by name; for the port of the Guards, a stored configuration is that
  peer's own; for the port of the Clients, a stored configuration is its own or names it.\<close>

theorem gateway_ports_need_their_role:
  assumes "gateway_main L J parse_socket H sw open_db tick = Some G"
    and "roles (whitelist (gl_authenticator G)) peer = Some rs"
    and "serve_io B N peer stream rs (gl_registry G) = (Served n m, out)"
  shows "\<exists>header rest rows cfgs c. header_in_time B stream = Some (Inr (header, rest)) \<and>
    open_db (database_url (gl_config G)) = Inr rows \<and> map (from_row J) rows = map Some cfgs \<and> c \<in> set cfgs \<and>
    (service header = ''gwapi-guard'' \<and> parse_peer L (uuid c) = Inr peer \<or>
     service header = ''gwapi-client'' \<and> (parse_peer L (uuid c) = Inr peer \<or> names L (gw_allow c) peer))"
proof -
  from assms(1) obtain rows w where rows: "open_db (database_url (gl_config G)) = Inr rows"
    and w: "rebuild_whitelist L J rows whitelist_new = Some w" "gl_authenticator G = authenticator_new w"
    and reg: "gl_registry G = gateway_registry (gl_config G)"
    by (auto simp: gateway_main_def split: sum.splits option.splits)
  from rebuilt_whitelist [OF w(1)] obtain cfgs where cfgs: "map (from_row J) rows = map Some cfgs"
    "w = fold (\<lambda>(p, rs). allow p rs) (concat (map (roles_for_config L) cfgs)) whitelist_new" by blast
  have "roles w peer = Some rs" using assms(2) by (simp add: w(2) authenticator_new_def)
  from rebuilt_role [OF cfgs this] obtain c where c: "c \<in> set cfgs" "ROLE_GUARD \<in> set rs \<longrightarrow> parse_peer L (uuid c) = Inr peer"
    "parse_peer L (uuid c) = Inr peer \<or> names L (gw_allow c) peer" by (auto simp: gives_def)
  from assms(3) reg port_needs_role obtain header rest where h: "header_in_time B stream = Some (Inr (header, rest))"
    "service header = ''gwapi-guard'' \<and> ROLE_GUARD \<in> set rs \<or> service header = ''gwapi-client'' \<and> ROLE_CLIENT \<in> set rs" by metis
  with rows cfgs(1) c h show ?thesis by blast
qed

text \<open>A Gateway started with the one configuration \<open>A\<close>, and a stream of its Guard.\<close>

lemma sample_gateway_A:
  obtains G where "gateway_main sample_lib sample_json (\<lambda>_. Inr (V4 0, 8088)) sample_gateway_host sample_swarm
      (\<lambda>_. Inr [row_of config_A]) None = Some G"
    "gl_authenticator G = authenticator_new (allow (PeerId [1]) [ROLE_GUARD, ROLE_CLIENT] whitelist_new)"
    "gl_registry G = gateway_registry (gl_config G)"
proof -
  have "roles_for_config sample_lib config_A = [(PeerId [1], [ROLE_GUARD, ROLE_CLIENT])]"
    by (simp add: roles_for_config_def config_A_def sample_lib_def map_filter_simps)
  moreover have "config_A\<lparr>gw_updated_at := ''1''\<rparr> = config_A" by (simp add: config_A_def)
  ultimately have "rebuild_whitelist sample_lib sample_json [row_of config_A] whitelist_new =
      Some (allow (PeerId [1]) [ROLE_GUARD, ROLE_CLIENT] whitelist_new)"
    by (simp add: from_into_row [OF sample_json_ok])
  then show thesis
    using sample_gateway_starts that by (auto simp: gateway_main_def split: sum.splits option.splits)
qed

lemma sample_stream_served:
  "\<exists>f n m out. serve_io sample_header_bincode sample_net (PeerId [1]) (instantly f) [ROLE_GUARD, ROLE_CLIENT] (gateway_registry c)
     = (Served n m, out)"
proof -
  obtain f where f: "header_frame sample_header_bincode \<lparr>service = ''gwapi-guard'', binary_sha256 = [5]\<rparr> = Some f"
    by (auto simp: header_frame_def encode_def sample_header_bincode_def bincode_options_def
        MAX_MESSAGE_SIZE_def MAX_TUNNEL_HEADER_SIZE_def Let_def)
  note h = header_instantly [OF sample_header_bincode_ok f]
  have allowed: "tunnel_allowed (gateway_registry c) (PeerId [1]) [ROLE_GUARD, ROLE_CLIENT] \<lparr>service = ''gwapi-guard'', binary_sha256 = [5]\<rparr>
      \<lparr>target = (LOCALHOST, guard_port c), required_role = Some ROLE_GUARD\<rparr>"
    using gateway_registry_get [of c "''gwapi-guard''"]
    by (simp add: tunnel_allowed_def registry_get_def gateway_registry_def expose_def registry_new_def hm.get_empty)
  then show ?thesis
    using serve_io_allowed [OF h allowed, of sample_net] by (simp add: sample_net_def instantly_def flush_def) blast
qed

theorem gateway_ports_need_their_role_witness:
  "\<exists>f header rest rows cfgs c. header_in_time sample_header_bincode (instantly f) = Some (Inr (header, rest)) \<and>
     map (from_row sample_json) rows = map Some cfgs \<and> c \<in> set cfgs \<and>
     (service header = ''gwapi-guard'' \<and> parse_peer sample_lib (uuid c) = Inr (PeerId [1]) \<or>
      service header = ''gwapi-client'' \<and> (parse_peer sample_lib (uuid c) = Inr (PeerId [1]) \<or> names sample_lib (gw_allow c) (PeerId [1])))"
proof -
  obtain G where G: "gateway_main sample_lib sample_json (\<lambda>_. Inr (V4 0, 8088)) sample_gateway_host sample_swarm
      (\<lambda>_. Inr [row_of config_A]) None = Some G"
    and auth: "gl_authenticator G = authenticator_new (allow (PeerId [1]) [ROLE_GUARD, ROLE_CLIENT] whitelist_new)"
    and reg: "gl_registry G = gateway_registry (gl_config G)"
    by (rule sample_gateway_A)
  have "roles (whitelist (gl_authenticator G)) (PeerId [1]) = Some [ROLE_GUARD, ROLE_CLIENT]"
    by (simp add: auth authenticator_new_def wl.get_insert)
  then show ?thesis
    using gateway_ports_need_their_role [OF G] sample_stream_served [of "gl_config G"] reg by metis
qed

end
