(* ===== verification/Gateway_System.thy ===== *)
theory Gateway_System imports Gateway_Store Gateway_Start Embedded_Guard Node begin

text \<open>
  The state of the running Gateway of \<^verbatim>\<open>nux_gateway/src/main.rs\<close> as a whole, and its start: the routers and their store, the channel of
  commands and the embedded Guard. \<open>taken\<close> counts the commands the Guard has received, in the order they were sent. The steps of
  the system are in \<open>Gateway_Tasks\<close>. The senders of the channel live in the routers, so it stays open as long as the process runs.
\<close>

section \<open>The system\<close>

record 's gateway_system =
  sys_gateway :: gateway
  sys_guard :: "'s guard"
  taken :: nat

definition system_start :: "'s sem_lib \<Rightarrow> 'k gateway_launch \<Rightarrow> 's gateway_system" where
  "system_start S G = \<lparr>sys_gateway = gl_state G,
     sys_guard = run_guard_with_control S (gl_authenticator G) (gl_registry G), taken = 0\<rparr>"

text \<open>The roles that configurations give, in order, and the commands that tell them.\<close>

abbreviation given :: "config_lib \<Rightarrow> config_node_guard list \<Rightarrow> (peer_id \<times> role list) list" where
  "given L cfgs \<equiv> concat (map (roles_for_config L) cfgs)"

abbreviation allows :: "(peer_id \<times> role list) list \<Rightarrow> guard_control list" where
  "allows \<equiv> map (\<lambda>(p, rs). Allow p rs)"

section \<open>Commands and start\<close>

lemma allow_roles:
  assumes "auth_inv (authenticator g)"
  shows "roles (whitelist (authenticator (snd (guard_step K S (Command (Allow p rs) now) g)))) =
    (roles (whitelist (authenticator g)))(p \<mapsto> rs)"
proof -
  have wf: "auth_wf (authenticator g)" using assms by (simp add: auth_inv_def)
  show ?thesis
    using auth_step_roles [OF wf, of "OpAllow p rs" K] by (auto simp: guard_step_auth fun_eq_iff)
qed

lemma gateway_main_Some:
  assumes "gateway_main L J parse_socket H sw open_db tick = Some G"
  obtains rows cfgs where "open_db (database_url (gl_config G)) = Inr rows" "map (from_row J) rows = map Some cfgs"
    "gl_authenticator G = authenticator_new (fold (\<lambda>(p, rs). allow p rs) (given L cfgs) whitelist_new)"
    "gl_registry G = gateway_registry (gl_config G)" "gl_state G = gateway_state (gl_config G) rows (unix_now tick)"
  using assms by (auto simp: gateway_main_def split: sum.splits option.splits dest!: rebuilt_whitelist)

section \<open>A visit\<close>

text \<open>The Guard \<open>A\<close> logs in and opens a stream.\<close>

abbreviation sample_both :: "role list" where
  "sample_both \<equiv> [ROLE_GUARD, ROLE_CLIENT]"

lemma sample_visit:
  "\<exists>g. guard_exec sample_keys sample_sems [AuthRequest (PeerId [1]) HandshakeInit (Some 100) [7], sample_answered, IncomingStream (PeerId [1])]
      (guard_start sample_sems (authenticator_new (allow (PeerId [1]) sample_both whitelist_new)) (gateway_registry c) True) =
    Some ([sample_challenged, (sample_answered, [Respond (PeerId [1]) (AccessGranted sample_both)]),
      (IncomingStream (PeerId [1]), [Spawn (PeerId [1]) sample_both])], g)"
  by (intro exI) code_simp

end
