(* ===== verification/Gateway_Tasks.thy ===== *)
theory Gateway_Tasks imports Gateway_System "HOL-Library.Multiset" begin

text \<open>
  The running Gateway, with its requests in flight and the turns of the embedded Guard. \<open>put_config\<close>, the only handler that
  changes what the Guard knows, is a task: it is checked, its row is written by a blocking thread, then its commands go one by one into the
  channel of 64, then it answers. Tasks interleave with each other, with the other requests and with the Guard. A caller that
  leaves drops its task where it waits; the blocking write goes on by itself.
\<close>

section \<open>The stages of a write\<close>

definition GUARD_CONTROL_CHANNEL_CAPACITY :: nat where "GUARD_CONTROL_CHANNEL_CAPACITY = 64"

definition put_check :: "config_lib \<Rightarrow> string \<Rightarrow> config_input \<Rightarrow> app_error + unit" where
  "put_check L u i = and_then (map_err (\<lambda>_. BadRequest ''uuid'' u) (parse_peer L u)) (\<lambda>_. validate_input L i)"

definition put_row :: "json_lib \<Rightarrow> u64 option \<Rightarrow> string \<Rightarrow> config_input \<Rightarrow> config_row" where
  "put_row J tick u i = into_row J \<lparr>uuid = u, gw_rate_limit = in_rate_limit i, gw_allow = in_allow i,
     gw_check_sum = in_check_sum i, gw_updated_at = []\<rparr> (unix_now_string tick)"

definition put_store :: "config_row \<Rightarrow> gateway \<Rightarrow> gateway" where
  "put_store row g = g\<lparr>db_rows := upsert row (db_rows g)\<rparr>"

text \<open>One after the other without a break they are \<open>put_config\<close>.\<close>

lemma put_config_stages:
  "put_config L J db_fails tick u i g =
     (case put_check L u i of
        Inl e \<Rightarrow> (Failed e, g)
      | Inr _ \<Rightarrow> if db_fails then (Failed Internal, g)
          else (case from_row J (put_row J tick u i) of
              None \<Rightarrow> (Panic, put_store (put_row J tick u i) g)
            | Some saved \<Rightarrow> (ConfigJson saved, fold (\<lambda>(p, rs). send_control (Allow p rs)) (roles_for_config L saved)
                (put_store (put_row J tick u i) g))))"
  by (auto simp: put_config_def put_check_def put_row_def put_store_def Let_def split: sum.split option.split)

text \<open>The writes that the admin port lets through.\<close>

definition accepted_put :: "config_lib \<Rightarrow> json_lib \<Rightarrow> string \<Rightarrow> call \<Rightarrow> (string \<times> config_input) option" where
  "accepted_put L J token c =
     (let req = call_request c in
      case (call_port c, admin_route (req_method req) (req_path req)) of
        (AdminPort, Some (PutConfig u)) \<Rightarrow>
          if require_bearer token req \<and> req_json req \<and> length (req_body req) \<le> MAX_BODY_BYTES
          then (case input_of_json J (req_body req) of
                  Some i \<Rightarrow> if put_check L u i = Inr () then Some (u, i) else None
                | None \<Rightarrow> None)
          else None
      | _ \<Rightarrow> None)"

section \<open>The system\<close>

datatype put_task = Storing call config_row | Sending call config_node_guard "(peer_id \<times> role list) list" | Detached config_row

record 's gateway_tasks = "'s gateway_system" +
  puts :: "put_task list"

datatype task_label = Arrives call | Stored config_row | Lost config_row | Sent guard_control | Drops call | Replies call reply
  | GuardTurn event "effect list"

definition tasks_start :: "'s sem_lib \<Rightarrow> 'k gateway_launch \<Rightarrow> 's gateway_tasks" where
  "tasks_start S G = gateway_system.extend (system_start S G) \<lparr>puts = []\<rparr>"

inductive task_step :: "config_lib \<Rightarrow> json_lib \<Rightarrow> string \<Rightarrow> 'pk key_lib \<Rightarrow> 's sem_lib \<Rightarrow>
    's gateway_tasks \<Rightarrow> task_label \<Rightarrow> 's gateway_tasks \<Rightarrow> bool" for L J token K S where
  arrives: "accepted_put L J token c = Some (u, i) \<Longrightarrow>
    task_step L J token K S s (Arrives c) (s\<lparr>puts := puts s @ [Storing c (put_row J (call_tick c) u i)]\<rparr>)"
| other_request: "accepted_put L J token c = None \<Longrightarrow> serve_call L J token c (sys_gateway s) = (r, g) \<Longrightarrow>
    task_step L J token K S s (Replies c r) (s\<lparr>sys_gateway := g\<rparr>)"
| stores: "k < length (puts s) \<Longrightarrow> puts s ! k = Storing c row \<Longrightarrow> from_row J row = Some saved \<Longrightarrow>
    task_step L J token K S s (Stored row)
      (s\<lparr>sys_gateway := put_store row (sys_gateway s), puts := (puts s)[k := Sending c saved (roles_for_config L saved)]\<rparr>)"
| stores_unreadable: "k < length (puts s) \<Longrightarrow> puts s ! k = Storing c row \<Longrightarrow> from_row J row = None \<Longrightarrow>
    task_step L J token K S s (Replies c Panic) (s\<lparr>sys_gateway := put_store row (sys_gateway s), puts := remove_nth k (puts s)\<rparr>)"
| store_fails: "k < length (puts s) \<Longrightarrow> puts s ! k = Storing c row \<Longrightarrow>
    task_step L J token K S s (Replies c (Failed Internal)) (s\<lparr>puts := remove_nth k (puts s)\<rparr>)"
| sends: "k < length (puts s) \<Longrightarrow> puts s ! k = Sending c saved ((p, rs) # prs) \<Longrightarrow>
    length (sent (sys_gateway s)) < taken s + GUARD_CONTROL_CHANNEL_CAPACITY \<Longrightarrow>
    task_step L J token K S s (Sent (Allow p rs))
      (s\<lparr>sys_gateway := send_control (Allow p rs) (sys_gateway s), puts := (puts s)[k := Sending c saved prs]\<rparr>)"
| answers: "k < length (puts s) \<Longrightarrow> puts s ! k = Sending c saved [] \<Longrightarrow>
    task_step L J token K S s (Replies c (ConfigJson saved)) (s\<lparr>puts := remove_nth k (puts s)\<rparr>)"
| drops_storing: "k < length (puts s) \<Longrightarrow> puts s ! k = Storing c row \<Longrightarrow>
    task_step L J token K S s (Drops c) (s\<lparr>puts := (puts s)[k := Detached row]\<rparr>)"
| drops_sending: "k < length (puts s) \<Longrightarrow> puts s ! k = Sending c saved prs \<Longrightarrow>
    task_step L J token K S s (Drops c) (s\<lparr>puts := remove_nth k (puts s)\<rparr>)"
| detached_stores: "k < length (puts s) \<Longrightarrow> puts s ! k = Detached row \<Longrightarrow>
    task_step L J token K S s (Stored row) (s\<lparr>sys_gateway := put_store row (sys_gateway s), puts := remove_nth k (puts s)\<rparr>)"
| detached_fails: "k < length (puts s) \<Longrightarrow> puts s ! k = Detached row \<Longrightarrow>
    task_step L J token K S s (Lost row) (s\<lparr>puts := remove_nth k (puts s)\<rparr>)"
| task_deliver: "taken s < length (sent (sys_gateway s)) \<Longrightarrow>
    guard_turn K S (sys_guard s) (Command (sent (sys_gateway s) ! taken s) now) effs G \<Longrightarrow>
    task_step L J token K S s (GuardTurn (Command (sent (sys_gateway s) ! taken s) now) effs)
      (s\<lparr>sys_guard := G, taken := Suc (taken s)\<rparr>)"
| task_network: "from_network ev \<Longrightarrow> guard_turn K S (sys_guard s) ev effs G \<Longrightarrow>
    task_step L J token K S s (GuardTurn ev effs) (s\<lparr>sys_guard := G\<rparr>)"

section \<open>What the admin asked for\<close>

text \<open>\<open>asked_for\<close>: some accepted write of the log gives the peer these roles.\<close>

definition asked_for :: "config_lib \<Rightarrow> json_lib \<Rightarrow> string \<Rightarrow> task_label list \<Rightarrow> peer_id \<Rightarrow> role list \<Rightarrow> bool" where
  "asked_for L J token log p rs \<longleftrightarrow> (\<exists>c u i cfg. Arrives c \<in> set log \<and> accepted_put L J token c = Some (u, i) \<and>
     uuid cfg = u \<and> gw_allow cfg = in_allow i \<and> gives L cfg p rs)"

lemma asked_for_mono: "asked_for L J token log p rs \<Longrightarrow> asked_for L J token (log @ ls) p rs"
  by (auto simp: asked_for_def)

fun task_ok :: "config_lib \<Rightarrow> json_lib \<Rightarrow> string \<Rightarrow> task_label list \<Rightarrow> put_task \<Rightarrow> bool" where
  "task_ok L J token log (Storing _ row) = (\<exists>c u i. Arrives c \<in> set log \<and> accepted_put L J token c = Some (u, i) \<and>
     row = put_row J (call_tick c) u i)"
| "task_ok L J token log (Sending _ _ prs) = (\<forall>(p, rs) \<in> set prs. asked_for L J token log p rs)"
| "task_ok L J token log (Detached _) = True"

lemma task_ok_mono: "task_ok L J token log t \<Longrightarrow> task_ok L J token (log @ ls) t"
  using asked_for_mono by (cases t) fastforce+

lemma stored_task_ok:
  assumes "json_ok J" "task_ok L J token log (Storing c row)" "from_row J row = Some saved"
  shows "task_ok L J token log (Sending c saved (roles_for_config L saved))"
proof -
  from assms(2) obtain c' u i where c': "Arrives c' \<in> set log" "accepted_put L J token c' = Some (u, i)" "row = put_row J (call_tick c') u i"
    by auto
  with assms(3) have "uuid saved = u \<and> gw_allow saved = in_allow i"
    by (auto simp: put_row_def from_into_row [OF assms(1)])
  with c'(1,2) have "asked_for L J token log p rs" if "(p, rs) \<in> set (roles_for_config L saved)" for p rs
    unfolding asked_for_def using roles_for_config_gives [OF that] by blast
  then show ?thesis by auto
qed

section \<open>The invariant\<close>

definition tasks_inv :: "config_lib \<Rightarrow> json_lib \<Rightarrow> string \<Rightarrow> config_node_guard list \<Rightarrow> tunnel_registry \<Rightarrow> task_label list \<Rightarrow> 's gateway_tasks \<Rightarrow> bool" where
  "tasks_inv L J token cfgs reg log s \<longleftrightarrow>
     auth_inv (authenticator (sys_guard s)) \<and> registry (sys_guard s) = reg \<and> shutdown_deadline (sys_guard s) = None \<and>
     \<not> returned (sys_guard s) \<and> list_all (task_ok L J token log) (puts s) \<and>
     (\<forall>cmd \<in> set (sent (sys_gateway s)). \<exists>p rs. cmd = Allow p rs \<and> asked_for L J token log p rs) \<and>
     (\<forall>p rs. roles (whitelist (authenticator (sys_guard s))) p = Some rs \<longrightarrow>
        asked_for L J token log p rs \<or> (\<exists>cfg \<in> set cfgs. gives L cfg p rs))"

lemma unaccepted_request:
  assumes "accepted_put L J token c = None" "serve_call L J token c g = (r, g')"
  shows "stored_part g' = stored_part g"
proof (cases "call_port c")
  case AdminPort
  with assms show ?thesis
    by (auto simp: accepted_put_def serve_call_def admin_router_def json_body_def with_body_def healthz_def stored_part_def
        put_config_stages Let_def not_le split: option.splits endpoint.splits if_splits sum.splits)
next
  case GuardPort
  with assms(2) tunnel_routers_frame(1) [of L J "call_dashboard c" "call_db_fails c" "call_tick c" "call_request c" g]
  show ?thesis by (simp add: serve_call_def)
next
  case ClientPort
  with assms(2) tunnel_routers_frame(2) [of L J "call_dashboard c" "call_tick c" "call_request c" g]
  show ?thesis by (simp add: serve_call_def)
qed

text \<open>Steps that leave the Guard alone.\<close>

lemma tasks_inv_frame:
  assumes "tasks_inv L J token cfgs reg log s" "sys_guard s' = sys_guard s"
    and "set (sent (sys_gateway s')) \<subseteq> set (sent (sys_gateway s)) \<union> {Allow p rs |p rs. asked_for L J token log p rs}"
    and "\<And>t. t \<in> set (puts s') \<Longrightarrow> t \<in> set (puts s) \<or> task_ok L J token (log @ [l]) t"
  shows "tasks_inv L J token cfgs reg (log @ [l]) s'"
proof -
  have "\<exists>p rs. cmd = Allow p rs \<and> asked_for L J token (log @ [l]) p rs" if "cmd \<in> set (sent (sys_gateway s'))" for cmd
  proof -
    have "\<exists>p rs. cmd = Allow p rs \<and> asked_for L J token log p rs"
      using that assms(1,3) unfolding tasks_inv_def by blast
    then show ?thesis using asked_for_mono by blast
  qed
  moreover have "task_ok L J token (log @ [l]) t" if "t \<in> set (puts s')" for t
    using assms(4) [OF that] assms(1) task_ok_mono unfolding tasks_inv_def list_all_iff by blast
  moreover have "asked_for L J token (log @ [l]) p rs \<or> (\<exists>cfg \<in> set cfgs. gives L cfg p rs)"
    if "roles (whitelist (authenticator (sys_guard s))) p = Some rs" for p rs
    using that assms(1) asked_for_mono unfolding tasks_inv_def by blast
  ultimately show ?thesis using assms(1,2) by (simp add: tasks_inv_def list_all_iff)
qed

lemma tasks_inv_turn:
  assumes "tasks_inv L J token cfgs reg log s" "guard_turn K S (sys_guard s) ev effs G" "sys_guard s' = G"
    and "sys_gateway s' = sys_gateway s" "puts s' = puts s"
    and ev: "from_network ev \<or> (\<exists>p rs now. ev = Command (Allow p rs) now \<and> asked_for L J token log p rs)"
  shows "tasks_inv L J token cfgs reg (log @ [l]) s'"
proof -
  have inv: "auth_inv (authenticator (sys_guard s))" using assms(1) by (simp add: tasks_inv_def)
  have G: "G = snd (guard_step K S ev (sys_guard s))" "enabled ev (sys_guard s)"
    using assms(2) by (auto simp: guard_turn_iff)
  have sound: "sound_event ev" using ev from_network_open by auto
  have "shutdown_deadline G = shutdown_deadline (sys_guard s)"
    using ev by (auto simp: G closing_turn dest: from_network_open split: event.split guard_control.split)
  moreover have "roles (whitelist (authenticator G)) p = Some rs \<Longrightarrow>
      asked_for L J token log p rs \<or> roles (whitelist (authenticator (sys_guard s))) p = Some rs" for p rs
    using ev
  proof
    assume "from_network ev" "roles (whitelist (authenticator G)) p = Some rs"
    with network_roles [OF inv, of ev K S] show ?thesis by (simp add: G)
  next
    assume "\<exists>p rs now. ev = Command (Allow p rs) now \<and> asked_for L J token log p rs"
      and r: "roles (whitelist (authenticator G)) p = Some rs"
    then obtain q qs now where "ev = Command (Allow q qs) now" "asked_for L J token log q qs" by blast
    with r allow_roles [OF inv, of K S q qs now] show ?thesis by (auto simp: G split: if_splits)
  qed
  ultimately show ?thesis
    using assms(1,3-5) returned_step [OF G(2), of K S] guard_auth_inv_step [OF inv sound, of K S] registry_step [of K S ev "sys_guard s"]
      task_ok_mono asked_for_mono
    unfolding tasks_inv_def list_all_iff by (simp add: G) metis
qed

lemma tasks_inv_step:
  assumes "json_ok J" "task_step L J token K S s l s'" "tasks_inv L J token cfgs reg log s"
  shows "tasks_inv L J token cfgs reg (log @ [l]) s'"
  using assms(2,3)
proof (induction rule: task_step.induct)
  case (arrives c u i s)
  then have "task_ok L J token (log @ [Arrives c]) (Storing c (put_row J (call_tick c) u i))"
    unfolding task_ok.simps by (metis in_set_conv_decomp)
  then show ?case by (intro tasks_inv_frame [OF arrives(2)]) (auto simp del: task_ok.simps)
next
  case (other_request c s r g)
  then have "sent g = sent (sys_gateway s)" using unaccepted_request by (fastforce simp: stored_part_def)
  then show ?case by (intro tasks_inv_frame [OF other_request(3)]) auto
next
  case (stores k s c row saved)
  then have "task_ok L J token log (Storing c row)" by (metis list_all_length tasks_inv_def)
  from task_ok_mono [OF stored_task_ok [OF assms(1) this stores(3)]] show ?case
    by (intro tasks_inv_frame [OF stores(4)]) (auto simp: put_store_def dest!: set_update_subset_insert [THEN subsetD])
next
  case (sends k s c saved p rs prs)
  then have "task_ok L J token log (Sending c saved ((p, rs) # prs))" by (metis list_all_length tasks_inv_def)
  then have ok: "asked_for L J token log p rs" "task_ok L J token log (Sending c saved prs)" by simp_all
  from task_ok_mono [OF ok(2)] ok(1) show ?case
    by (intro tasks_inv_frame [OF sends(4)]) (auto simp: send_control_def dest!: set_update_subset_insert [THEN subsetD])
next
  case (drops_storing k s c row)
  then show ?case
    by (intro tasks_inv_frame [OF drops_storing(3)]) (auto dest!: set_update_subset_insert [THEN subsetD])
next
  case (task_deliver s now effs G)
  then obtain p rs where "sent (sys_gateway s) ! taken s = Allow p rs" "asked_for L J token log p rs"
    unfolding tasks_inv_def by (meson nth_mem)
  then show ?case by (intro tasks_inv_turn [OF task_deliver(3,2)]) auto
next
  case (task_network ev s effs G)
  then show ?case by (intro tasks_inv_turn [OF task_network(3,2)]) auto
qed (use set_remove_nth in \<open>(intro tasks_inv_frame; force simp: put_store_def)+\<close>)

lemma tasks_inv_steps:
  assumes "json_ok J" "tasks_inv L J token cfgs reg [] s0" "steps (task_step L J token K S) s0 log s"
  shows "tasks_inv L J token cfgs reg log s"
  using assms(3,2) tasks_inv_step [OF assms(1)] by (rule steps_log)

lemma tasks_start_sel [simp]:
  "sys_gateway (tasks_start S G) = gl_state G" "taken (tasks_start S G) = 0" "puts (tasks_start S G) = []"
  "sys_guard (tasks_start S G) = run_guard_with_control S (gl_authenticator G) (gl_registry G)"
  by (simp_all add: tasks_start_def system_start_def gateway_system.defs)

lemma tasks_inv_start:
  assumes "gl_authenticator G = authenticator_new (fold (\<lambda>(p, rs). allow p rs) (given L cfgs) whitelist_new)" "sent (gl_state G) = []"
  shows "tasks_inv L J token cfgs (gl_registry G) [] (tasks_start S G)"
proof -
  let ?w = "fold (\<lambda>(p, rs). allow p rs) (given L cfgs) whitelist_new"
  have "whitelist_wf ?w" by (intro wl.wf_fold_insert) simp
  moreover have "\<exists>cfg \<in> set cfgs. gives L cfg p rs" if "roles ?w p = Some rs" for p rs
    using that by (auto simp: wl.get_fold_insert_empty dest!: map_of_SomeD roles_for_config_gives)
  moreover have "whitelist (gl_authenticator G) = ?w" by (simp add: assms(1) authenticator_new_def)
  ultimately show ?thesis
    using auth_inv_new [of ?w] by (simp add: tasks_inv_def assms run_guard_with_control_def guard_start_def)
qed

lemma task_turn:
  assumes "task_step L J token K S s (GuardTurn ev effs) s'"
  shows "guard_turn K S (sys_guard s) ev effs (sys_guard s')"
  using assms by (cases rule: task_step.cases) simp_all

interpretation tasks: embedded_guard K S "task_step L J token K S" sys_guard "\<lambda>G s. s\<lparr>sys_guard := G\<rparr>" GuardTurn
  for K :: "'pk key_lib" and S :: "'s sem_lib" and L J token
  by unfold_locales (simp_all add: task_turn task_step.task_network)

lemma accepted_put_authorised:
  "accepted_put L J token c = Some (u, i) \<Longrightarrow> call_port c = AdminPort \<and> req_authorization (call_request c) = Some (''Bearer '' @ token)"
  by (auto simp: accepted_put_def Let_def require_bearer_iff split: port.splits option.splits endpoint.splits if_splits)

section \<open>Who is served\<close>

text \<open>C36 (who reaches the ports behind the tunnels): however writes in flight, dropped callers, other requests and turns of the Guard
  interleave, a peer whose relay is spawned and served has asked for one of the two services by name, and owes its role to a
  configuration of the start or to a write that came earlier to the admin port with the admin token in it, valid and for that very Guard:
  for the port of the Guards its own configuration, for the port of the Clients its own or one that names it.\<close>

theorem served_by_admin_consent:
  assumes "json_ok J" "gateway_main L J parse_socket H sw open_db tick = Some G"
    and "steps (task_step L J (admin_token (gl_config G)) K S) (tasks_start S G) (log @ [GuardTurn ev effs]) s"
    and "Spawn p rs \<in> set effs" "serve_io B N p stream rs (registry (sys_guard s)) = (Served n m, out)"
  shows "\<exists>header rest rows cfgs cfg. header_in_time B stream = Some (Inr (header, rest)) \<and>
    open_db (database_url (gl_config G)) = Inr rows \<and> map (from_row J) rows = map Some cfgs \<and>
    (cfg \<in> set cfgs \<or> (\<exists>c i. Arrives c \<in> set log \<and> call_port c = AdminPort \<and>
       req_authorization (call_request c) = Some (''Bearer '' @ admin_token (gl_config G)) \<and>
       accepted_put L J (admin_token (gl_config G)) c = Some (uuid cfg, i) \<and> gw_allow cfg = in_allow i)) \<and>
    (service header = ''gwapi-guard'' \<and> parse_peer L (uuid cfg) = Inr p \<or>
     service header = ''gwapi-client'' \<and> (parse_peer L (uuid cfg) = Inr p \<or> names L (gw_allow cfg) p))"
proof -
  let ?tok = "admin_token (gl_config G)"
  from assms(2) obtain rows cfgs where start: "open_db (database_url (gl_config G)) = Inr rows" "map (from_row J) rows = map Some cfgs"
    "gl_authenticator G = authenticator_new (fold (\<lambda>(p, rs). allow p rs) (given L cfgs) whitelist_new)"
    and reg: "gl_registry G = gateway_registry (gl_config G)" and st: "gl_state G = gateway_state (gl_config G) rows (unix_now tick)"
    by (rule gateway_main_Some)
  have "sent (gl_state G) = []" by (simp add: st gateway_state_def)
  note inv = tasks_inv_steps [OF assms(1) tasks_inv_start [OF start(3) this]]
  from assms(3) obtain s1 where run: "steps (task_step L J ?tok K S) (tasks_start S G) log s1"
    and last: "task_step L J ?tok K S s1 (GuardTurn ev effs) s" by (auto simp: steps_append)
  have "asked_for L J ?tok log p rs \<or> (\<exists>cfg \<in> set cfgs. gives L cfg p rs)"
    using inv [OF run] tasks.spawned_roles [OF last assms(4)] by (auto simp: tasks_inv_def)
  then obtain cfg where cfg: "gives L cfg p rs" "cfg \<in> set cfgs \<or> (\<exists>c i. Arrives c \<in> set log \<and>
      accepted_put L J ?tok c = Some (uuid cfg, i) \<and> gw_allow cfg = in_allow i)"
    unfolding asked_for_def by blast
  have "registry (sys_guard s) = gateway_registry (gl_config G)"
    using inv [OF assms(3)] by (simp add: tasks_inv_def reg)
  with assms(5) port_needs_role obtain header rest where "header_in_time B stream = Some (Inr (header, rest))"
    "service header = ''gwapi-guard'' \<and> ROLE_GUARD \<in> set rs \<or> service header = ''gwapi-client'' \<and> ROLE_CLIENT \<in> set rs" by metis
  moreover have "cfg \<in> set cfgs \<or> (\<exists>c i. Arrives c \<in> set log \<and> call_port c = AdminPort \<and>
      req_authorization (call_request c) = Some (''Bearer '' @ ?tok) \<and>
      accepted_put L J ?tok c = Some (uuid cfg, i) \<and> gw_allow cfg = in_allow i)"
    using cfg(2) by (blast dest: accepted_put_authorised)
  ultimately show ?thesis using start(1,2) cfg(1) unfolding gives_def by blast
qed

theorem served_by_admin_consent_witness:
  "\<exists>(G :: bytes gateway_launch) log s. gateway_main sample_lib sample_json (\<lambda>_. Inr (V4 0, 8088)) sample_gateway_host sample_swarm
      (\<lambda>_. Inr [row_of config_A]) None = Some G \<and>
     steps (task_step sample_lib sample_json (admin_token (gl_config G)) sample_keys sample_sems) (tasks_start sample_sems G)
       (log @ [GuardTurn (IncomingStream (PeerId [1])) [Spawn (PeerId [1]) sample_both]]) s \<and>
     (\<exists>f header rest rows cfgs. header_in_time sample_header_bincode (instantly f) = Some (Inr (header, rest)) \<and>
        map (from_row sample_json) rows = map Some cfgs \<and> service header \<in> {''gwapi-guard'', ''gwapi-client''})"
proof -
  obtain G where G: "gateway_main sample_lib sample_json (\<lambda>_. Inr (V4 0, 8088)) sample_gateway_host sample_swarm
      (\<lambda>_. Inr [row_of config_A]) None = Some G"
    and auth: "gl_authenticator G = authenticator_new (allow (PeerId [1]) sample_both whitelist_new)"
    and reg: "gl_registry G = gateway_registry (gl_config G)" by (rule sample_gateway_A)
  let ?s = "tasks_start sample_sems G"
  from sample_visit [of "gl_config G"] obtain g where
    exec: "guard_exec sample_keys sample_sems [AuthRequest (PeerId [1]) HandshakeInit (Some 100) [7], sample_answered, IncomingStream (PeerId [1])]
      (sys_guard ?s) = Some ([sample_challenged, (sample_answered, [Respond (PeerId [1]) (AccessGranted sample_both)]),
        (IncomingStream (PeerId [1]), [Spawn (PeerId [1]) sample_both])], g)"
    by (auto simp: run_guard_with_control_def auth reg)
  let ?log = "[GuardTurn (AuthRequest (PeerId [1]) HandshakeInit (Some 100) [7]) [Respond (PeerId [1]) (Challenge [7] 100)],
    GuardTurn sample_answered [Respond (PeerId [1]) (AccessGranted sample_both)]]"
  have run: "steps (task_step sample_lib sample_json (admin_token (gl_config G)) sample_keys sample_sems) ?s
      (?log @ [GuardTurn (IncomingStream (PeerId [1])) [Spawn (PeerId [1]) sample_both]]) (?s\<lparr>sys_guard := g\<rparr>)"
    using tasks.network_run [OF exec] by simp
  have "registry g = gateway_registry (gl_config G)"
    using registry_run [OF guard_run_exec [OF exec]] by (simp add: run_guard_with_control_def guard_start_def reg)
  then obtain f n m out where served: "serve_io sample_header_bincode sample_net (PeerId [1]) (instantly f) sample_both
      (registry (sys_guard (?s\<lparr>sys_guard := g\<rparr>))) = (Served n m, out)"
    using sample_stream_served [of "gl_config G"] by auto
  from served_by_admin_consent [OF sample_json_ok G run _ served] G run show ?thesis by fastforce
qed

section \<open>Which roles are live\<close>

definition relayed :: "task_label list \<Rightarrow> (peer_id \<times> role list) list" where
  "relayed log = concat (map (\<lambda>l. case l of Sent (Allow p rs) \<Rightarrow> [(p, rs)] | _ \<Rightarrow> []) log)"

lemma relayed_simps [simp]:
  "relayed [] = []" "relayed (xs @ ys) = relayed xs @ relayed ys"
  "relayed (Sent (Allow p rs) # log) = (p, rs) # relayed log" "relayed (Stored row # log) = relayed log"
  "relayed (Arrives c # log) = relayed log" "relayed (Lost row # log) = relayed log" "relayed (Drops c # log) = relayed log"
  "relayed (Replies c r # log) = relayed log" "relayed (GuardTurn ev effs # log) = relayed log"
  by (simp_all add: relayed_def)

text \<open>What the Guard knows is what it was started with and the commands it has taken.\<close>

definition live_inv :: "(peer_id \<times> role list) list \<Rightarrow> task_label list \<Rightarrow> 's gateway_tasks \<Rightarrow> bool" where
  "live_inv base log s \<longleftrightarrow> auth_inv (authenticator (sys_guard s)) \<and> ctl_open (sys_gateway s) \<and>
     sent (sys_gateway s) = allows (relayed log) \<and> taken s \<le> length (relayed log) \<and>
     roles (whitelist (authenticator (sys_guard s))) = map_of (rev (base @ take (taken s) (relayed log)))"

lemma live_inv_frame:
  assumes "live_inv base log s" "sys_guard s' = sys_guard s" "taken s' = taken s" "relayed [l] = []"
    and "stored_part (sys_gateway s') = stored_part (sys_gateway s) \<or>
      (\<exists>row. sys_gateway s' = put_store row (sys_gateway s))"
  shows "live_inv base (log @ [l]) s'"
  using assms by (auto simp: live_inv_def stored_part_def put_store_def)

lemma live_inv_step:
  assumes "task_step L J token K S s l s'" "live_inv base log s"
  shows "live_inv base (log @ [l]) s'"
  using assms
proof (induction rule: task_step.induct)
  case (other_request c s r g)
  then show ?case by (intro live_inv_frame [OF other_request(3)]) (auto dest: unaccepted_request)
next
  case (sends k s c saved p rs prs)
  then show ?case by (simp add: live_inv_def send_control_def)
next
  case (task_deliver s now effs G)
  then have lt: "taken s < length (relayed log)" by (simp add: live_inv_def)
  obtain p rs where prs: "relayed log ! taken s = (p, rs)" by fastforce
  with lt task_deliver(3) have cmd: "sent (sys_gateway s) ! taken s = Allow p rs" by (simp add: live_inv_def)
  have G: "G = snd (guard_step K S (Command (Allow p rs) now) (sys_guard s))"
    using task_deliver(2) by (auto simp: guard_turn_iff cmd)
  have "base @ take (Suc (taken s)) (relayed log) = (base @ take (taken s) (relayed log)) @ [(p, rs)]"
    using lt by (simp add: take_Suc_conv_app_nth prs)
  then show ?case
    using task_deliver(3) lt allow_roles [of "sys_guard s" K S p rs now]
      guard_auth_inv_step [of "sys_guard s" "Command (Allow p rs) now" K S]
    by (simp add: live_inv_def G)
next
  case (task_network ev s effs G)
  then have G: "G = snd (guard_step K S ev (sys_guard s))" by (auto simp: guard_turn_iff)
  from task_network show ?case
    using network_roles [OF _ task_network(1), of "sys_guard s" K S] guard_auth_inv_step [of "sys_guard s" ev K S]
      from_network_open [OF task_network(1)]
    by (simp add: live_inv_def G)
qed (intro live_inv_frame; simp; blast)+

text \<open>What a run has stored is sent or still to be sent, as long as no caller leaves.\<close>

fun is_drop :: "task_label \<Rightarrow> bool" where
  "is_drop (Drops _) = True"
| "is_drop _ = False"

definition owed :: "config_lib \<Rightarrow> json_lib \<Rightarrow> task_label list \<Rightarrow> put_task list \<Rightarrow> bool" where
  "owed L J log ts \<longleftrightarrow> (\<forall>row. Detached row \<notin> set ts) \<and>
     (\<forall>l1 row l2 cfg p rs. log = l1 @ Stored row # l2 \<and> from_row J row = Some cfg \<and> (p, rs) \<in> set (roles_for_config L cfg) \<longrightarrow>
        Sent (Allow p rs) \<in> set l2 \<or> (\<exists>c saved prs. Sending c saved prs \<in> set ts \<and> (p, rs) \<in> set prs))"

text \<open>The list of tasks may lose tasks that owe nothing, and a command that is owed when it is sent.\<close>

lemma owed_frame:
  assumes "owed L J log ts" "\<And>row. Detached row \<in> set ts' \<Longrightarrow> Detached row \<in> set ts"
    and "\<And>row cfg p rs. l = Stored row \<Longrightarrow> from_row J row = Some cfg \<Longrightarrow> (p, rs) \<in> set (roles_for_config L cfg) \<Longrightarrow>
      \<exists>c saved prs. Sending c saved prs \<in> set ts' \<and> (p, rs) \<in> set prs"
    and "\<And>c saved prs p rs. Sending c saved prs \<in> set ts \<Longrightarrow> (p, rs) \<in> set prs \<Longrightarrow>
      l = Sent (Allow p rs) \<or> (\<exists>c saved prs. Sending c saved prs \<in> set ts' \<and> (p, rs) \<in> set prs)"
  shows "owed L J (log @ [l]) ts'"
  unfolding owed_def
proof (intro conjI allI impI, goal_cases)
  case (1 row)
  then show ?case using assms(1,2) by (auto simp: owed_def)
next
  case (2 l1 row l2 cfg p rs)
  then have log: "log @ [l] = l1 @ Stored row # l2" and row: "from_row J row = Some cfg" "(p, rs) \<in> set (roles_for_config L cfg)" by simp_all
  show ?case
  proof (cases l2 rule: rev_cases)
    case Nil
    with log assms(3) row show ?thesis by simp
  next
    case (snoc l2' l')
    with log have "log = l1 @ Stored row # l2'" "l' = l" by (simp_all flip: append_assoc append_Cons)
    with assms(1) row snoc assms(4) show ?thesis unfolding owed_def by (metis in_set_conv_decomp UnCI set_append)
  qed
qed

lemma set_update_keepI: "t \<in> set xs \<Longrightarrow> t \<noteq> xs ! k \<Longrightarrow> t \<in> set (xs[k := y])"
  by (metis in_set_conv_nth length_list_update nth_list_update_neq)

lemma set_remove_memI: "t \<in> set xs \<Longrightarrow> t \<noteq> xs ! k \<Longrightarrow> t \<in> set (remove_nth k xs)"
proof (cases "k < length xs")
  case True
  assume "t \<in> set xs" "t \<noteq> xs ! k"
  then have "t \<in> set (take k xs @ xs ! k # drop (Suc k) xs)" "t \<noteq> xs ! k" by (simp_all add: id_take_nth_drop [OF True, symmetric])
  then show ?thesis by (auto simp: remove_nth_def)
qed (simp add: remove_nth_def)

lemma owed_remove:
  assumes "owed L J log ts" "\<And>row. l \<noteq> Stored row" "\<And>c saved pr prs. ts ! k \<noteq> Sending c saved (pr # prs)"
  shows "owed L J (log @ [l]) (remove_nth k ts)"
proof (rule owed_frame [OF assms(1)])
  fix c saved prs p rs assume *: "Sending c saved prs \<in> set ts" "(p, rs) \<in> set prs"
  then have "Sending c saved prs \<noteq> ts ! k" using assms(3) by (cases prs) (simp, metis)
  with * set_remove_memI show "l = Sent (Allow p rs) \<or>
      (\<exists>c saved prs. Sending c saved prs \<in> set (remove_nth k ts) \<and> (p, rs) \<in> set prs)" by fast
qed (simp_all add: assms(2) set_remove_nth [THEN subsetD])

lemma owed_keep:
  assumes "owed L J log ts" "\<And>row. l \<noteq> Stored row"
  shows "owed L J (log @ [l]) ts"
  using assms by (intro owed_frame [OF assms(1)]) blast+

lemma owed_step:
  assumes "task_step L J token K S s l s'" "\<not> is_drop l" "owed L J log (puts s)"
  shows "owed L J (log @ [l]) (puts s')"
  using assms
proof (induction rule: task_step.induct)
  case (stores k s c row saved)
  show ?case
  proof (rule owed_frame [OF stores(5)])
    fix row' assume "Detached row' \<in> set (puts (s\<lparr>sys_gateway := put_store row (sys_gateway s),
      puts := (puts s)[k := Sending c saved (roles_for_config L saved)]\<rparr>))"
    then show "Detached row' \<in> set (puts s)" by (auto dest!: set_update_subset_insert [THEN subsetD])
  next
    fix row' cfg p rs assume "Stored row = Stored row'" "from_row J row' = Some cfg" "(p, rs) \<in> set (roles_for_config L cfg)"
    with stores(1,3) show "\<exists>c' saved' prs. Sending c' saved' prs \<in> set (puts (s\<lparr>sys_gateway := put_store row (sys_gateway s),
      puts := (puts s)[k := Sending c saved (roles_for_config L saved)]\<rparr>)) \<and> (p, rs) \<in> set prs"
      by (auto intro: set_update_memI)
  next
    fix c' saved' prs p rs assume "Sending c' saved' prs \<in> set (puts s)" "(p, rs) \<in> set prs"
    then show "Stored row = Sent (Allow p rs) \<or> (\<exists>c' saved' prs. Sending c' saved' prs \<in> set (puts (s\<lparr>sys_gateway := put_store row (sys_gateway s),
      puts := (puts s)[k := Sending c saved (roles_for_config L saved)]\<rparr>)) \<and> (p, rs) \<in> set prs)"
      using set_update_keepI [of "Sending c' saved' prs" "puts s" k] stores(2)
      by (intro disjI2 exI [of _ c'] exI [of _ saved'] exI [of _ prs]) simp
  qed
next
  case (sends k s c saved p rs prs)
  show ?case
  proof (rule owed_frame [OF sends(5)])
    fix c' saved' prs' q qs assume "Sending c' saved' prs' \<in> set (puts s)" "(q, qs) \<in> set prs'"
    with sends(1,2) show "Sent (Allow p rs) = Sent (Allow q qs) \<or> (\<exists>c' saved' prs'. Sending c' saved' prs' \<in> set (puts (s\<lparr>
      sys_gateway := send_control (Allow p rs) (sys_gateway s), puts := (puts s)[k := Sending c saved prs]\<rparr>)) \<and> (q, qs) \<in> set prs')"
      using set_update_keepI [of "Sending c' saved' prs'" "puts s" k] set_update_memI [of k "puts s"] by fastforce
  qed (auto dest!: set_update_subset_insert [THEN subsetD])
next
  case (arrives c u i s)
  show ?case by (intro owed_frame [OF arrives(3)]) auto
next
  case (detached_stores k s row)
  then show ?case by (metis nth_mem owed_def)
next
  case (drops_storing k s c row)
  then show ?case by simp
next
  case (drops_sending k s c saved prs)
  then show ?case by simp
qed (simp_all add: owed_remove owed_keep)

lemma live_and_owed:
  assumes "steps (task_step L J token K S) s0 log s" "live_inv base [] s0" "puts s0 = []"
  shows "live_inv base log s" "list_all (\<lambda>l. \<not> is_drop l) log \<Longrightarrow> owed L J log (puts s)"
proof -
  show "live_inv base log s"
    using assms(1,2) by (rule steps_log) (rule live_inv_step)
  have "list_all (\<lambda>l. \<not> is_drop l) log \<longrightarrow> owed L J log (puts s)"
    using assms(1) by (rule steps_log) (use assms(3) owed_step in \<open>auto simp: owed_def [of _ _ "[]"] list_all_iff\<close>)
  then show "list_all (\<lambda>l. \<not> is_drop l) log \<Longrightarrow> owed L J log (puts s)" by simp
qed

lemma live_inv_start:
  assumes "gl_authenticator G = authenticator_new (fold (\<lambda>(p, rs). allow p rs) prs whitelist_new)"
    and "gl_state G = gateway_state c rows now"
  shows "live_inv prs [] (tasks_start S G)"
proof -
  have "whitelist_wf (fold (\<lambda>(p, rs). allow p rs) prs whitelist_new)" by (intro wl.wf_fold_insert) simp
  then show ?thesis
    by (simp add: assms live_inv_def run_guard_with_control_def guard_start_def gateway_state_def auth_inv_new fun_eq_iff)
      (simp add: authenticator_new_def wl.get_fold_insert_empty)
qed

section \<open>Nothing gets stuck\<close>

definition guard_up :: "'s gateway_tasks \<Rightarrow> bool" where
  "guard_up s \<longleftrightarrow> shutdown_deadline (sys_guard s) = None \<and> control_open (sys_guard s) \<and> \<not> returned (sys_guard s)"

lemma guard_up_turn:
  assumes "guard_up s" "guard_turn K S (sys_guard s) ev effs G" "sys_guard s' = G" "from_network ev \<or> (\<exists>p rs now. ev = Command (Allow p rs) now)"
  shows "guard_up s'"
proof -
  have G: "G = snd (guard_step K S ev (sys_guard s))" "enabled ev (sys_guard s)" using assms(2) by (auto simp: guard_turn_iff)
  have "shutdown_deadline G = shutdown_deadline (sys_guard s)"
    using assms(4) by (auto simp: G closing_turn dest: from_network_open split: event.split guard_control.split)
  moreover have "ev \<noteq> ControlClosed" using assms(4) by (auto dest: from_network_open)
  ultimately show ?thesis
    using assms(1,3) returned_step [OF G(2), of K S] control_step [of ev K S "sys_guard s"] by (simp add: guard_up_def G)
qed

lemma guard_up_step:
  assumes "task_step L J token K S s l s'" "guard_up s" "live_inv base log s"
  shows "guard_up s'"
  using assms
proof (induction rule: task_step.induct)
  case (task_deliver s now effs G)
  obtain p rs where "relayed log ! taken s = (p, rs)" by fastforce
  with task_deliver(1,4) have "sent (sys_gateway s) ! taken s = Allow p rs" by (simp add: live_inv_def)
  with task_deliver show ?case by (intro guard_up_turn [OF task_deliver(3,2)]) auto
next
  case (task_network ev s effs G)
  then show ?case by (intro guard_up_turn [OF task_network(3,2)]) auto
qed (simp_all add: guard_up_def)

text \<open>The Guard takes what is in the channel.\<close>

fun is_turn :: "task_label \<Rightarrow> bool" where
  "is_turn (GuardTurn _ _) = True"
| "is_turn _ = False"

lemma turns_only: "list_all is_turn log \<Longrightarrow> relayed log = [] \<and> list_all (\<lambda>l. \<not> is_drop l) log"
proof (induction log)
  case (Cons l log)
  then show ?case by (cases l) simp_all
qed simp

lemma drain_channel:
  assumes "guard_up s" "live_inv base log s"
  shows "\<exists>log' s'. steps (task_step L J token K S) s log' s' \<and> list_all is_turn log' \<and> puts s' = puts s \<and>
    guard_up s' \<and> live_inv base (log @ log') s' \<and> taken s' = length (sent (sys_gateway s'))"
  using assms
proof (induction "length (relayed log) - taken s" arbitrary: s log)
  case 0
  then show ?case by (intro exI [of _ "[]"] exI [of _ s]) (auto simp: live_inv_def)
next
  case (Suc n)
  let ?ev = "Command (sent (sys_gateway s) ! taken s) 0" and ?g = "sys_guard s"
  let ?effs = "fst (guard_step K S ?ev ?g)" and ?s1 = "s\<lparr>sys_guard := snd (guard_step K S ?ev ?g), taken := Suc (taken s)\<rparr>"
  from Suc.hyps(2) have lt: "taken s < length (sent (sys_gateway s))" using Suc.prems(2) by (simp add: live_inv_def)
  have turn: "guard_turn K S ?g ?ev ?effs (snd (guard_step K S ?ev ?g))"
    using Suc.prems(1) by (simp add: guard_turn_iff enabled_def guard_up_def)
  note step = task_step.task_deliver [OF lt turn, of L J token]
  note inv = guard_up_step [OF step Suc.prems] live_inv_step [OF step Suc.prems(2)]
  have "n = length (relayed (log @ [GuardTurn ?ev ?effs])) - taken ?s1" using Suc.hyps(2) by simp
  from Suc.hyps(1) [OF this inv] obtain log' s' where "steps (task_step L J token K S) ?s1 log' s'" "list_all is_turn log'"
    "puts s' = puts s" "guard_up s'" "live_inv base (log @ GuardTurn ?ev ?effs # log') s'" "taken s' = length (sent (sys_gateway s'))"
    by auto
  with step show ?case by (intro exI [of _ "GuardTurn ?ev ?effs # log'"] exI [of _ s']) auto
qed

text \<open>With the channel empty, the first task can go on; what it has left to do gets less.\<close>

fun work :: "config_lib \<Rightarrow> json_lib \<Rightarrow> put_task \<Rightarrow> nat" where
  "work L J (Storing _ row) = 2 + (case from_row J row of Some cfg \<Rightarrow> length (roles_for_config L cfg) | None \<Rightarrow> 0)"
| "work L J (Sending _ _ prs) = 1 + length prs"
| "work L J (Detached _) = 1"

lemma first_task_goes_on:
  assumes "puts s = t # ts" "taken s = length (sent (sys_gateway s))"
  shows "\<exists>l s'. task_step L J token K S s l s' \<and> \<not> is_drop l \<and>
    sum_list (map (work L J) (puts s')) < sum_list (map (work L J) (puts s))"
proof (cases t)
  case (Storing c row)
  show ?thesis
  proof (cases "from_row J row")
    case None
    show ?thesis
      by (rule exI, rule exI, rule conjI, rule task_step.stores_unreadable [of 0 s c row])
        (use assms Storing None in \<open>simp_all add: remove_nth_def GUARD_CONTROL_CHANNEL_CAPACITY_def\<close>)
  next
    case (Some saved)
    show ?thesis
      by (rule exI, rule exI, rule conjI, rule task_step.stores [of 0 s c row J saved])
        (use assms Storing Some in \<open>simp_all add: remove_nth_def GUARD_CONTROL_CHANNEL_CAPACITY_def\<close>)
  qed
next
  case (Sending c saved prs)
  show ?thesis
  proof (cases prs)
    case Nil
    show ?thesis
      by (rule exI, rule exI, rule conjI, rule task_step.answers [of 0 s c saved])
        (use assms Sending Nil in \<open>simp_all add: remove_nth_def GUARD_CONTROL_CHANNEL_CAPACITY_def\<close>)
  next
    case (Cons pr prs')
    show ?thesis
      by (rule exI, rule exI, rule conjI, rule task_step.sends [of 0 s c saved "fst pr" "snd pr" prs'])
        (use assms Sending Cons in \<open>simp_all add: remove_nth_def GUARD_CONTROL_CHANNEL_CAPACITY_def\<close>)
  qed
next
  case (Detached row)
  show ?thesis
      by (rule exI, rule exI, rule conjI, rule task_step.detached_stores [of 0 s row])
        (use assms Detached in \<open>simp_all add: remove_nth_def GUARD_CONTROL_CHANNEL_CAPACITY_def\<close>)
qed

lemma settle:
  assumes "guard_up s" "live_inv base log s"
  shows "\<exists>log' s'. steps (task_step L J token K S) s log' s' \<and> list_all (\<lambda>l. \<not> is_drop l) log' \<and>
    puts s' = [] \<and> taken s' = length (sent (sys_gateway s'))"
  using assms
proof (induction "sum_list (map (work L J) (puts s))" arbitrary: s log rule: less_induct)
  case less
  from drain_channel [OF less.prems, of L J token K S] obtain log1 s1 where 1: "steps (task_step L J token K S) s log1 s1"
    "list_all (\<lambda>l. \<not> is_drop l) log1" "puts s1 = puts s" "guard_up s1" "live_inv base (log @ log1) s1"
    "taken s1 = length (sent (sys_gateway s1))" using turns_only by blast
  show ?case
  proof (cases "puts s1")
    case Nil
    with 1 show ?thesis by blast
  next
    case (Cons t ts)
    from first_task_goes_on [OF Cons 1(6), of L J token K S] obtain l s2 where 2: "task_step L J token K S s1 l s2" "\<not> is_drop l"
      "sum_list (map (work L J) (puts s2)) < sum_list (map (work L J) (puts s))" unfolding 1(3) by blast
    from less.hyps [OF 2(3) guard_up_step [OF 2(1) 1(4,5)] live_inv_step [OF 2(1) 1(5)]] obtain log' s' where
      3: "steps (task_step L J token K S) s2 log' s'" "list_all (\<lambda>l. \<not> is_drop l) log'" "puts s' = []" "taken s' = length (sent (sys_gateway s'))"
      by blast
    have "steps (task_step L J token K S) s (log1 @ l # log') s'" using 1(1) 2(1) 3(1) by (auto simp: steps_append)
    with 1(2) 2(2) 3 show ?thesis by (intro exI [of _ "log1 @ l # log'"] exI [of _ s']) simp
  qed
qed

section \<open>No finished write is lost\<close>

definition quiet :: "'s gateway_tasks \<Rightarrow> bool" where
  "quiet s \<longleftrightarrow> puts s = [] \<and> taken s = length (sent (sys_gateway s))"

lemma guard_up_start: "guard_up (tasks_start S G)"
  by (simp add: guard_up_def run_guard_with_control_def guard_start_def)

lemma guard_up_steps:
  assumes "steps (task_step L J token K S) s0 log s" "live_inv base [] s0" "guard_up s0"
  shows "guard_up s"
proof -
  have "live_inv base log s \<and> guard_up s"
    using assms(1) by (rule steps_log) (use assms(2,3) guard_up_step live_inv_step in auto)
  then show ?thesis ..
qed

section \<open>Every command comes from a stored configuration\<close>

definition row_roles :: "config_lib \<Rightarrow> json_lib \<Rightarrow> config_row \<Rightarrow> (peer_id \<times> role list) list" where
  "row_roles L J row = (case from_row J row of Some cfg \<Rightarrow> roles_for_config L cfg | None \<Rightarrow> [])"

definition stored_roles :: "config_lib \<Rightarrow> json_lib \<Rightarrow> task_label list \<Rightarrow> (peer_id \<times> role list) list" where
  "stored_roles L J log = concat (map (\<lambda>l. case l of Stored row \<Rightarrow> row_roles L J row | _ \<Rightarrow> []) log)"

definition task_roles_left :: "put_task \<Rightarrow> (peer_id \<times> role list) list" where
  "task_roles_left t = (case t of Sending _ _ prs \<Rightarrow> prs | _ \<Rightarrow> [])"

definition unsent :: "put_task list \<Rightarrow> (peer_id \<times> role list) list" where
  "unsent ts = concat (map task_roles_left ts)"

lemma stored_roles_snoc:
  "stored_roles L J (log @ [l]) = stored_roles L J log @ (case l of Stored row \<Rightarrow> row_roles L J row | _ \<Rightarrow> [])"
  by (simp add: stored_roles_def)

lemma task_roles_left_simps [simp]:
  "task_roles_left (Storing c row) = []" "task_roles_left (Sending c saved prs) = prs" "task_roles_left (Detached row) = []"
  by (simp_all add: task_roles_left_def)

lemma unsent_simps [simp]: "unsent [] = []" "unsent (ts @ us) = unsent ts @ unsent us" "unsent (t # ts) = task_roles_left t @ unsent ts"
  by (simp_all add: unsent_def)

lemma unsent_split: "k < length ts \<Longrightarrow> mset (unsent ts) = mset (task_roles_left (ts ! k)) + mset (unsent (remove_nth k ts))"
  by (subst id_take_nth_drop [of k ts]) (simp_all add: remove_nth_def)

lemma unsent_update: "k < length ts \<Longrightarrow> mset (unsent (ts[k := t])) = mset (task_roles_left t) + mset (unsent (remove_nth k ts))"
  by (simp add: upd_conv_take_nth_drop remove_nth_def)

text \<open>What was stored has been sent, is still to be sent, or was dropped with its caller.\<close>

definition conserved :: "config_lib \<Rightarrow> json_lib \<Rightarrow> task_label list \<Rightarrow> 's gateway_tasks \<Rightarrow> bool" where
  "conserved L J log s \<longleftrightarrow> mset (relayed log) + mset (unsent (puts s)) \<subseteq># mset (stored_roles L J log) \<and>
     (list_all (\<lambda>l. \<not> is_drop l) log \<longrightarrow> (\<forall>row. Detached row \<notin> set (puts s)) \<and>
        mset (relayed log) + mset (unsent (puts s)) = mset (stored_roles L J log)) \<and>
     length (sent (sys_gateway s)) \<le> taken s + GUARD_CONTROL_CHANNEL_CAPACITY"

lemma conserved_step:
  assumes "task_step L J token K S s l s'" "conserved L J log s" "ctl_open (sys_gateway s)"
  shows "conserved L J (log @ [l]) s'"
  using assms
proof (induction rule: task_step.induct)
  case (other_request c s r g)
  then have "sent g = sent (sys_gateway s)" using unaccepted_request by (fastforce simp: stored_part_def)
  with other_request show ?case by (simp add: conserved_def stored_roles_snoc)
next
  case (stores k s c row saved)
  then show ?case
    using unsent_split [of k "puts s"] unsent_update [of k "puts s" "Sending c saved (roles_for_config L saved)"]
    by (auto simp: conserved_def stored_roles_snoc row_roles_def put_store_def union_assoc [symmetric]
        dest!: set_update_subset_insert [THEN subsetD])
next
  case (sends k s c saved p rs prs)
  then show ?case
    using unsent_split [of k "puts s"] unsent_update [of k "puts s" "Sending c saved prs"]
    by (auto simp: conserved_def stored_roles_snoc send_control_def dest!: set_update_subset_insert [THEN subsetD])
next
  case (drops_storing k s c row)
  then show ?case
    using unsent_split [of k "puts s"] unsent_update [of k "puts s" "Detached row"]
    by (simp add: conserved_def stored_roles_snoc)
next
  case (drops_sending k s c saved prs)
  then have "mset (relayed log) + mset (unsent (remove_nth k (puts s))) \<subseteq># mset (relayed log) + mset (unsent (puts s))"
    using unsent_split [of k "puts s"] by simp
  also have "\<dots> \<subseteq># mset (stored_roles L J log)" using drops_sending(3) by (simp add: conserved_def)
  finally show ?case using drops_sending(3) by (simp add: conserved_def stored_roles_snoc)
next
  case (detached_stores k s row)
  then have "Detached row \<in> set (puts s)" by (metis nth_mem)
  with detached_stores show ?case
    using unsent_split [of k "puts s"] set_remove_nth [of k "puts s"]
    by (auto simp: conserved_def stored_roles_snoc put_store_def intro: subset_mset.trans)
qed (auto simp: conserved_def stored_roles_snoc put_store_def unsent_split dest: set_remove_nth [THEN subsetD])

lemma conserved_steps:
  assumes "steps (task_step L J token K S) s0 log s" "live_inv base [] s0" "conserved L J [] s0"
  shows "conserved L J log s"
proof -
  have "live_inv base log s \<and> conserved L J log s"
    using assms(1)
  proof (rule steps_log)
    fix log s l s' assume step: "task_step L J token K S s l s'" and inv: "live_inv base log s \<and> conserved L J log s"
    then have "ctl_open (sys_gateway s)" by (simp add: live_inv_def)
    with step inv show "live_inv base (log @ [l]) s' \<and> conserved L J (log @ [l]) s'"
      using live_inv_step conserved_step by blast
  qed (use assms(2,3) in simp)
  then show ?thesis ..
qed

text \<open>C37 (the live roles of the running Gateway): however writes overlap, callers leave and the embedded Guard turns, the roles of every peer
  are those of the configurations the Gateway was started with, overwritten in order by the commands the Guard has taken, which
  are the first of those sent; at most 64 wait in the channel. No command is invented or sent twice: counted with those that the writes in
  flight have still to send, the commands sent are among the roles of the configurations stored, and all of them are there if no caller
  left. The loop of the Guard never returns, and by its turns alone it can take all that was sent.\<close>

theorem live_roles_follow_the_writes:
  assumes "gateway_main L J parse_socket H sw open_db tick = Some G"
    and "steps (task_step L J token K S) (tasks_start S G) log s"
  shows "\<exists>rows cfgs. open_db (database_url (gl_config G)) = Inr rows \<and> map (from_row J) rows = map Some cfgs \<and>
    roles (whitelist (authenticator (sys_guard s))) p = map_of (rev (given L cfgs @ take (taken s) (relayed log))) p \<and>
    taken s \<le> length (relayed log) \<and> length (relayed log) \<le> taken s + 64 \<and>
    mset (relayed log) + mset (unsent (puts s)) \<subseteq># mset (stored_roles L J log) \<and>
    (list_all (\<lambda>l. \<not> is_drop l) log \<longrightarrow> mset (relayed log) + mset (unsent (puts s)) = mset (stored_roles L J log)) \<and>
    \<not> returned (sys_guard s) \<and>
    (\<exists>log' s'. steps (task_step L J token K S) s log' s' \<and> list_all is_turn log' \<and>
       roles (whitelist (authenticator (sys_guard s'))) p = map_of (rev (given L cfgs @ relayed log)) p)"
proof -
  from assms(1) obtain rows cfgs where start: "open_db (database_url (gl_config G)) = Inr rows" "map (from_row J) rows = map Some cfgs"
    "gl_authenticator G = authenticator_new (fold (\<lambda>(p, rs). allow p rs) (given L cfgs) whitelist_new)"
    "gl_state G = gateway_state (gl_config G) rows (unix_now tick)"
    by (rule gateway_main_Some)
  note inv0 = live_inv_start [OF start(3,4), of S]
  have inv: "live_inv (given L cfgs) log s" by (rule live_and_owed(1) [OF assms(2) inv0]) simp
  have up: "guard_up s" by (rule guard_up_steps [OF assms(2) inv0 guard_up_start])
  have "conserved L J [] (tasks_start S G)"
    by (simp add: conserved_def start(4) gateway_state_def stored_roles_def)
  from conserved_steps [OF assms(2) inv0 this] have count: "conserved L J log s" .
  from drain_channel [OF up inv, of L J token K S] obtain log' s' where on: "steps (task_step L J token K S) s log' s'" "list_all is_turn log'"
    "live_inv (given L cfgs) (log @ log') s'" "taken s' = length (sent (sys_gateway s'))" by blast
  have "roles (whitelist (authenticator (sys_guard s'))) p = map_of (rev (given L cfgs @ relayed log)) p"
    using on(3,4) turns_only [OF on(2)] by (simp add: live_inv_def)
  with inv up count start(1,2) on(1,2) show ?thesis
    by (auto simp: live_inv_def guard_up_def conserved_def GUARD_CONTROL_CHANNEL_CAPACITY_def)
qed

text \<open>C38 (no finished write is lost): writes may overlap in any way, with each other and with the turns of the Guard. If no caller leaves,
  the system can always come to rest: every write answered, every command taken. When it rests, each role of each configuration
  that was stored has been sent to the Guard after it was stored, and the live roles of its peer are those sent last since then. (Two
  overlapping writes of one uuid may be sent in the other order than they were stored, so the roles sent last may be
  those of the row that was overwritten.)\<close>

theorem finished_writes_are_live:
  assumes "gateway_main L J parse_socket H sw open_db tick = Some G"
    and "steps (task_step L J token K S) (tasks_start S G) (l1 @ Stored row # l2) s"
    and "list_all (\<lambda>l. \<not> is_drop l) (l1 @ Stored row # l2)"
    and "from_row J row = Some cfg" "(p, rs) \<in> set (roles_for_config L cfg)"
  shows "(\<exists>log' s'. steps (task_step L J token K S) s log' s' \<and> list_all (\<lambda>l. \<not> is_drop l) log' \<and> quiet s') \<and>
    (quiet s \<longrightarrow> Sent (Allow p rs) \<in> set l2 \<and>
       roles (whitelist (authenticator (sys_guard s))) p = map_of (rev (relayed l2)) p \<and>
       roles (whitelist (authenticator (sys_guard s))) p \<noteq> None)"
proof -
  obtain base where start: "live_inv base [] (tasks_start S G)"
    using assms(1) by (rule gateway_main_Some) (rule that, rule live_inv_start)
  note inv = live_and_owed [OF assms(2) start]
  have "Sent (Allow p rs) \<in> set l2 \<and>
       roles (whitelist (authenticator (sys_guard s))) p = map_of (rev (relayed l2)) p \<and>
       roles (whitelist (authenticator (sys_guard s))) p \<noteq> None" if rest: "quiet s"
  proof -
    have sent: "Sent (Allow p rs) \<in> set l2"
      using inv(2) assms(3-5) rest unfolding owed_def quiet_def by (metis empty_iff empty_set tasks_start_sel(3))
    then have "p \<in> fst ` set (relayed l2)" by (force simp: relayed_def)
    then have "map_of (rev (relayed l2)) p \<noteq> None" by (simp add: map_of_eq_None_iff)
    moreover have "roles (whitelist (authenticator (sys_guard s))) = map_of (rev (base @ relayed l1 @ relayed l2))"
      using inv(1) rest by (simp add: live_inv_def quiet_def)
    ultimately show ?thesis using sent by (auto simp: map_add_Some_iff map_add_def)
  qed
  moreover have "live_inv base (l1 @ Stored row # l2) s" using inv(1) by simp
  ultimately show ?thesis
    using settle [OF guard_up_steps [OF assms(2) start guard_up_start], of base _ L J token K S] unfolding quiet_def by blast
qed

lemma sample_accepted_put:
  "accepted_put sample_lib sample_json token (sample_call AdminPort PUT (Some (''Bearer '' @ token))) = Some (''A'', sample_input)"
proof -
  have "put_check sample_lib ''A'' sample_input = Inr ()"
    by (simp add: put_check_def validate_input_def sample_input_def sample_lib_def)
  then show ?thesis by (simp add: accepted_put_def sample_call_def admin_route_def require_bearer_iff Let_def) (simp add: sample_json_def)
qed

lemma sample_row:
  obtains cfg where "from_row sample_json (put_row sample_json (Some 5) ''A'' sample_input) = Some cfg"
    "roles_for_config sample_lib cfg = [(PeerId [1], [ROLE_GUARD, ROLE_CLIENT]), (PeerId [2], [ROLE_CLIENT])]"
  by (rule that)
    (auto simp: put_row_def from_into_row [OF sample_json_ok] roles_for_config_def map_filter_simps sample_input_def sample_lib_def)

text \<open>The Gateway that started with \<open>A\<close> alone stores a new \<open>A\<close>, which names \<open>B\<close>.\<close>

theorem finished_writes_are_live_witness:
  "\<exists>(G :: bytes gateway_launch) log s. gateway_main sample_lib sample_json (\<lambda>_. Inr (V4 0, 8088)) sample_gateway_host sample_swarm
      (\<lambda>_. Inr [row_of config_A]) None = Some G \<and>
     steps (task_step sample_lib sample_json (admin_token (gl_config G)) sample_keys sample_sems) (tasks_start sample_sems G) log s \<and>
     quiet s \<and> roles (whitelist (authenticator (sys_guard s))) (PeerId [2]) \<noteq> None"
proof -
  obtain G where G: "gateway_main sample_lib sample_json (\<lambda>_. Inr (V4 0, 8088)) sample_gateway_host sample_swarm
      (\<lambda>_. Inr [row_of config_A]) None = Some G" by (rule sample_gateway_A)
  let ?tok = "admin_token (gl_config G)"
  let ?R = "task_step sample_lib sample_json ?tok sample_keys sample_sems"
  let ?s0 = "tasks_start sample_sems G :: nat gateway_tasks"
  define put where "put = sample_call AdminPort PUT (Some (''Bearer '' @ ?tok))"
  define row where "row = put_row sample_json (Some 5) ''A'' sample_input"
  obtain cfg where cfg: "from_row sample_json row = Some cfg"
    "roles_for_config sample_lib cfg = [(PeerId [1], [ROLE_GUARD, ROLE_CLIENT]), (PeerId [2], [ROLE_CLIENT])]"
    using sample_row unfolding row_def by blast
  let ?s1 = "?s0\<lparr>puts := [Storing put row]\<rparr>"
  let ?s2 = "?s1\<lparr>sys_gateway := put_store row (sys_gateway ?s1), puts := [Sending put cfg (roles_for_config sample_lib cfg)]\<rparr>"
  have 1: "?R ?s0 (Arrives put) ?s1"
    using task_step.arrives [OF sample_accepted_put [of ?tok], of sample_keys sample_sems ?s0] by (simp add: put_def row_def sample_call_def)
  have 2: "?R ?s1 (Stored row) ?s2"
    using task_step.stores [of 0 ?s1 put row, OF _ _ cfg(1)] by simp
  from 1 2 have run: "steps ?R ?s0 ([Arrives put] @ Stored row # []) ?s2" by auto
  have b: "(PeerId [2], [ROLE_CLIENT]) \<in> set (roles_for_config sample_lib cfg)" by (simp add: cfg(2))
  from finished_writes_are_live [OF G run _ cfg(1) b] obtain log' s' where
    rest: "steps ?R ?s2 log' s'" "list_all (\<lambda>l. \<not> is_drop l) log'" "quiet s'" by auto
  with run have run': "steps ?R ?s0 ([Arrives put] @ Stored row # log') s'" by auto
  from finished_writes_are_live [OF G run' _ cfg(1) b] rest(2,3) have "roles (whitelist (authenticator (sys_guard s'))) (PeerId [2]) \<noteq> None"
    by fastforce
  with G run' rest(3) show ?thesis by blast
qed

text \<open>The same Gateway and the same write: once the Guard has turned, the roles are those of the row that was stored.\<close>

theorem live_roles_follow_the_writes_witness:
  "\<exists>(G :: bytes gateway_launch) log s. gateway_main sample_lib sample_json (\<lambda>_. Inr (V4 0, 8088)) sample_gateway_host sample_swarm
      (\<lambda>_. Inr [row_of config_A]) None = Some G \<and>
     steps (task_step sample_lib sample_json (admin_token (gl_config G)) sample_keys sample_sems) (tasks_start sample_sems G) log s \<and>
     relayed log = [(PeerId [1], [ROLE_GUARD, ROLE_CLIENT]), (PeerId [2], [ROLE_CLIENT])] \<and>
     roles (whitelist (authenticator (sys_guard s))) (PeerId [2]) = Some [ROLE_CLIENT]"
proof -
  obtain G where G: "gateway_main sample_lib sample_json (\<lambda>_. Inr (V4 0, 8088)) sample_gateway_host sample_swarm
      (\<lambda>_. Inr [row_of config_A]) None = Some G" by (rule sample_gateway_A)
  let ?tok = "admin_token (gl_config G)"
  let ?R = "task_step sample_lib sample_json ?tok sample_keys sample_sems"
  let ?s0 = "tasks_start sample_sems G :: nat gateway_tasks"
  define put where "put = sample_call AdminPort PUT (Some (''Bearer '' @ ?tok))"
  define row where "row = put_row sample_json (Some 5) ''A'' sample_input"
  let ?both = "[(PeerId [1], [ROLE_GUARD, ROLE_CLIENT]), (PeerId [2], [ROLE_CLIENT])]"
  obtain cfg where cfg: "from_row sample_json row = Some cfg" "roles_for_config sample_lib cfg = ?both"
    using sample_row unfolding row_def by blast
  let ?s1 = "?s0\<lparr>puts := [Storing put row]\<rparr>"
  let ?s2 = "?s1\<lparr>sys_gateway := put_store row (sys_gateway ?s1), puts := [Sending put cfg ?both]\<rparr>"
  let ?s3 = "?s2\<lparr>sys_gateway := send_control (Allow (PeerId [1]) [ROLE_GUARD, ROLE_CLIENT]) (sys_gateway ?s2),
    puts := [Sending put cfg [(PeerId [2], [ROLE_CLIENT])]]\<rparr>"
  let ?s4 = "?s3\<lparr>sys_gateway := send_control (Allow (PeerId [2]) [ROLE_CLIENT]) (sys_gateway ?s3), puts := [Sending put cfg []]\<rparr>"
  obtain c rows now where gl: "gl_state G = gateway_state c rows now" using G by (rule gateway_main_Some) blast
  have 1: "?R ?s0 (Arrives put) ?s1"
    using task_step.arrives [OF sample_accepted_put [of ?tok], of sample_keys sample_sems ?s0] by (simp add: put_def row_def sample_call_def)
  have 2: "?R ?s1 (Stored row) ?s2"
    using task_step.stores [of 0 ?s1 put row, OF _ _ cfg(1), of sample_lib ?tok sample_keys sample_sems] by (simp add: cfg(2))
  have 3: "?R ?s2 (Sent (Allow (PeerId [1]) [ROLE_GUARD, ROLE_CLIENT])) ?s3"
    using task_step.sends [of 0 ?s2 put cfg "PeerId [1]" "[ROLE_GUARD, ROLE_CLIENT]" "[(PeerId [2], [ROLE_CLIENT])]"]
    by (simp add: put_store_def gl gateway_state_def GUARD_CONTROL_CHANNEL_CAPACITY_def)
  have 4: "?R ?s3 (Sent (Allow (PeerId [2]) [ROLE_CLIENT])) ?s4"
    using task_step.sends [of 0 ?s3 put cfg "PeerId [2]" "[ROLE_CLIENT]" "[]"]
    by (simp add: put_store_def send_control_def gl gateway_state_def GUARD_CONTROL_CHANNEL_CAPACITY_def)
  let ?log = "[Arrives put, Stored row, Sent (Allow (PeerId [1]) [ROLE_GUARD, ROLE_CLIENT]), Sent (Allow (PeerId [2]) [ROLE_CLIENT])]"
  from 1 2 3 4 have run: "steps ?R ?s0 ?log ?s4" unfolding steps.simps by blast
  from live_roles_follow_the_writes [OF G run, of "PeerId [2]"] obtain log' s' where
    on: "steps ?R ?s4 log' s'" "list_all is_turn log'" "roles (whitelist (authenticator (sys_guard s'))) (PeerId [2]) = Some [ROLE_CLIENT]"
    by auto
  have "steps ?R ?s0 (?log @ log') s'" unfolding steps_append using run on(1) by blast
  moreover have "relayed (?log @ log') = ?both" using turns_only [OF on(2)] by simp
  ultimately show ?thesis using G on(3) by blast
qed

text \<open>A caller that leaves while its row is written: the row is stored, and the Guard never hears of it.\<close>

lemma dropped_write_is_not_heard:
  assumes "accepted_put L J token c = Some (u, i)" "puts s = []"
  defines "row \<equiv> put_row J (call_tick c) u i"
  shows "\<exists>s'. steps (task_step L J token K S) s [Arrives c, Drops c, Stored row] s' \<and> puts s' = [] \<and>
    db_rows (sys_gateway s') = upsert row (db_rows (sys_gateway s)) \<and> sent (sys_gateway s') = sent (sys_gateway s) \<and>
    sys_guard s' = sys_guard s"
proof -
  let ?R = "task_step L J token K S"
  let ?s1 = "s\<lparr>puts := [Storing c row]\<rparr>" and ?s2 = "s\<lparr>puts := [Detached row]\<rparr>"
  let ?s3 = "s\<lparr>sys_gateway := put_store row (sys_gateway s), puts := []\<rparr>"
  have "?R s (Arrives c) ?s1" using task_step.arrives [OF assms(1), of K S s] assms(2) by (simp add: row_def)
  moreover have "?R ?s1 (Drops c) ?s2" using task_step.drops_storing [of 0 ?s1 c row L J token K S] by simp
  moreover have "?R ?s2 (Stored row) ?s3" using task_step.detached_stores [of 0 ?s2 row L J token K S] by (simp add: remove_nth_def)
  ultimately have "steps ?R s [Arrives c, Drops c, Stored row] ?s3" by auto
  then show ?thesis by (intro exI [of _ ?s3]) (simp add: put_store_def)
qed

end
