(* ===== verification/Gateway_Database.thy ===== *)
theory Gateway_Database imports Gateway_Start begin

text \<open>
  The database and the servers under the Gateway: \<^verbatim>\<open>nux_gateway/src/db/database.rs\<close> and \<open>serve\<close> of \<^verbatim>\<open>nux_gateway/src/main.rs\<close>. diesel is a
  parameter, over its pools \<open>'p\<close> and connections \<open>'c\<close>; so are the sockets. This is what the arguments \<open>open_db\<close> of \<open>gateway_main\<close> and
  \<open>db_fails\<close> of the handlers stand for.
\<close>

section \<open>The database\<close>

record ('p, 'c) db_lib =
  db_pool :: "string \<Rightarrow> string + 'p"
  db_get :: "'p \<Rightarrow> string + 'c"
  db_migrate :: "'c \<Rightarrow> string + 'c"
  db_load :: "'p \<Rightarrow> 'c \<Rightarrow> string + config_row list"

definition build_pool :: "('p, 'c) db_lib \<Rightarrow> string \<Rightarrow> string + 'p" where
  "build_pool D url =
     and_then (map_err (\<lambda>e. ''pool SQLite: '' @ e) (db_pool D url)) (\<lambda>pool.
     and_then (map_err (\<lambda>e. ''connexion SQLite initiale: '' @ e) (db_get D pool)) (\<lambda>conn.
     and_then (map_err (\<lambda>e. ''migrations: '' @ e) (db_migrate D conn)) (\<lambda>_. Inr pool)))"

definition get_conn :: "('p, 'c) db_lib \<Rightarrow> 'p \<Rightarrow> app_error + 'c" where
  "get_conn D pool = map_err (\<lambda>_. Internal) (db_get D pool)"

text \<open>The pool and the first reading of the table; both failures end the process.\<close>

definition open_database :: "('p, 'c) db_lib \<Rightarrow> string \<Rightarrow> string + config_row list" where
  "open_database D url =
     and_then (build_pool D url) (\<lambda>pool. and_then (db_get D pool) (\<lambda>conn. db_load D pool conn))"

text \<open>No Gateway starts on a database whose migrations did not run.\<close>

lemma gateway_starts_migrated:
  assumes "gateway_main L J parse_socket H sw (open_database D) tick = Some G"
  obtains pool conn conn' where "build_pool D (database_url (gl_config G)) = Inr pool" "db_get D pool = Inr conn" "db_migrate D conn = Inr conn'"
proof -
  from assms obtain rows where "open_database D (database_url (gl_config G)) = Inr rows"
    by (auto simp: gateway_main_def split: sum.splits option.splits)
  with that show thesis by (auto simp: open_database_def build_pool_def result_iffs)
qed

section \<open>The servers\<close>

datatype server = Serving socket_addr | ProcessExits int

definition serve :: "(socket_addr \<Rightarrow> string + unit) \<Rightarrow> socket_addr \<Rightarrow> server" where
  "serve bind addr = (case bind addr of Inl _ \<Rightarrow> ProcessExits 1 | Inr _ \<Rightarrow> Serving addr)"

text \<open>The three servers of a configuration. Binding an address again fails, so \<open>taken\<close> lists those that are bound.\<close>

definition bind_free :: "(socket_addr \<Rightarrow> string + unit) \<Rightarrow> socket_addr list \<Rightarrow> socket_addr \<Rightarrow> string + unit" where
  "bind_free bind taken addr = (if addr \<in> set taken then Inl ''address in use'' else bind addr)"

fun serve_all :: "(socket_addr \<Rightarrow> string + unit) \<Rightarrow> socket_addr list \<Rightarrow> socket_addr list \<Rightarrow> socket_addr list option" where
  "serve_all bind taken [] = Some taken"
| "serve_all bind taken (a # as) = (case serve (bind_free bind taken) a of
       ProcessExits _ \<Rightarrow> None
     | Serving a \<Rightarrow> serve_all bind (taken @ [a]) as)"

definition gateway_addresses :: "gateway_config \<Rightarrow> socket_addr list" where
  "gateway_addresses c = [admin_addr c, (LOCALHOST, guard_port c), (LOCALHOST, client_port c)]"

lemma serve_all_Some:
  "serve_all bind taken as = Some bound \<longleftrightarrow>
     bound = taken @ as \<and> distinct as \<and> set taken \<inter> set as = {} \<and> (\<forall>a \<in> set as. bind a = Inr ())"
  by (induction as arbitrary: taken) (auto simp: serve_def bind_free_def split: sum.splits)

text \<open>The Gateway stays up exactly when all three of its ports are its own, and in particular different.\<close>

lemma gateway_keeps_serving_iff:
  "serve_all bind [] (gateway_addresses c) = Some bound \<longleftrightarrow>
     bound = gateway_addresses c \<and> distinct (gateway_addresses c) \<and> (\<forall>a \<in> set (gateway_addresses c). bind a = Inr ())"
  by (simp add: serve_all_Some)

end
