(* ===== verification/Gateway_Race.thy ===== *)
theory Gateway_Race imports Gateway_Limit begin

text \<open>
  The limiter of \<^verbatim>\<open>nux_gateway/src/rate_limit.rs\<close> under concurrent requests. \<open>Gateway_Limit\<close> takes a call of \<open>allow\<close> at once; here each of its
  atomic operations is a step, and the steps of any number of calls interleave. The clock is read before the first. (The orderings are
  \<^verbatim>\<open>Relaxed\<close>: a machine that reorders the two stores allows still more interleavings than these.)
\<close>

section \<open>One call\<close>

text \<open>Where a call is: it has read the clock; it has found the window over and will store the new start; it will reset the counter; it
  will count itself; it is decided. \<open>over\<close> remembers what it found.\<close>

datatype allow_pc = Called u64 | Over u64 | Resetting | Counting (over: bool) | Decided (over: bool) bool

fun allow_move :: "allow_pc \<Rightarrow> window_limiter \<Rightarrow> allow_pc \<times> window_limiter" where
  "allow_move (Called now) W = (if saturating_sub now (window_start W) \<ge> wl_window_secs W then Over now else Counting False, W)"
| "allow_move (Over now) W = (Resetting, W\<lparr>window_start := now\<rparr>)"
| "allow_move Resetting W = (Counting True, W\<lparr>count := 0\<rparr>)"
| "allow_move (Counting b) W = (Decided b (count W < wl_max W), W\<lparr>count := count W + 1\<rparr>)"
| "allow_move (Decided b ok) W = (Decided b ok, W)"

text \<open>Alone, a call is \<open>window_allow\<close>.\<close>

lemma alone_is_window_allow:
  "\<exists>b. ((\<lambda>(pc, W). allow_move pc W) ^^ 4) (Called now, W) = (Decided b (fst (window_allow now W)), snd (window_allow now W))"
  by (auto simp: eval_nat_numeral window_allow_def Let_def)

section \<open>Interleaved calls\<close>

record race =
  race_limiter :: window_limiter
  race_calls :: "allow_pc list"

datatype race_label = NewCall u64 | Moves nat

fun race_step :: "race_label \<Rightarrow> race \<Rightarrow> race" where
  "race_step (NewCall now) s = s\<lparr>race_calls := race_calls s @ [Called now]\<rparr>"
| "race_step (Moves k) s =
     (if k < length (race_calls s)
      then (let (pc, W) = allow_move (race_calls s ! k) (race_limiter s)
            in s\<lparr>race_limiter := W, race_calls := (race_calls s)[k := pc]\<rparr>)
      else s)"

definition race_start :: "u32 \<Rightarrow> u64 \<Rightarrow> u64 \<Rightarrow> race" where
  "race_start m w now = \<lparr>race_limiter = window_limiter_new m w now, race_calls = []\<rparr>"

fun decided :: "allow_pc \<Rightarrow> bool" where
  "decided (Decided _ _) = True"
| "decided _ = False"

fun let_through :: "allow_pc \<Rightarrow> bool" where
  "let_through (Decided _ ok) = ok"
| "let_through _ = False"

fun has_reset :: "allow_pc \<Rightarrow> bool" where
  "has_reset (Counting b) = b"
| "has_reset (Decided b _) = b"
| "has_reset _ = False"

text \<open>The calls that found the window over.\<close>

fun found_over :: "allow_pc \<Rightarrow> bool" where
  "found_over (Over _) = True"
| "found_over Resetting = True"
| "found_over pc = has_reset pc"

abbreviation how_many :: "('a \<Rightarrow> bool) \<Rightarrow> 'a list \<Rightarrow> nat" where
  "how_many P xs \<equiv> length (filter P xs)"

lemma how_many_update:
  "k < length xs \<Longrightarrow> how_many P (xs[k := x]) + (if P (xs ! k) then 1 else 0) = how_many P xs + (if P x then 1 else 0)"
proof (induction xs arbitrary: k)
  case (Cons y ys)
  then show ?case by (cases k) auto
qed simp

lemma how_many_mono: "(\<And>x. P x \<Longrightarrow> Q x) \<Longrightarrow> how_many P xs \<le> how_many Q xs"
  by (induction xs) auto

section \<open>The invariant\<close>

text \<open>The room left in the counter and the calls let through add up to at most one limit for the start and one for each reset.\<close>

definition race_inv :: "u32 \<Rightarrow> race \<Rightarrow> bool" where
  "race_inv m s \<longleftrightarrow> wl_max (race_limiter s) = m \<and>
     (length (race_calls s) < 2 ^ 32 \<longrightarrow>
        unat (count (race_limiter s)) \<le> how_many decided (race_calls s) \<and>
        how_many let_through (race_calls s) + (unat m - unat (count (race_limiter s))) \<le>
          unat m * Suc (how_many has_reset (race_calls s)))"

lemma race_inv_start: "race_inv m (race_start m w now)"
  by (simp add: race_inv_def race_start_def window_limiter_new_def)

lemma race_inv_step:
  assumes "race_inv m s"
  shows "race_inv m (race_step l s)"
proof (cases l)
  case (NewCall now)
  with assms show ?thesis by (auto simp: race_inv_def)
next
  case (Moves k)
  show ?thesis
  proof (cases "k < length (race_calls s)")
    case k: True
    let ?pc = "race_calls s ! k" and ?W = "race_limiter s"
    note upd = how_many_update [OF k, of decided] how_many_update [OF k, of let_through] how_many_update [OF k, of has_reset]
    show ?thesis
    proof (cases ?pc)
      case (Called now)
      with assms k upd(1-3) [of "Over now"] upd(1-3) [of "Counting False"] Moves show ?thesis
        by (auto simp: race_inv_def Let_def split: if_splits)
    next
      case (Over now)
      with assms k upd(1-3) [of Resetting] Moves show ?thesis by (auto simp: race_inv_def Let_def)
    next
      case Resetting
      with assms k upd(1-3) [of "Counting True"] Moves show ?thesis by (auto simp: race_inv_def Let_def)
    next
      case (Counting b)
      have some: "how_many decided (race_calls s) < length (race_calls s)"
      proof -
        have "how_many decided (race_calls s) + how_many (\<lambda>pc. \<not> decided pc) (race_calls s) = length (race_calls s)"
          by (rule sum_length_filter_compl)
        moreover have "?pc \<in> set (filter (\<lambda>pc. \<not> decided pc) (race_calls s))" using nth_mem [OF k] Counting by auto
        then have "how_many (\<lambda>pc. \<not> decided pc) (race_calls s) > 0" by (metis length_pos_if_in_set)
        ultimately show ?thesis by linarith
      qed
      have count: "unat (count ?W + 1) = Suc (unat (count ?W))" if "length (race_calls s) < 2 ^ 32"
      proof -
        have "unat (count ?W) < 2 ^ 32 - 1" using assms that some by (auto simp: race_inv_def)
        then show ?thesis by (simp add: unat_word_ariths)
      qed
      from assms k upd(1-3) [of "Decided b (count ?W < wl_max ?W)"] Moves Counting count show ?thesis
        by (auto simp: race_inv_def Let_def word_less_nat_alt)
    next
      case (Decided b ok)
      have "(race_calls s)[k := ?pc] = race_calls s" by simp
      with assms k Moves Decided show ?thesis by (simp add: race_inv_def Let_def)
    qed
  qed (use assms Moves in simp)
qed

interpretation race: machine race_step "race_inv m" "\<lambda>_. True" for m
  by unfold_locales (rule race_inv_step)

section \<open>Property\<close>

lemma has_reset_found_over: "has_reset pc \<Longrightarrow> found_over pc"
  by (cases pc) simp_all

text \<open>C40 (the limiter under races): whatever the interleaving of the atomic operations of concurrent calls, as long as there are fewer than
  \<open>2 ^ 32\<close> of them, at most one limit of requests is let through for the start and one more for each call that found the window over:
  calls that race at the change of a window may each open it again. And a call that runs alone, after any such run, decides as
  \<open>window_allow\<close> does.\<close>

theorem racing_requests_bounded:
  assumes "s = fold race_step sched (race_start m w t0)"
  shows "(length (race_calls s) < 2 ^ 32 \<longrightarrow>
      how_many let_through (race_calls s) \<le> unat m * Suc (how_many found_over (race_calls s))) \<and>
    (let n = length (race_calls s); s' = fold race_step [NewCall now, Moves n, Moves n, Moves n, Moves n] s in
      let_through (race_calls s' ! n) = fst (window_allow now (race_limiter s)) \<and> race_limiter s' = snd (window_allow now (race_limiter s)))"
proof
  have "race_inv m s" unfolding assms by (rule race.inv_run) (simp_all add: race_inv_start)
  moreover have "unat m * Suc (how_many has_reset (race_calls s)) \<le> unat m * Suc (how_many found_over (race_calls s))"
    using how_many_mono [of has_reset found_over "race_calls s"] has_reset_found_over by (intro mult_le_mono2) blast
  ultimately show "length (race_calls s) < 2 ^ 32 \<longrightarrow>
      how_many let_through (race_calls s) \<le> unat m * Suc (how_many found_over (race_calls s))"
    unfolding race_inv_def by linarith
next
  show "let n = length (race_calls s); s' = fold race_step [NewCall now, Moves n, Moves n, Moves n, Moves n] s in
      let_through (race_calls s' ! n) = fst (window_allow now (race_limiter s)) \<and> race_limiter s' = snd (window_allow now (race_limiter s))"
    by (simp add: Let_def window_allow_def nth_append list_update_append split: prod.split)
qed

text \<open>A limit of one: two calls find the window over at the instant 60, and two requests of that window are let through.\<close>

definition racing :: "race_label list" where
  "racing = [NewCall 60, NewCall 60, Moves 0, Moves 1, Moves 0, Moves 0, Moves 0, Moves 1, Moves 1, Moves 1]"

lemma racing_run: "race_calls (fold race_step racing (race_start 1 60 0)) = [Decided True True, Decided True True]"
  by (simp add: racing_def race_start_def window_limiter_new_def saturating_sub_def)

theorem racing_requests_bounded_witness:
  "how_many let_through (race_calls (fold race_step racing (race_start 1 60 0))) = 2 \<and>
   how_many let_through (race_calls (fold race_step racing (race_start 1 60 0))) \<le>
     Suc (how_many found_over (race_calls (fold race_step racing (race_start 1 60 0))))"
  using racing_requests_bounded [OF refl, where sched = racing and m = 1 and w = 60 and ?t0.0 = 0, THEN conjunct1]
  by (simp add: racing_run)

text \<open>The comment of the source says that a race never lets fewer requests through. With a limit of two, used up in the window that ends at 60:
  a call finds it over and stores the new start; two requests then find the window young and the counter still full and are refused; the
  counter is reset, and one request in all is let through in the new window.\<close>

lemma race_refuses_below_the_limit:
  "race_calls (fold race_step ([NewCall 0, NewCall 0] @ [Moves 0, Moves 0, Moves 1, Moves 1] @
       [NewCall 60, Moves 2, Moves 2] @ [NewCall 60, Moves 3, Moves 3, NewCall 60, Moves 4, Moves 4] @ [Moves 2, Moves 2]) (race_start 2 60 0)) =
     [Decided False True, Decided False True, Decided True True, Decided False False, Decided False False]"
  by (simp add: race_start_def window_limiter_new_def saturating_sub_def)

end
