(* ===== verification/Constant_Time.thy ===== *)
theory Constant_Time imports Gateway_Store begin

text \<open>
  What an observer of the running time can learn from the four secret comparisons of the program: the lookup in the whitelist
  (\<^verbatim>\<open>core/auth/whitelist.rs\<close>), the required role and the hash of the binary (\<^verbatim>\<open>core/tunnel/mod.rs\<close>), the admin token
  (\<^verbatim>\<open>gw/api/auth.rs\<close>). Each is modelled again with the trace of what takes time: a test of two lengths, a comparison by
  \<^verbatim>\<open>constant_time_eq\<close>, which takes a time that depends on the length alone, a copy of roles. Erasing the trace gives the function
  of the other theories.
\<close>

section \<open>The functions with their traces\<close>

datatype leak = Lengths nat nat | Compared nat | Cloned nat

definition compare_leak :: "'a list \<Rightarrow> 'a list \<Rightarrow> bool \<times> leak list" where
  "compare_leak a b =
     (if length a = length b then (a = b, [Lengths (length a) (length b), Compared (length a)])
      else (False, [Lengths (length a) (length b)]))"

fun roles_loop_leak :: "bytes \<Rightarrow> nat \<Rightarrow> (peer_id \<times> role list) list \<Rightarrow> nat option \<Rightarrow> nat option \<times> leak list" where
  "roles_loop_leak needle index [] found = (found, [])"
| "roles_loop_leak needle index ((candidate, _) # es) found =
     (let (matches, obs) = compare_leak (to_bytes candidate) needle;
          (res, more_obs) = roles_loop_leak needle (Suc index) es (if matches then Some index else found)
      in (res, obs @ more_obs))"

definition roles_leak :: "whitelist \<Rightarrow> peer_id \<Rightarrow> role list option \<times> leak list" where
  "roles_leak w peer = (case roles_loop_leak (to_bytes peer) 0 (entries w) None of
       (None, obs) \<Rightarrow> (None, obs)
     | (Some index, obs) \<Rightarrow> (let rs = snd (entries w ! index) in (Some rs, obs @ [Cloned (sum_list (map length rs))])))"

fun role_loop_leak :: "string \<Rightarrow> role list \<Rightarrow> bool \<Rightarrow> bool \<times> leak list" where
  "role_loop_leak wanted [] authorized = (authorized, [])"
| "role_loop_leak wanted (r # rs) authorized =
     (let (matches, obs) = compare_leak r wanted;
          (res, more_obs) = role_loop_leak wanted rs (if matches then True else authorized)
      in (res, obs @ more_obs))"

definition role_granted_leak :: "role list \<Rightarrow> role option \<Rightarrow> bool \<times> leak list" where
  "role_granted_leak session wanted = (case wanted of None \<Rightarrow> (True, []) | Some r \<Rightarrow> role_loop_leak r session False)"

text \<open>The two hashes are arrays of 32 bytes: their lengths are not tested.\<close>

definition checksum_leak :: "tunnel_registry \<Rightarrow> peer_id \<Rightarrow> tunnel_header \<Rightarrow> bool \<times> leak list" where
  "checksum_leak reg peer header = (case expected_binary_sha256 reg peer of
       None \<Rightarrow> (True, [])
     | Some expected \<Rightarrow> (binary_sha256 header = expected, [Compared SHA256_LEN]))"

definition bearer_leak :: "string \<Rightarrow> http_request \<Rightarrow> bool \<times> leak list" where
  "bearer_leak expected req = (case req_authorization req of
       None \<Rightarrow> (False, [])
     | Some v \<Rightarrow> if prefix ''Bearer '' v then compare_leak (drop 7 v) expected else (False, []))"

section \<open>Erasing the traces\<close>

lemma fst_compare_leak [simp]: "fst (compare_leak a b) \<longleftrightarrow> a = b"
  by (auto simp: compare_leak_def)

lemma same_length: "length a = length b \<and> a = b \<longleftrightarrow> a = b"
  by auto

lemma snd_compare_leak: "length a = length a' \<Longrightarrow> length b = length b' \<Longrightarrow> snd (compare_leak a b) = snd (compare_leak a' b')"
  by (simp add: compare_leak_def)

lemma roles_loop_leak_simp:
  "fst (roles_loop_leak needle i es found) = roles_loop needle i es found"
  "snd (roles_loop_leak needle i es found) = concat (map (\<lambda>(c, _). snd (compare_leak (to_bytes c) needle)) es)"
  by (induction es arbitrary: i found) (auto simp: Let_def case_prod_beta same_length)

lemma role_loop_leak_simp:
  "fst (role_loop_leak wanted rs b) = role_loop wanted rs b"
  "snd (role_loop_leak wanted rs b) = concat (map (\<lambda>r. snd (compare_leak r wanted)) rs)"
  by (induction rs arbitrary: b) (auto simp: Let_def case_prod_beta same_length)

lemma roles_leak_simp:
  "fst (roles_leak w p) = roles w p"
  "snd (roles_leak w p) = concat (map (\<lambda>(c, _). snd (compare_leak (to_bytes c) (to_bytes p))) (entries w)) @
     (case roles w p of None \<Rightarrow> [] | Some rs \<Rightarrow> [Cloned (sum_list (map length rs))])"
proof -
  obtain found obs where r: "roles_loop_leak (to_bytes p) 0 (entries w) None = (found, obs)" by fastforce
  with roles_loop_leak_simp [of "to_bytes p" 0 "entries w" None] have
    "roles_loop (to_bytes p) 0 (entries w) None = found"
    "obs = concat (map (\<lambda>(c, _). snd (compare_leak (to_bytes c) (to_bytes p))) (entries w))" by simp_all
  with r show "fst (roles_leak w p) = roles w p"
    "snd (roles_leak w p) = concat (map (\<lambda>(c, _). snd (compare_leak (to_bytes c) (to_bytes p))) (entries w)) @
     (case roles w p of None \<Rightarrow> [] | Some rs \<Rightarrow> [Cloned (sum_list (map length rs))])"
    by (auto simp: roles_leak_def roles_def Let_def split: option.split)
qed

lemma role_granted_leak_simp: "fst (role_granted_leak session wanted) = role_granted session wanted"
  by (simp add: role_granted_leak_def role_granted_def role_loop_leak_simp split: option.split)

lemma bearer_leak_simp: "fst (bearer_leak expected req) = require_bearer expected req"
  by (auto simp: bearer_leak_def require_bearer_def Let_def split: option.split)

lemma concat_compare:
  "map length xs = map length ys \<Longrightarrow> length b = length b' \<Longrightarrow>
     concat (map (\<lambda>x. snd (compare_leak x b)) xs) = concat (map (\<lambda>y. snd (compare_leak y b')) ys)"
proof (induction xs arbitrary: ys)
  case (Cons x xs)
  then obtain y ys' where "ys = y # ys'" "length x = length y" "map length xs = map length ys'" by (cases ys) auto
  with Cons show ?case using snd_compare_leak [of x y b b'] by simp
qed simp

definition comparisons :: "leak list \<Rightarrow> leak list" where
  "comparisons = filter (\<lambda>l. case l of Cloned _ \<Rightarrow> False | _ \<Rightarrow> True)"

lemma comparisons_compare [simp]: "comparisons (snd (compare_leak a b)) = snd (compare_leak a b)"
  by (simp add: comparisons_def compare_leak_def)

lemma comparisons_Nil [simp]: "comparisons [] = []"
  by (simp add: comparisons_def)

lemma comparisons_append [simp]: "comparisons (xs @ ys) = comparisons xs @ comparisons ys"
  by (simp add: comparisons_def)

lemma comparisons_concat: "comparisons (concat (map (\<lambda>x. snd (compare_leak (f x) b)) xs)) = concat (map (\<lambda>x. snd (compare_leak (f x) b)) xs)"
  by (induction xs) simp_all

lemma roles_comparisons:
  "comparisons (snd (roles_leak w p)) = concat (map (\<lambda>b. snd (compare_leak b (to_bytes p))) (map (to_bytes \<circ> fst) (entries w)))"
  using comparisons_concat [of "to_bytes \<circ> fst" "to_bytes p" "entries w"]
  by (simp add: roles_leak_simp comp_def split_def) (simp add: comparisons_def split: option.split)

section \<open>Property\<close>

definition id_lengths :: "whitelist \<Rightarrow> nat list" where
  "id_lengths w = map (\<lambda>(p, _). length (to_bytes p)) (entries w)"

text \<open>C12 (no secret in the time of a comparison): two whitelists whose entries have identities of the same lengths (those of Ed25519 keys all
  have) are told apart by no comparison of a lookup, whichever peer is looked up, present or not, first or last; when it is absent from both,
  by nothing at all. The same holds of the roles of a session against a required role, and of an
  admin token: nothing but lengths shows. And the comparison of hashes takes the same time whatever they are.\<close>

theorem comparisons_are_oblivious:
  shows "(id_lengths w = id_lengths w' \<and> length (to_bytes p) = length (to_bytes p') \<longrightarrow>
      comparisons (snd (roles_leak w p)) = comparisons (snd (roles_leak w' p')) \<and>
      (roles w p = None \<and> roles w' p' = None \<longrightarrow> snd (roles_leak w p) = snd (roles_leak w' p'))) \<and>
    (map length session = map length session' \<and> length r = length r' \<longrightarrow>
      snd (role_granted_leak session (Some r)) = snd (role_granted_leak session' (Some r'))) \<and>
    (length token = length token' \<longrightarrow> snd (bearer_leak token req) = snd (bearer_leak token' req)) \<and>
    snd (checksum_leak reg peer \<lparr>service = srv, binary_sha256 = h\<rparr>) = snd (checksum_leak reg peer \<lparr>service = srv, binary_sha256 = h'\<rparr>)"
proof (intro conjI impI)
  assume "id_lengths w = id_lengths w' \<and> length (to_bytes p) = length (to_bytes p')"
  then have same: "map length (map (to_bytes \<circ> fst) (entries w)) = map length (map (to_bytes \<circ> fst) (entries w'))"
    "length (to_bytes p) = length (to_bytes p')"
    by (simp_all add: id_lengths_def split_def comp_def)
  from concat_compare [OF this] show all: "comparisons (snd (roles_leak w p)) = comparisons (snd (roles_leak w' p'))"
    by (simp add: roles_comparisons)
  assume "roles w p = None \<and> roles w' p' = None"
  with concat_compare [OF same] show "snd (roles_leak w p) = snd (roles_leak w' p')"
    by (simp add: roles_leak_simp split_def comp_def)
next
  assume "map length session = map length session' \<and> length r = length r'"
  with concat_compare [of session session' r r'] show "snd (role_granted_leak session (Some r)) = snd (role_granted_leak session' (Some r'))"
    by (simp add: role_granted_leak_def role_loop_leak_simp)
next
  assume "length token = length token'"
  with snd_compare_leak [OF refl this] show "snd (bearer_leak token req) = snd (bearer_leak token' req)"
    by (simp add: bearer_leak_def split: option.split)
next
  show "snd (checksum_leak reg peer \<lparr>service = srv, binary_sha256 = h\<rparr>) = snd (checksum_leak reg peer \<lparr>service = srv, binary_sha256 = h'\<rparr>)"
    by (simp add: checksum_leak_def split: option.split)
qed

text \<open>A peer in the first place and a peer in the last.\<close>

theorem comparisons_are_oblivious_witness:
  "comparisons (snd (roles_leak (allow (PeerId [2]) [] (allow (PeerId [1]) [''admin''] whitelist_new)) (PeerId [1]))) =
   comparisons (snd (roles_leak (allow (PeerId [8]) [] (allow (PeerId [9]) [] whitelist_new)) (PeerId [8]))) \<and>
   snd (bearer_leak ''0123456789abcdef'' (call_request (sample_call AdminPort PUT (Some ''Bearer 0123456789abcdeX'')))) =
   snd (bearer_leak ''fedcba9876543210'' (call_request (sample_call AdminPort PUT (Some ''Bearer 0123456789abcdeX''))))"
proof -
  let ?w = "allow (PeerId [2]) [] (allow (PeerId [1]) [''admin''] whitelist_new)" and ?w' = "allow (PeerId [8]) [] (allow (PeerId [9]) [] whitelist_new)"
  have "id_lengths ?w = id_lengths ?w'" by (simp add: id_lengths_def allow_def whitelist_new_def)
  with comparisons_are_oblivious [of ?w ?w' "PeerId [1]" "PeerId [8]" "[]" "[]" "[]" "[]" "''0123456789abcdef''" "''fedcba9876543210''"
      "call_request (sample_call AdminPort PUT (Some ''Bearer 0123456789abcdeX''))"]
  show ?thesis by simp
qed

text \<open>The lookup copies the roles of a peer it finds, so its whole time does tell a listed peer from an unlisted one.\<close>

lemma presence_is_seen: "snd (roles_leak w p) \<noteq> comparisons (snd (roles_leak w p)) \<longleftrightarrow> roles w p \<noteq> None"
  using comparisons_concat [of "to_bytes \<circ> fst" "to_bytes p" "entries w"]
  by (simp add: roles_leak_simp comp_def split_def) (simp add: comparisons_def split: option.split)

end
