(* ===== verification/Tests_Auth.thy ===== *)
theory Tests_Auth imports Auth begin

text \<open>
  The tests of \<^verbatim>\<open>crates/nux-core/src/auth/mod.rs\<close> and \<^verbatim>\<open>crates/nux-core/src/auth/whitelist.rs\<close>, on the model. What a test draws at
  random (keys, nonces) or reads from the clock is an argument, so each is shown to pass for all of them. A test that
  unwraps nothing is \<open>False\<close>.
\<close>

section \<open>What the tests use\<close>

text \<open>The Ed25519 scheme as documented: a signature verifies for its key and message only.\<close>

definition signing_ok :: "'pk key_lib \<Rightarrow> ('k \<Rightarrow> bytes \<Rightarrow> bytes) \<Rightarrow> ('k \<Rightarrow> peer_id) \<Rightarrow> bool" where
  "signing_ok K signs peer_of \<longleftrightarrow> (\<forall>k. \<exists>pk. public_key_of K (peer_of k) = Some pk \<and>
     (\<forall>k' m m'. pk_verify K pk m (signs k' m') \<longleftrightarrow> k' = k \<and> m' = m))"

definition T0 :: u64 where "T0 = 1780000000"

definition test_setup :: "peer_id \<Rightarrow> role list \<Rightarrow> guard_authenticator" where
  "test_setup peer rs = authenticator_new (allow peer rs whitelist_new)"

definition nonce_of :: "nux_response option \<Rightarrow> bytes option" where
  "nonce_of response = (case response of Some (Challenge n _) \<Rightarrow> Some n | _ \<Rightarrow> None)"

text \<open>\<^verbatim>\<open>issue_at\<close> unwrapped, then \<^verbatim>\<open>verify_at\<close> on a signature of the nonce.\<close>

definition exchange :: "'pk key_lib \<Rightarrow> ('k \<Rightarrow> bytes \<Rightarrow> bytes) \<Rightarrow> 'k \<Rightarrow> peer_id \<Rightarrow> bytes \<Rightarrow> u64 \<Rightarrow> u64 \<Rightarrow> u64 \<Rightarrow> guard_authenticator \<Rightarrow>
    (auth_outcome \<times> guard_authenticator) option" where
  "exchange K signs signer peer fresh issued ts now A = (case issue_at peer issued fresh A of
     (response, A) \<Rightarrow> map_option (\<lambda>n. verify_at K peer (signs signer (challenge_payload n ts)) ts now A) (nonce_of response))"

definition passes :: "'a option \<Rightarrow> ('a \<Rightarrow> bool) \<Rightarrow> bool" where
  "passes r check = (case r of Some a \<Rightarrow> check a | None \<Rightarrow> False)"

definition is_granted :: "auth_outcome \<Rightarrow> bool" where
  "is_granted outcome = (case outcome of Granted _ \<Rightarrow> True | Reject \<Rightarrow> False)"

lemma passes_Some [simp]: "passes (Some a) check = check a"
  by (simp add: passes_def)

lemma is_granted_simps [simp]: "is_granted (Granted rs)" "\<not> is_granted Reject"
  by (simp_all add: is_granted_def)

lemma test_setup_roles [simp]: "roles (whitelist (test_setup peer rs)) p = (if p = peer then Some rs else None)"
  by (simp add: test_setup_def authenticator_new_def wl.get_insert wl.get_empty)

lemma test_setup_empty [simp]: "sessions (test_setup peer rs) = hm_empty" "pending (test_setup peer rs) = hm_empty"
  by (simp_all add: test_setup_def authenticator_new_def)

lemma signing_okE:
  assumes "signing_ok K signs peer_of"
  obtains pk where "public_key_of K (peer_of k) = Some pk" "\<And>k' m m'. pk_verify K pk m (signs k' m') \<longleftrightarrow> k' = k \<and> m' = m"
  using assms unfolding signing_ok_def by metis

lemma exchange_eq:
  assumes "signing_ok K signs peer_of" "roles (whitelist A) (peer_of client) = Some rs"
  shows "exchange K signs signer (peer_of client) fresh issued ts now A = Some (
    let A = A\<lparr>pending := hm_remove (peer_of client) (hm_insert (peer_of client) \<lparr>nonce = fresh, issued_at = issued\<rparr> (pending A))\<rparr> in
    if signer = client \<and> unat now \<le> unat issued + 5 \<and> unat now \<le> unat ts + 5 \<and> unat ts \<le> unat now + 5
    then (Granted rs, A\<lparr>sessions := hm_insert (peer_of client) rs (sessions A)\<rparr>) else (Reject, A))"
proof -
  obtain pk where "public_key_of K (peer_of client) = Some pk" "\<And>k' m m'. pk_verify K pk m (signs k' m') \<longleftrightarrow> k' = client \<and> m' = m"
    using signing_okE [OF assms(1), of client] by blast
  with assms(2) show ?thesis
    by (auto simp: exchange_def issue_at_def nonce_of_def verify_at_eq acceptable_def Let_def)
qed

lemma peers_differ: "signing_ok K signs peer_of \<Longrightarrow> peer_of k = peer_of k' \<longleftrightarrow> k = k'"
  unfolding signing_ok_def by (metis option.inject)

section \<open>The tests of the authority\<close>

definition valid_answer_is_granted_with_roles :: "'pk key_lib \<Rightarrow> ('k \<Rightarrow> bytes \<Rightarrow> bytes) \<Rightarrow> ('k \<Rightarrow> peer_id) \<Rightarrow> 'k \<Rightarrow> bytes \<Rightarrow> bool" where
  "valid_answer_is_granted_with_roles K signs peer_of client n =
     (let peer = peer_of client; rs = [''db-writer'', ''metrics''] in
      passes (exchange K signs client peer n T0 (T0 + 2) (T0 + 3) (test_setup peer rs)) (\<lambda>(outcome, A).
        outcome = Granted rs \<and> session_roles A peer = Some rs))"

definition challenge_is_single_use :: "'pk key_lib \<Rightarrow> ('k \<Rightarrow> bytes \<Rightarrow> bytes) \<Rightarrow> ('k \<Rightarrow> peer_id) \<Rightarrow> 'k \<Rightarrow> bytes \<Rightarrow> bool" where
  "challenge_is_single_use K signs peer_of client n =
     (let peer = peer_of client in
      passes (exchange K signs client peer n T0 T0 T0 (test_setup peer [''r''])) (\<lambda>(outcome, A).
        is_granted outcome \<and> fst (verify_at K peer (signs client (challenge_payload n T0)) T0 T0 A) = Reject))"

definition unknown_peer_gets_no_challenge :: "('k \<Rightarrow> peer_id) \<Rightarrow> 'k \<Rightarrow> 'k \<Rightarrow> bytes \<Rightarrow> bool" where
  "unknown_peer_gets_no_challenge peer_of client stranger n =
     (fst (issue_at (peer_of stranger) T0 n (test_setup (peer_of client) [''r''])) = None)"

definition timestamp_outside_replay_window_is_rejected :: "'pk key_lib \<Rightarrow> ('k \<Rightarrow> bytes \<Rightarrow> bytes) \<Rightarrow> ('k \<Rightarrow> peer_id) \<Rightarrow> 'k \<Rightarrow> bytes \<Rightarrow> bool" where
  "timestamp_outside_replay_window_is_rejected K signs peer_of client n =
     (let peer = peer_of client; A = test_setup peer [''r''] in
      passes (exchange K signs client peer n T0 (T0 - 2) (T0 + 4) A) (\<lambda>(outcome, _). outcome = Reject) \<and>
      passes (exchange K signs client peer n T0 (T0 + 6) T0 A) (\<lambda>(outcome, _). outcome = Reject) \<and>
      passes (exchange K signs client peer n T0 (T0 + 5) T0 A) (\<lambda>(outcome, _). is_granted outcome))"

definition expired_challenge_is_rejected :: "'pk key_lib \<Rightarrow> ('k \<Rightarrow> bytes \<Rightarrow> bytes) \<Rightarrow> ('k \<Rightarrow> peer_id) \<Rightarrow> 'k \<Rightarrow> bytes \<Rightarrow> bool" where
  "expired_challenge_is_rejected K signs peer_of client n =
     (let peer = peer_of client; now = T0 + MAX_CLOCK_SKEW_SECS + 1 in
      passes (exchange K signs client peer n T0 now now (test_setup peer [''r''])) (\<lambda>(outcome, _). outcome = Reject))"

definition forged_signature_is_rejected :: "'pk key_lib \<Rightarrow> ('k \<Rightarrow> bytes \<Rightarrow> bytes) \<Rightarrow> ('k \<Rightarrow> peer_id) \<Rightarrow> 'k \<Rightarrow> 'k \<Rightarrow> bytes \<Rightarrow> bool" where
  "forged_signature_is_rejected K signs peer_of client impostor n =
     (let peer = peer_of client in
      passes (exchange K signs impostor peer n T0 T0 T0 (test_setup peer [''r''])) (\<lambda>(outcome, A).
        outcome = Reject \<and> session_roles A peer = None))"

definition old_signature_does_not_cover_new_nonce :: "'pk key_lib \<Rightarrow> ('k \<Rightarrow> bytes \<Rightarrow> bytes) \<Rightarrow> ('k \<Rightarrow> peer_id) \<Rightarrow> 'k \<Rightarrow> bytes \<Rightarrow> bytes \<Rightarrow> bool" where
  "old_signature_does_not_cover_new_nonce K signs peer_of client n1 n2 =
     (let peer = peer_of client in
      case issue_at peer T0 n1 (test_setup peer [''r'']) of (first, A) \<Rightarrow>
      passes (nonce_of first) (\<lambda>first_nonce.
        case issue_at peer T0 n2 A of (second, A) \<Rightarrow>
          second \<noteq> None \<and> fst (verify_at K peer (signs client (challenge_payload first_nonce T0)) T0 T0 A) = Reject))"

definition end_session_clears_state :: "'pk key_lib \<Rightarrow> ('k \<Rightarrow> bytes \<Rightarrow> bytes) \<Rightarrow> ('k \<Rightarrow> peer_id) \<Rightarrow> 'k \<Rightarrow> bytes \<Rightarrow> bool" where
  "end_session_clears_state K signs peer_of client n =
     (let peer = peer_of client in
      passes (exchange K signs client peer n T0 T0 T0 (test_setup peer [''r''])) (\<lambda>(_, A).
        session_roles A peer \<noteq> None \<and> session_roles (end_session peer A) peer = None))"

definition authenticated_peers_reflects_active_sessions_only ::
    "'pk key_lib \<Rightarrow> ('k \<Rightarrow> bytes \<Rightarrow> bytes) \<Rightarrow> ('k \<Rightarrow> peer_id) \<Rightarrow> 'k \<Rightarrow> 'k \<Rightarrow> bytes \<Rightarrow> bytes \<Rightarrow> bool" where
  "authenticated_peers_reflects_active_sessions_only K signs peer_of client_a client_b n1 n2 =
     (let peer_a = peer_of client_a; peer_b = peer_of client_b;
          A = whitelist_mut (allow peer_b [''r'']) (test_setup peer_a [''r'']) in
      authenticated_peers A = [] \<and>
      passes (exchange K signs client_a peer_a n1 T0 T0 T0 A) (\<lambda>(_, A).
        authenticated_peers A = [peer_a] \<and>
        passes (exchange K signs client_b peer_b n2 T0 T0 T0 A) (\<lambda>(_, A).
          distinct (authenticated_peers A) \<and> set (authenticated_peers A) = {peer_a, peer_b} \<and>
          authenticated_peers (end_session peer_a A) = [peer_b])))"

definition hot_revocation_invalidates_live_session :: "'pk key_lib \<Rightarrow> ('k \<Rightarrow> bytes \<Rightarrow> bytes) \<Rightarrow> ('k \<Rightarrow> peer_id) \<Rightarrow> 'k \<Rightarrow> bytes \<Rightarrow> bool" where
  "hot_revocation_invalidates_live_session K signs peer_of client n =
     (let peer = peer_of client in
      passes (exchange K signs client peer n T0 T0 T0 (test_setup peer [''db-writer''])) (\<lambda>(_, A).
        session_roles A peer \<noteq> None \<and>
        (case auth_revoke peer A of (had_session, A) \<Rightarrow> had_session \<and> session_roles A peer = None)))"

definition session_roles_follow_live_whitelist_changes :: "'pk key_lib \<Rightarrow> ('k \<Rightarrow> bytes \<Rightarrow> bytes) \<Rightarrow> ('k \<Rightarrow> peer_id) \<Rightarrow> 'k \<Rightarrow> bytes \<Rightarrow> bool" where
  "session_roles_follow_live_whitelist_changes K signs peer_of client n =
     (let peer = peer_of client in
      passes (exchange K signs client peer n T0 T0 T0 (test_setup peer [''db-writer'', ''admin''])) (\<lambda>(_, A).
        session_roles (whitelist_mut (allow peer [''db-writer'']) A) peer = Some [''db-writer'']))"

text \<open>The real clock is read three times: \<open>c1\<close>, \<open>c2\<close> and \<open>c3\<close>.\<close>

definition client_answer_round_trip_through_real_clock ::
    "'pk key_lib \<Rightarrow> ('k \<Rightarrow> bytes \<Rightarrow> bytes) \<Rightarrow> ('k \<Rightarrow> peer_id) \<Rightarrow> 'k \<Rightarrow> bytes \<Rightarrow> u64 option \<Rightarrow> u64 option \<Rightarrow> u64 option \<Rightarrow> bool" where
  "client_answer_round_trip_through_real_clock K signs peer_of client n c1 c2 c3 =
     (let peer = peer_of client in
      case issue c1 peer n (test_setup peer [''r'']) of (response, A) \<Rightarrow>
      passes (nonce_of response) (\<lambda>n.
        case answer_challenge (\<lambda>m. Inr (signs client m)) c2 n of
          Inr (ChallengeAnswer signature ts) \<Rightarrow> is_granted (fst (verify K c3 peer signature ts A))
        | _ \<Rightarrow> False))"

lemmas authority_tests = valid_answer_is_granted_with_roles_def challenge_is_single_use_def unknown_peer_gets_no_challenge_def
  timestamp_outside_replay_window_is_rejected_def expired_challenge_is_rejected_def forged_signature_is_rejected_def
  old_signature_does_not_cover_new_nonce_def end_session_clears_state_def authenticated_peers_reflects_active_sessions_only_def
  hot_revocation_invalidates_live_session_def session_roles_follow_live_whitelist_changes_def

lemma tests_of_one_client:
  assumes "signing_ok K signs peer_of"
  shows "valid_answer_is_granted_with_roles K signs peer_of client n" "challenge_is_single_use K signs peer_of client n"
    "timestamp_outside_replay_window_is_rejected K signs peer_of client n" "expired_challenge_is_rejected K signs peer_of client n"
    "end_session_clears_state K signs peer_of client n" "hot_revocation_invalidates_live_session K signs peer_of client n"
    "session_roles_follow_live_whitelist_changes K signs peer_of client n"
  by (simp_all add: authority_tests Let_def exchange_eq [OF assms] T0_def MAX_CLOCK_SKEW_SECS_def session_roles_def verify_at_eq
      end_session_def auth_revoke_def whitelist_mut_def roles_allow test_setup_def authenticator_new_def wl.get_insert)

lemma tests_of_two_keys:
  assumes "signing_ok K signs peer_of" "client \<noteq> other"
  shows "unknown_peer_gets_no_challenge peer_of client other n" "forged_signature_is_rejected K signs peer_of client other n"
  using assms(2)
  by (simp_all add: authority_tests Let_def exchange_eq [OF assms(1)] peers_differ [OF assms(1)] issue_at_response session_roles_def)

lemma test_of_the_nonces:
  assumes "signing_ok K signs peer_of" "n1 \<noteq> n2"
  shows "old_signature_does_not_cover_new_nonce K signs peer_of client n1 n2"
proof -
  obtain pk where "public_key_of K (peer_of client) = Some pk" "\<And>k' m m'. pk_verify K pk m (signs k' m') \<longleftrightarrow> k' = client \<and> m' = m"
    using signing_okE [OF assms(1), of client] by blast
  with assms(2) show ?thesis
    by (auto simp: authority_tests issue_at_def nonce_of_def verify_at_eq acceptable_def Let_def dest: challenge_payload_inj)
qed

lemma test_of_two_sessions:
  assumes "signing_ok K signs peer_of" "client_a \<noteq> client_b"
  shows "authenticated_peers_reflects_active_sessions_only K signs peer_of client_a client_b n1 n2"
proof -
  have "peer_of client_a \<noteq> peer_of client_b" using assms by (simp add: peers_differ)
  then show ?thesis
    by (auto simp: authority_tests Let_def exchange_eq [OF assms(1)] authenticated_peers_def end_session_def whitelist_mut_def
        roles_allow test_setup_def authenticator_new_def wl.get_insert wl.get_empty hm_keys_def hm_insert_def hm_remove_def hm_empty_def T0_def)
qed

lemma test_of_the_clocks:
  assumes "signing_ok K signs peer_of" "unat (unix_now c3) \<le> unat (unix_now c1) + 5"
    and "unat (unix_now c3) \<le> unat (unix_now c2) + 5" "unat (unix_now c2) \<le> unat (unix_now c3) + 5"
  shows "client_answer_round_trip_through_real_clock K signs peer_of client n c1 c2 c3"
proof -
  obtain pk where "public_key_of K (peer_of client) = Some pk" "\<And>k' m m'. pk_verify K pk m (signs k' m') \<longleftrightarrow> k' = client \<and> m' = m"
    using signing_okE [OF assms(1), of client] by blast
  with assms(2-4) show ?thesis
    by (simp add: client_answer_round_trip_through_real_clock_def issue_def issue_at_def nonce_of_def answer_challenge_def Let_def
        verify_def verify_at_eq acceptable_def)
qed

section \<open>The tests of the whitelist\<close>

definition lookup_known_and_unknown :: "peer_id \<Rightarrow> peer_id \<Rightarrow> peer_id \<Rightarrow> bool" where
  "lookup_known_and_unknown alice bob mallory =
     (let w = allow bob [] (allow alice [''db-writer'', ''metrics''] whitelist_new) in
      roles w alice = Some [''db-writer'', ''metrics''] \<and> roles w bob = Some [] \<and> roles w mallory = None \<and> whitelist_len w = 2)"

definition allow_replaces_roles_and_revoke_removes :: "peer_id \<Rightarrow> bool" where
  "allow_replaces_roles_and_revoke_removes alice =
     (let w = allow alice [''admin''] (allow alice [''reader''] whitelist_new) in
      roles w alice = Some [''admin''] \<and> whitelist_len w = 1 \<and>
      (let w = revoke alice w in whitelist_is_empty w \<and> roles w alice = None))"

lemma tests_of_the_whitelist:
  "distinct [alice, bob, mallory] \<Longrightarrow> lookup_known_and_unknown alice bob mallory"
  "allow_replaces_roles_and_revoke_removes alice"
  by (auto simp: lookup_known_and_unknown_def allow_replaces_roles_and_revoke_removes_def Let_def roles_allow roles_revoke wl.get_empty
      whitelist_len_def whitelist_is_empty_def) (simp_all add: allow_def revoke_def whitelist_new_def)

section \<open>All of them\<close>

text \<open>Whatever the keys, the nonces and the clocks are, as long as different keys and nonces are
  different and the clocks agree within five seconds, and for any scheme in which a signature verifies for its key and message only, the
  authority of the model passes every test that the repository has of it.\<close>

theorem authority_passes_its_tests:
  assumes "signing_ok K signs peer_of" "client \<noteq> other" "other \<noteq> third" "client \<noteq> third" "n1 \<noteq> n2"
    and "unat (unix_now c3) \<le> unat (unix_now c1) + 5" "unat (unix_now c3) \<le> unat (unix_now c2) + 5" "unat (unix_now c2) \<le> unat (unix_now c3) + 5"
  shows "valid_answer_is_granted_with_roles K signs peer_of client n1 \<and> challenge_is_single_use K signs peer_of client n1 \<and>
    unknown_peer_gets_no_challenge peer_of client other n1 \<and> timestamp_outside_replay_window_is_rejected K signs peer_of client n1 \<and>
    expired_challenge_is_rejected K signs peer_of client n1 \<and> forged_signature_is_rejected K signs peer_of client other n1 \<and>
    old_signature_does_not_cover_new_nonce K signs peer_of client n1 n2 \<and> end_session_clears_state K signs peer_of client n1 \<and>
    authenticated_peers_reflects_active_sessions_only K signs peer_of client other n1 n2 \<and>
    hot_revocation_invalidates_live_session K signs peer_of client n1 \<and>
    session_roles_follow_live_whitelist_changes K signs peer_of client n1 \<and>
    client_answer_round_trip_through_real_clock K signs peer_of client n1 c1 c2 c3 \<and>
    lookup_known_and_unknown (peer_of client) (peer_of other) (peer_of third) \<and> allow_replaces_roles_and_revoke_removes (peer_of client)"
  using tests_of_one_client [OF assms(1)] tests_of_two_keys [OF assms(1,2)] test_of_the_nonces [OF assms(1,5)]
    test_of_two_sessions [OF assms(1,2)] test_of_the_clocks [OF assms(1,6-8)] tests_of_the_whitelist assms(2-4)
  by (simp add: peers_differ [OF assms(1)])

text \<open>Keys of one byte; a signature is the key and the message.\<close>

definition byte_keys :: "bytes key_lib" where
  "byte_keys = \<lparr>mh_code = (\<lambda>_. 0), mh_digest = to_bytes, try_decode_protobuf = Some, pk_verify = (\<lambda>pk msg sig. sig = pk @ msg)\<rparr>"

theorem authority_passes_its_tests_witness:
  "forged_signature_is_rejected byte_keys (\<lambda>k m. k # m) (\<lambda>k. PeerId [k]) 1 2 [7] \<and>
   client_answer_round_trip_through_real_clock byte_keys (\<lambda>k m. k # m) (\<lambda>k. PeerId [k]) 1 [7] (Some 100) (Some 101) (Some 103)"
proof -
  have "signing_ok byte_keys (\<lambda>k m. k # m) (\<lambda>k. PeerId [k])"
    by (simp add: signing_ok_def byte_keys_def public_key_of_def IDENTITY_MULTIHASH_CODE_def)
  from authority_passes_its_tests [OF this, of 1 2 3 "[7]" "[8]" "Some 103" "Some 100" "Some 101"] show ?thesis
    by (simp add: unix_now_def)
qed

end
