(* ===== verification/Tests_Limits.thy ===== *)
theory Tests_Limits imports Rate_Limit Gateway_Limit Metrics Relay begin

text \<open>
  The tests of \<^verbatim>\<open>crates/nux-core/src/rate_limit.rs\<close>, \<^verbatim>\<open>nux_gateway/src/rate_limit.rs\<close>, \<^verbatim>\<open>crates/nux-core/src/metrics.rs\<close> and
  \<^verbatim>\<open>nodes_relay/src/metrics.rs\<close>, on the model, at any instant \<open>t0\<close> (the readings of the clock that a test takes in a row are one).
\<close>

section \<open>The limiter of connections\<close>

definition IP_A :: ip_addr where "IP_A = V4 0xCB007107"
definition IP_B :: ip_addr where "IP_B = V4 0xCB007108"
definition WINDOW :: duration where "WINDOW = from_secs 60"

text \<open>The answers to a sequence of calls of \<open>allow_at\<close>.\<close>

fun answers :: "(ip_addr \<times> instant) list \<Rightarrow> rate_limiter \<Rightarrow> bool list \<times> rate_limiter" where
  "answers [] R = ([], R)"
| "answers ((ip, t) # calls) R = (case allow_at ip t R of (b, R) \<Rightarrow> case answers calls R of (bs, R) \<Rightarrow> (b # bs, R))"

definition allows_up_to_max_then_blocks :: "instant \<Rightarrow> bool" where
  "allows_up_to_max_then_blocks t0 =
     (fst (answers [(IP_A, t0), (IP_A, t0), (IP_A, t0), (IP_A, t0), (IP_A, t0 + from_secs 1)] (rate_limiter_new 3 WINDOW t0))
       = [True, True, True, False, False])"

definition window_slides_and_credit_returns :: "instant \<Rightarrow> bool" where
  "window_slides_and_credit_returns t0 =
     (fst (answers [(IP_A, t0), (IP_A, t0 + from_secs 30), (IP_A, t0 + from_secs 50), (IP_A, t0 + from_secs 61), (IP_A, t0 + from_secs 61)]
         (rate_limiter_new 2 WINDOW t0)) = [True, True, False, True, False])"

definition ips_are_independent :: "instant \<Rightarrow> bool" where
  "ips_are_independent t0 =
     (fst (answers [(IP_A, t0), (IP_A, t0), (IP_B, t0)] (rate_limiter_new 1 WINDOW t0)) = [True, False, True])"

definition zero_max_blocks_everything :: "instant \<Rightarrow> bool" where
  "zero_max_blocks_everything t0 = (\<not> fst (allow_at IP_A t0 (rate_limiter_new 0 WINDOW t0)))"

definition sweep_forgets_idle_ips :: "instant \<Rightarrow> bool" where
  "sweep_forgets_idle_ips t0 =
     (case answers [(IP_A, t0), (IP_B, t0)] (rate_limiter_new 5 WINDOW t0) of (bs, R) \<Rightarrow>
        bs = [True, True] \<and> hm_len (hits R) = 2 \<and>
        (case allow_at IP_B (t0 + WINDOW + from_secs 1) R of (b, R) \<Rightarrow>
           b \<and> hm_len (hits R) = 1 \<and> \<not> hm_contains_key (hits R) IP_A))"

definition exempt_ip_is_never_limited :: "instant \<Rightarrow> bool" where
  "exempt_ip_is_never_limited t0 =
     (case answers (replicate 100 (IP_A, t0)) (exempt IP_A (rate_limiter_new 1 WINDOW t0)) of (bs, R) \<Rightarrow>
        list_all id bs \<and> hits R = hm_empty \<and> fst (answers [(IP_B, t0), (IP_B, t0)] R) = [True, False])"

definition tracked_ip_table_is_capped :: "instant \<Rightarrow> bool" where
  "tracked_ip_table_is_capped t0 =
     (case answers [(IP_A, t0), (IP_B, t0)] ((rate_limiter_new 5 WINDOW t0)\<lparr>max_tracked_ips := 2\<rparr>) of (bs, R) \<Rightarrow>
        bs = [True, True] \<and>
        (case allow_at (V4 0xCB007109) t0 R of (b, R) \<Rightarrow> \<not> b \<and> hm_len (hits R) = 2 \<and> fst (allow_at IP_A t0 R)))"

definition ip_extraction_from_multiaddr :: bool where
  "ip_extraction_from_multiaddr =
     (ip_of [Ip4 0xCB007107, Tcp 4588] = Some IP_A \<and> ip_of [Ip6 1, Tcp 4588] = Some (V6 1) \<and> ip_of [OtherProtocol ''/memory/42''] = None)"

lemma answers_exempt: "ip \<in> exempt_ips R \<Longrightarrow> answers (replicate n (ip, t)) R = (replicate n True, R)"
  by (induction n) (simp_all add: allow_at_def)

lemmas limiter_code = allow_at_def count_hit_def rate_limiter_new_def prune_def sweep_def WINDOW_def IP_A_def IP_B_def from_secs_def Let_def
  hm_empty_def hm_get_def hm_insert_def hm_len_def hm_contains_key_def MAX_TRACKED_IPS_def

lemma tests_of_the_limiter:
  "allows_up_to_max_then_blocks t0" "window_slides_and_credit_returns t0" "ips_are_independent t0" "zero_max_blocks_everything t0"
  "sweep_forgets_idle_ips t0" "tracked_ip_table_is_capped t0" "ip_extraction_from_multiaddr"
  by (simp_all add: allows_up_to_max_then_blocks_def window_slides_and_credit_returns_def ips_are_independent_def zero_max_blocks_everything_def
      sweep_forgets_idle_ips_def tracked_ip_table_is_capped_def ip_extraction_from_multiaddr_def limiter_code)

lemma test_of_the_exemption: "exempt_ip_is_never_limited t0"
proof -
  have "IP_A \<in> exempt_ips (exempt IP_A (rate_limiter_new 1 WINDOW t0))" by (simp add: exempt_def)
  from answers_exempt [OF this, of 100 t0] show ?thesis
    by (simp add: exempt_ip_is_never_limited_def list_all_iff exempt_def limiter_code)
qed

section \<open>The limiter of the Gateway\<close>

fun window_answers :: "u64 list \<Rightarrow> window_limiter \<Rightarrow> bool list" where
  "window_answers [] W = []"
| "window_answers (t # ts) W = (case window_allow t W of (b, W) \<Rightarrow> b # window_answers ts W)"

definition allows_up_to_the_cap_then_denies_within_the_window :: "u64 \<Rightarrow> bool" where
  "allows_up_to_the_cap_then_denies_within_the_window t0 =
     (window_answers [t0, t0, t0, t0, t0] (window_limiter_new 3 60 t0) = [True, True, True, False, False])"

lemma test_of_the_window: "allows_up_to_the_cap_then_denies_within_the_window t0"
  by (simp add: allows_up_to_the_cap_then_denies_within_the_window_def window_limiter_new_def window_allow_def saturating_sub_def Let_def)

section \<open>The counters\<close>

text \<open>\<^verbatim>\<open>str::contains\<close>.\<close>

fun str_contains :: "string \<Rightarrow> string \<Rightarrow> bool" where
  "str_contains [] needle = (needle = [])"
| "str_contains (c # cs) needle = (prefix needle (c # cs) \<or> str_contains cs needle)"

definition counters_reflect_recorded_events :: bool where
  "counters_reflect_recorded_events =
     (let m = metrics_default;
          m = record_auth_denied (record_auth_granted (record_auth_granted m));
          m = record_tunnel_finished (Served 10 20) (record_tunnel_started m);
          m = record_tunnel_denied (record_tunnel_finished TunnelDenied (record_tunnel_started m));
          exposition = to_prometheus_text m
      in list_all (str_contains exposition) [''nux_auth_granted_total 2'', ''nux_auth_denied_total 1'', ''nux_tunnels_opened_total 1'',
        ''nux_tunnels_denied_total 2'', ''nux_tunnels_active 0'', ''nux_bytes_from_peer_total 10'', ''nux_bytes_to_peer_total 20''])"

definition never_contains_a_peer_id_or_address :: bool where
  "never_contains_a_peer_id_or_address = (\<not> str_contains (to_prometheus_text (record_auth_granted metrics_default)) ''12D3Koo'')"

definition relay_counters_reflect_recorded_events :: bool where
  "relay_counters_reflect_recorded_events =
     (let m = record_reservation_accepted (record_reservation_accepted relay_metrics_default);
          m = record_reservation_expired (record_reservation_denied m);
          m = record_circuit_closed (record_circuit_opened (record_circuit_opened m));
          exposition = relay_prometheus_text m
      in list_all (str_contains exposition) [''nux_relay_reservations_total 2'', ''nux_relay_reservations_denied_total 1'',
        ''nux_relay_reservations_expired_total 1'', ''nux_relay_circuits_opened_total 2'', ''nux_relay_circuits_active 1''])"

definition relay_never_contains_a_peer_id :: bool where
  "relay_never_contains_a_peer_id =
     (\<not> str_contains (relay_prometheus_text (record_reservation_accepted relay_metrics_default)) ''12D3Koo'')"

lemma str_contains_sublist: "str_contains hay needle \<longleftrightarrow> sublist needle hay"
  by (induction hay) (auto simp: sublist_Cons_right)

text \<open>The sample of a metric is in the exposition.\<close>

lemma str_contains_sample:
  assumes "metric_block name doc ty v \<in> set blocks"
  shows "str_contains (concat blocks) (name @ '' '' @ decimal (unat v))"
proof -
  have "sublist (name @ '' '' @ decimal (unat v)) (metric_block name doc ty v)"
    unfolding metric_block_def
    unfolding sublist_def
    by (rule exI [of _ "''# HELP '' @ name @ '' '' @ doc @ [CHR 10] @ ''# TYPE '' @ name @ '' '' @ ty @ [CHR 10]"], rule exI [of _ "[CHR 10]"]) simp
  moreover from assms obtain before after where "blocks = before @ metric_block name doc ty v # after"
    using split_list by metis
  then have "sublist (metric_block name doc ty v) (concat blocks)" by (simp add: sublist_def) blast
  ultimately show ?thesis by (meson str_contains_sublist sublist_order.order_trans)
qed

lemma small_decimals: "decimal 0 = ''0''" "decimal (Suc 0) = ''1''" "decimal 2 = ''2''" "decimal 10 = ''10''" "decimal 20 = ''20''"
  by code_simp+

lemma exposed:
  "str_contains (to_prometheus_text m) (''nux_auth_granted_total'' @ '' '' @ decimal (unat (auth_granted m)))"
  "str_contains (to_prometheus_text m) (''nux_auth_denied_total'' @ '' '' @ decimal (unat (auth_denied m)))"
  "str_contains (to_prometheus_text m) (''nux_tunnels_opened_total'' @ '' '' @ decimal (unat (tunnels_opened m)))"
  "str_contains (to_prometheus_text m) (''nux_tunnels_denied_total'' @ '' '' @ decimal (unat (tunnels_denied m)))"
  "str_contains (to_prometheus_text m) (''nux_tunnels_active'' @ '' '' @ decimal (unat (tunnels_active m)))"
  "str_contains (to_prometheus_text m) (''nux_bytes_from_peer_total'' @ '' '' @ decimal (unat (bytes_in m)))"
  "str_contains (to_prometheus_text m) (''nux_bytes_to_peer_total'' @ '' '' @ decimal (unat (bytes_out m)))"
  unfolding to_prometheus_text_def
  by (rule str_contains_sample, (rule list.set_intros(1) | rule list.set_intros(2))+)+

lemma relay_exposed:
  "str_contains (relay_prometheus_text m) (''nux_relay_reservations_total'' @ '' '' @ decimal (unat (reservations_total m)))"
  "str_contains (relay_prometheus_text m) (''nux_relay_reservations_denied_total'' @ '' '' @ decimal (unat (reservations_denied_total m)))"
  "str_contains (relay_prometheus_text m) (''nux_relay_reservations_expired_total'' @ '' '' @ decimal (unat (reservations_expired_total m)))"
  "str_contains (relay_prometheus_text m) (''nux_relay_circuits_opened_total'' @ '' '' @ decimal (unat (circuits_opened_total m)))"
  "str_contains (relay_prometheus_text m) (''nux_relay_circuits_active'' @ '' '' @ decimal (unat (circuits_active m)))"
  unfolding relay_prometheus_text_def
  by (rule str_contains_sample, (rule list.set_intros(1) | rule list.set_intros(2))+)+

lemma test_of_the_counters: counters_reflect_recorded_events
proof -
  let ?m = "\<lparr>auth_granted = 2, auth_denied = 1, tunnels_opened = 1, tunnels_denied = 2, tunnels_active = 0, bytes_in = 10, bytes_out = 20\<rparr>"
  have "record_tunnel_denied (record_tunnel_finished TunnelDenied (record_tunnel_started (record_tunnel_finished (Served 10 20)
      (record_tunnel_started (record_auth_denied (record_auth_granted (record_auth_granted metrics_default))))))) = ?m"
    by (simp add: metrics_default_def record_auth_granted_def record_auth_denied_def record_tunnel_started_def record_tunnel_finished_def
        record_tunnel_denied_def)
  with exposed [of ?m] show ?thesis
    by (simp add: counters_reflect_recorded_events_def small_decimals)
qed

lemma test_of_the_relay_counters: relay_counters_reflect_recorded_events
proof -
  let ?m = "\<lparr>reservations_total = 2, reservations_denied_total = 1, reservations_expired_total = 1, circuits_opened_total = 2, circuits_active = 1\<rparr>"
  have "record_circuit_closed (record_circuit_opened (record_circuit_opened (record_reservation_expired (record_reservation_denied
      (record_reservation_accepted (record_reservation_accepted relay_metrics_default)))))) = ?m"
    by (simp add: relay_metrics_default_def record_circuit_closed_def record_circuit_opened_def record_reservation_expired_def
        record_reservation_denied_def record_reservation_accepted_def)
  with relay_exposed [of ?m] show ?thesis
    by (simp add: relay_counters_reflect_recorded_events_def small_decimals)
qed

text \<open>No identifier of a peer can appear, whatever the counters are: nothing has the letter \<open>D\<close>.\<close>

lemma no_letter_in_a_number: "CHR ''D'' \<notin> set (decimal n)"
  using decimal_digits [of n] by (auto simp: list_all_iff is_digit_def)

lemma expositions_without_D: "CHR ''D'' \<notin> set (to_prometheus_text m)" "CHR ''D'' \<notin> set (relay_prometheus_text r)"
  by (simp_all add: to_prometheus_text_def relay_prometheus_text_def metric_block_def e_acute_def e_circ_def no_letter_in_a_number)

lemma tests_of_the_names: never_contains_a_peer_id_or_address relay_never_contains_a_peer_id
  using expositions_without_D
  by (auto simp: never_contains_a_peer_id_or_address_def relay_never_contains_a_peer_id_def str_contains_sublist dest!: set_mono_sublist)

end
