(* ===== verification/Tests_Tunnel.thy ===== *)
theory Tests_Tunnel imports Tunnel Identity Guard_Config begin

text \<open>
  The tests of \<^verbatim>\<open>crates/nux-core/src/tunnel/mod.rs\<close>, \<^verbatim>\<open>crates/nux-core/src/identity.rs\<close>, \<^verbatim>\<open>crates/nux-core/src/protocol/mod.rs\<close> and
  \<^verbatim>\<open>crates/nux-cli/src/guard_config.rs\<close>, on the model. The serialiser, the codec of keys, the file system, the peers and the ports are
  arguments; the services of the tests are networks: one that echoes and one that closes at once.
\<close>

section \<open>Headers and roles\<close>

definition registry_has_anti_amplification_caps_by_default :: bool where
  "registry_has_anti_amplification_caps_by_default =
     (max_streams_per_peer registry_new = DEFAULT_MAX_STREAMS_PER_PEER \<and> max_streams_total registry_new = DEFAULT_MAX_STREAMS_TOTAL \<and>
      (let G = max_concurrent_streams 4 16 registry_new in max_streams_per_peer G = 4 \<and> max_streams_total G = 16))"

definition role_check_covers_all_cases :: bool where
  "role_check_covers_all_cases =
     (let rs = [''reader'', ''db-writer''] in
      role_granted rs None \<and> role_granted [] None \<and> role_granted rs (Some ''reader'') \<and> role_granted rs (Some ''db-writer'') \<and>
      \<not> role_granted rs (Some ''admin'') \<and> \<not> role_granted rs (Some ''read'') \<and> \<not> role_granted rs (Some ''Reader'') \<and>
      \<not> role_granted [] (Some ''reader''))"

definition test_header :: "string \<Rightarrow> tunnel_header" where
  "test_header srv = \<lparr>service = srv, binary_sha256 = replicate SHA256_LEN 0\<rparr>"

text \<open>A duplex stream: what one side has written is what the other can read.\<close>

definition fresh_out :: out_stream where "fresh_out = \<lparr>written = [], fail_after = None\<rparr>"

definition other_side :: "out_stream \<Rightarrow> stream_end \<Rightarrow> in_stream" where
  "other_side w e = \<lparr>avail = written w, ending = e\<rparr>"

definition header_round_trip_over_duplex :: "tunnel_header bincode \<Rightarrow> bool" where
  "header_round_trip_over_duplex B =
     (case write_header B (test_header ''postgres'') fresh_out of
        (Inr _, w) \<Rightarrow> (case read_header B (other_side w Idle) of Inr (back, _) \<Rightarrow> back = test_header ''postgres'' | Inl _ \<Rightarrow> False)
      | (Inl _, _) \<Rightarrow> False)"

definition oversized_header_is_rejected_on_both_sides :: "tunnel_header bincode \<Rightarrow> bool" where
  "oversized_header_is_rejected_on_both_sides B =
     (\<not> is_ok (fst (write_header B (test_header (replicate (MAX_TUNNEL_HEADER_SIZE + 1) (CHR ''s''))) fresh_out)) \<and>
      (let (_, w) = write_all (to_be_bytes 2 (word_of_nat (MAX_TUNNEL_HEADER_SIZE + 1) :: u16)) fresh_out
       in \<not> is_ok (read_header B (other_side w Idle))))"

section \<open>Streams\<close>

text \<open>The services: an echo, and one that accepts and closes.\<close>

definition echo_net :: "socket_addr \<Rightarrow> unit net" where
  "echo_net addr = \<lparr>tcp_connect = (\<lambda>a. if a = addr then Inr () else Inl (IoError ConnectionRefused ''Connection refused'')),
     copy_bidirectional = (\<lambda>_ s. let bs = map snd (arrivals s) in (bs, Inr (word_of_nat (length bs), word_of_nat (length bs))))\<rparr>"

definition closing_net :: "socket_addr \<Rightarrow> unit net" where
  "closing_net addr = (echo_net addr)\<lparr>copy_bidirectional := (\<lambda>_ s. ([], Inr (word_of_nat (length (arrivals s)), 0)))\<rparr>"

text \<open>The Client writes a header and more; what the Guard makes of the stream and what it writes. \<open>None\<close>: the header cannot be written.\<close>

definition served :: "tunnel_header bincode \<Rightarrow> unit net \<Rightarrow> peer_id \<Rightarrow> tunnel_header \<Rightarrow> bytes \<Rightarrow> role list \<Rightarrow> tunnel_registry \<Rightarrow>
    (tunnel_outcome \<times> bytes) option" where
  "served B N peer h payload rs registry = (case write_header B h fresh_out of
     (Inr _, w) \<Rightarrow> (case serve_io B N peer (instantly (written w @ payload)) rs registry of (outcome, out) \<Rightarrow> Some (outcome, written out))
   | (Inl _, _) \<Rightarrow> None)"

definition unknown_service_gets_radio_silence :: "tunnel_header bincode \<Rightarrow> peer_id \<Rightarrow> socket_addr \<Rightarrow> bool" where
  "unknown_service_gets_radio_silence B peer addr =
     (served B (echo_net addr) peer (test_header ''ghost'') [] [''admin''] registry_new = Some (TunnelDenied, []))"

definition missing_role_gets_radio_silence :: "tunnel_header bincode \<Rightarrow> peer_id \<Rightarrow> socket_addr \<Rightarrow> bool" where
  "missing_role_gets_radio_silence B peer addr =
     (served B (echo_net addr) peer (test_header ''db'') [] [''reader''] (expose ''db'' addr (Some ''admin'') registry_new)
        = Some (TunnelDenied, []))"

definition authorized_stream_is_acked_and_relayed :: "tunnel_header bincode \<Rightarrow> peer_id \<Rightarrow> socket_addr \<Rightarrow> bytes \<Rightarrow> bool" where
  "authorized_stream_is_acked_and_relayed B peer addr hello =
     (case served B (echo_net addr) peer (test_header ''echo'') hello [''db-writer''] (expose ''echo'' addr (Some ''db-writer'') registry_new) of
        Some (Served _ _, bs) \<Rightarrow> bs = TUNNEL_ACK # hello | _ \<Rightarrow> False)"

definition unattested_peer_is_not_checked :: "tunnel_header bincode \<Rightarrow> peer_id \<Rightarrow> socket_addr \<Rightarrow> bool" where
  "unattested_peer_is_not_checked B peer addr =
     (case served B (closing_net addr) peer ((test_header ''echo'')\<lparr>binary_sha256 := replicate SHA256_LEN 0xAB\<rparr>) []
        [] (expose ''echo'' addr None registry_new) of Some (Served _ _, bs) \<Rightarrow> take 1 bs = [TUNNEL_ACK] | _ \<Rightarrow> False)"

definition matching_binary_sha256_is_acked :: "tunnel_header bincode \<Rightarrow> peer_id \<Rightarrow> socket_addr \<Rightarrow> bool" where
  "matching_binary_sha256_is_acked B peer addr =
     (let expected = replicate SHA256_LEN 0x42;
          registry = require_binary_sha256 peer expected (expose ''echo'' addr None registry_new)
      in case served B (closing_net addr) peer ((test_header ''echo'')\<lparr>binary_sha256 := expected\<rparr>) [] [] registry of
           Some (_, bs) \<Rightarrow> take 1 bs = [TUNNEL_ACK] | None \<Rightarrow> False)"

definition mismatched_binary_sha256_gets_radio_silence :: "tunnel_header bincode \<Rightarrow> peer_id \<Rightarrow> socket_addr \<Rightarrow> bool" where
  "mismatched_binary_sha256_gets_radio_silence B peer addr =
     (let registry = require_binary_sha256 peer (replicate SHA256_LEN 0x42) (expose ''echo'' addr None registry_new)
      in case served B (echo_net addr) peer ((test_header ''echo'')\<lparr>binary_sha256 := replicate SHA256_LEN 0xFF\<rparr>) [] [] registry of
           Some (_, bs) \<Rightarrow> bs = [] | None \<Rightarrow> False)"

text \<open>The headers of the tests fit their frame; with bincode they take 48 bytes at most.\<close>

definition fits :: "tunnel_header bincode \<Rightarrow> tunnel_header \<Rightarrow> bool" where
  "fits B h \<longleftrightarrow> header_frame B h \<noteq> None"

lemma instantly_header:
  assumes "bincode_ok B" "header_frame B h = Some f"
  shows "header_in_time B (instantly (f @ bs)) = Some (Inr (h, \<lparr>avail = bs, ending = Idle\<rparr>))"
  using read_header_frame [OF assms, of bs Idle] by (simp add: header_in_time_Some arrived_instantly)

lemma served_eq:
  assumes "bincode_ok B" "header_frame B h = Some f"
  shows "served B N peer h bs rs registry = Some (
    case registry_get registry (service h) of
      None \<Rightarrow> (TunnelDenied, [])
    | Some srv \<Rightarrow>
        if \<not> role_granted rs (required_role srv) \<or>
          (case expected_binary_sha256 registry peer of Some x \<Rightarrow> binary_sha256 h \<noteq> x | None \<Rightarrow> False) then (TunnelDenied, [])
        else (case tcp_connect N (target srv) of Inl _ \<Rightarrow> (TunnelDenied, [])
          | Inr local \<Rightarrow> (case copy_bidirectional N local ((instantly bs)\<lparr>outgoing := \<lparr>written = [TUNNEL_ACK], fail_after = None\<rparr>\<rparr>) of
                (sent, Inr (n, m)) \<Rightarrow> (Served n m, TUNNEL_ACK # sent)
              | (sent, Inl _) \<Rightarrow> (Served 0 0, TUNNEL_ACK # sent))))"
proof -
  have w: "write_header B h fresh_out = (Inr (), \<lparr>written = f, fail_after = None\<rparr>)"
    using assms(2) by (simp add: write_header_sound fresh_out_def)
  have rest: "after_header (instantly (f @ bs)) \<lparr>avail = bs, ending = Idle\<rparr> = instantly bs"
    by (simp add: after_header_def arrived_instantly) (simp add: instantly_def)
  have out: "outgoing (instantly bs) = \<lparr>written = [], fail_after = None\<rparr>" for bs by (simp add: instantly_def)
  note served = served_def w serve_io_def instantly_header [OF assms] rest out Let_def flush_def
  show ?thesis
  proof (cases "registry_get registry (service h)")
    case None
    then show ?thesis by (simp add: served)
  next
    case (Some srv)
    let ?refuse = "\<not> role_granted rs (required_role srv) \<or>
      (case expected_binary_sha256 registry peer of Some x \<Rightarrow> binary_sha256 h \<noteq> x | None \<Rightarrow> False)"
    show ?thesis
    proof (cases ?refuse)
      case True
      with Some show ?thesis by (cases "role_granted rs (required_role srv)") (simp_all add: served)
    next
      case admitted: False
      show ?thesis
      proof (cases "tcp_connect N (target srv)")
        case (Inl e)
        with Some admitted show ?thesis by (simp add: served)
      next
        case (Inr local)
        obtain sent r where "copy_bidirectional N local ((instantly bs)\<lparr>outgoing := \<lparr>written = [TUNNEL_ACK], fail_after = None\<rparr>\<rparr>) = (sent, r)"
          by fastforce
        with Some admitted Inr show ?thesis by (cases r) (simp_all add: served split: prod.split)
      qed
    qed
  qed
qed

lemmas service_code = registry_get_def expected_binary_sha256_def expose_def require_binary_sha256_def registry_new_def test_header_def
  role_granted_iff echo_net_def closing_net_def instantly_def SHA256_LEN_def

lemma tests_of_the_registry: registry_has_anti_amplification_caps_by_default role_check_covers_all_cases
  by (simp_all add: registry_has_anti_amplification_caps_by_default_def role_check_covers_all_cases_def registry_new_def
      max_concurrent_streams_def role_granted_iff)

lemma test_of_the_framing:
  assumes "bincode_ok B" "fits B (test_header ''postgres'')"
  shows "header_round_trip_over_duplex B"
proof -
  obtain f where f: "header_frame B (test_header ''postgres'') = Some f" using assms(2) by (auto simp: fits_def)
  with read_header_frame [OF assms(1) f, of "[]" Idle] show ?thesis
    by (simp add: header_round_trip_over_duplex_def write_header_sound fresh_out_def other_side_def)
qed

text \<open>A serialiser writes a header that holds a name in no fewer bytes than the name has.\<close>

lemma test_of_the_size:
  assumes "\<And>h bs. encode B h = Inr bs \<Longrightarrow> length (service h) \<le> length bs"
  shows "oversized_header_is_rejected_on_both_sides B"
proof -
  let ?h = "test_header (replicate (MAX_TUNNEL_HEADER_SIZE + 1) (CHR ''s''))"
  have "\<not> length bs \<le> MAX_TUNNEL_HEADER_SIZE" if "encode B ?h = Inr bs" for bs
    using assms [OF that] by (simp add: test_header_def)
  then have "\<not> is_ok (fst (write_header B ?h fresh_out))"
    by (auto simp: write_header_def split: sum.split)
  moreover have "from_be_bytes (to_be_bytes 2 (word_of_nat (MAX_TUNNEL_HEADER_SIZE + 1) :: u16)) = MAX_TUNNEL_HEADER_SIZE + 1"
    by (rule length_u16_bytes) (simp add: MAX_TUNNEL_HEADER_SIZE_def)
  ultimately show ?thesis
    by (simp add: oversized_header_is_rejected_on_both_sides_def fresh_out_def other_side_def read_header_def read_exact_def Let_def)
qed

lemma tests_of_the_silence:
  assumes "bincode_ok B"
  shows "fits B (test_header ''ghost'') \<Longrightarrow> unknown_service_gets_radio_silence B peer addr"
    and "fits B (test_header ''db'') \<Longrightarrow> missing_role_gets_radio_silence B peer addr"
    and "fits B ((test_header ''echo'')\<lparr>binary_sha256 := replicate SHA256_LEN 0xFF\<rparr>) \<Longrightarrow> mismatched_binary_sha256_gets_radio_silence B peer addr"
  by (auto simp: fits_def unknown_service_gets_radio_silence_def missing_role_gets_radio_silence_def
      mismatched_binary_sha256_gets_radio_silence_def served_eq [OF assms] Let_def) (simp_all add: service_code)

lemma tests_of_the_relay:
  assumes "bincode_ok B"
  shows "fits B (test_header ''echo'') \<Longrightarrow> authorized_stream_is_acked_and_relayed B peer addr hello"
    and "fits B ((test_header ''echo'')\<lparr>binary_sha256 := replicate SHA256_LEN 0xAB\<rparr>) \<Longrightarrow> unattested_peer_is_not_checked B peer addr"
    and "fits B ((test_header ''echo'')\<lparr>binary_sha256 := replicate SHA256_LEN 0x42\<rparr>) \<Longrightarrow> matching_binary_sha256_is_acked B peer addr"
  by (auto simp: fits_def authorized_stream_is_acked_and_relayed_def unattested_peer_is_not_checked_def
      matching_binary_sha256_is_acked_def served_eq [OF assms] Let_def) (auto simp: service_code comp_def)

section \<open>Sockets and users\<close>

text \<open>\<^verbatim>\<open>fs::remove_file(path).ok()\<close>.\<close>

definition cleared :: "string \<Rightarrow> fs \<Rightarrow> fs" where
  "cleared path s = (case remove_file path s of Inr s' \<Rightarrow> s' | Inl _ \<Rightarrow> s)"

definition bind_forward_socket_sets_owner_only_permissions :: "string \<Rightarrow> fs \<Rightarrow> bool" where
  "bind_forward_socket_sets_owner_only_permissions path s =
     (case bind_forward_socket path (cleared path s) of
        (None, s) \<Rightarrow> (case metadata path s of Inr i \<Rightarrow> perm i AND 0x1FF = 0x180 | Inl _ \<Rightarrow> False)
      | (Some _, _) \<Rightarrow> False)"

definition bind_forward_socket_replaces_a_stale_socket_only :: "string \<Rightarrow> fs \<Rightarrow> bool" where
  "bind_forward_socket_replaces_a_stale_socket_only path s =
     (case bind_forward_socket path (cleared path s) of
        (None, s) \<Rightarrow> fst (bind_forward_socket path s) = None
      | (Some _, _) \<Rightarrow> False)"

definition bind_forward_socket_refuses_to_clobber_a_regular_file :: "string \<Rightarrow> bytes \<Rightarrow> fs \<Rightarrow> bool" where
  "bind_forward_socket_refuses_to_clobber_a_regular_file path contents s =
     (case fs_write path contents (cleared path s) of
        (None, s) \<Rightarrow> (case bind_forward_socket path s of (r, s) \<Rightarrow> r \<noteq> None \<and> fs_read path s = Inr contents)
      | (Some _, _) \<Rightarrow> False)"

text \<open>\<open>my_uid\<close>: what the kernel says of the process that connects.\<close>

definition own_uid_is_authorized_by_peer_cred :: "u32 \<Rightarrow> bool" where
  "own_uid_is_authorized_by_peer_cred my_uid =
     (peer_uid_authorized (Inr my_uid) [my_uid] \<and> \<not> peer_uid_authorized (Inr my_uid) [my_uid + 1] \<and> \<not> peer_uid_authorized (Inr my_uid) [])"

definition unauthorized_uid_gets_radio_silence_on_the_listener :: "u32 \<Rightarrow> bool" where
  "unauthorized_uid_gets_radio_silence_on_the_listener my_uid =
     (case forward_unix_listener [my_uid + 1] [Accepted ((), Inr my_uid)] [] [] of (relays, closed, _) \<Rightarrow> relays = [] \<and> closed = [()])"

lemma other_uid: "(u :: u32) \<noteq> u + 1"
  by simp

lemma tests_of_the_users: "own_uid_is_authorized_by_peer_cred u" "unauthorized_uid_gets_radio_silence_on_the_listener u"
  by (simp_all add: own_uid_is_authorized_by_peer_cred_def unauthorized_uid_gets_radio_silence_on_the_listener_def peer_uid_authorized_def)

text \<open>The directory of the tests: nothing there but perhaps a left-over, and a kernel that refuses nothing.\<close>

definition test_dir :: "string \<Rightarrow> fs \<Rightarrow> bool" where
  "test_dir path s \<longleftrightarrow> (\<forall>c. refused s c = None)"

lemma cleared_eq: "test_dir path s \<Longrightarrow> inodes (cleared path s) path = None \<and> test_dir path (cleared path s)"
  by (auto simp: test_dir_def cleared_def remove_file_def split: sum.split)

lemma bind_on_nothing:
  assumes "test_dir path s" "inodes s path = None"
  shows "\<exists>s'. bind_forward_socket path s = (None, s') \<and> inodes s' path = Some \<lparr>file_kind = SocketFile, perm = 0x180\<rparr> \<and> test_dir path s'"
  using assms by (simp add: test_dir_def bind_forward_socket_def bind_unix_def set_permissions_def symlink_metadata_def lookup_direct ok_or_def)

lemma bind_on_socket:
  assumes "test_dir path s" "inodes s path = Some \<lparr>file_kind = SocketFile, perm = m\<rparr>"
  shows "fst (bind_forward_socket path s) = None"
  using assms by (simp add: test_dir_def bind_forward_socket_def bind_unix_def set_permissions_def symlink_metadata_def remove_file_def
      lookup_direct ok_or_def)

lemma tests_of_the_sockets:
  assumes "test_dir path s"
  shows "bind_forward_socket_sets_owner_only_permissions path s" "bind_forward_socket_replaces_a_stale_socket_only path s"
    and "bind_forward_socket_refuses_to_clobber_a_regular_file path contents s"
proof -
  note c = cleared_eq [OF assms]
  from bind_on_nothing [of path "cleared path s"] c obtain s' where s': "bind_forward_socket path (cleared path s) = (None, s')"
    "inodes s' path = Some \<lparr>file_kind = SocketFile, perm = 0x180\<rparr>" "test_dir path s'" by auto
  then show "bind_forward_socket_sets_owner_only_permissions path s"
    by (simp add: bind_forward_socket_sets_owner_only_permissions_def metadata_def lookup_direct test_dir_def)
  from s' show "bind_forward_socket_replaces_a_stale_socket_only path s"
    using bind_on_socket by (simp add: bind_forward_socket_replaces_a_stale_socket_only_def)
  from c show "bind_forward_socket_refuses_to_clobber_a_regular_file path contents s"
    by (simp add: bind_forward_socket_refuses_to_clobber_a_regular_file_def test_dir_def fs_write_def write_file_def eval_nat_numeral
        bind_forward_socket_def symlink_metadata_def bind_unix_def ok_or_def fs_read_def lookup_direct Let_def)
qed

section \<open>Keys\<close>

definition round_trip_file :: "'k key_codec \<Rightarrow> 'k \<Rightarrow> string \<Rightarrow> fs \<Rightarrow> bool" where
  "round_trip_file X k path s =
     (case save_to_file X k path [] (cleared path s) of
        (Inr _, s) \<Rightarrow> from_file X path s = Inr k \<and> is_ok (remove_file path s)
      | (Inl _, _) \<Rightarrow> False)"

definition rejects_world_readable_key :: "'k key_codec \<Rightarrow> 'k \<Rightarrow> string \<Rightarrow> fs \<Rightarrow> bool" where
  "rejects_world_readable_key X k path s =
     (case save_to_file X k path [] (cleared path s) of
        (Inr _, s) \<Rightarrow> (case set_permissions path 0x1A4 s of
            Inr s \<Rightarrow> (case from_file X path s of Inl (InsecureKeyPermissions _ _) \<Rightarrow> True | _ \<Rightarrow> False) \<and> is_ok (remove_file path s)
          | Inl _ \<Rightarrow> False)
      | (Inl _, _) \<Rightarrow> False)"

text \<open>\<open>hex_encode\<close>: the function of the crate hex.\<close>

definition hex_round_trip :: "'k key_codec \<Rightarrow> (bytes \<Rightarrow> string) \<Rightarrow> 'k \<Rightarrow> bool" where
  "hex_round_trip X hex_encode k =
     (case ed25519_secret X k of
        Some secret \<Rightarrow> from_hex_str X (hex_encode secret) = Inr k \<and> \<not> is_ok (from_hex_str X ''zz'')
      | None \<Rightarrow> False)"

lemma save_fresh:
  assumes "test_dir path s" "inodes s path = None" "ed25519_secret X k = Some secret"
  shows "\<exists>s'. save_to_file X k path [] s = (Inr (), s') \<and> test_dir path s' \<and>
    inodes s' path = Some \<lparr>file_kind = RegularFile secret, perm = 0x180 AND NOT (umask s)\<rparr>"
  using assms by (simp add: test_dir_def save_to_file_def create_new_def write_file_def sync_all_def)

lemma tests_of_the_keys:
  assumes "key_codec_ok X" "test_dir path s" "ed25519_secret X k \<noteq> None"
  shows "round_trip_file X k path s" "rejects_world_readable_key X k path s"
proof -
  obtain secret where k: "ed25519_secret X k = Some secret" using assms(3) by blast
  from cleared_eq [OF assms(2)] have c: "test_dir path (cleared path s)" "inodes (cleared path s) path = None" by simp_all
  from save_fresh [OF c k] obtain s' where s': "save_to_file X k path [] (cleared path s) = (Inr (), s')" "test_dir path s'"
    "inodes s' path = Some \<lparr>file_kind = RegularFile secret, perm = 0x180 AND NOT (umask (cleared path s))\<rparr>" by blast
  have key: "keypair_from_secret_bytes X secret = Inr k"
    using assms(1) k by (simp add: key_codec_ok_def keypair_from_secret_bytes_def)
  from s' key owner_bits_only show "round_trip_file X k path s"
    by (simp add: round_trip_file_def from_file_def ensure_owner_only_def metadata_def fs_read_def lookup_direct test_dir_def remove_file_def)
  from s' show "rejects_world_readable_key X k path s"
    by (simp add: rejects_world_readable_key_def set_permissions_def lookup_direct test_dir_def from_file_def ensure_owner_only_def
        metadata_def remove_file_def)
qed

text \<open>What the crate hex does, as documented: what it encodes it decodes, the text has no white space, and \<open>zz\<close> is no number.\<close>

lemma test_of_the_hexadecimal:
  assumes "key_codec_ok X" "ed25519_secret X k = Some secret" "hex_decode X (hex_encode secret) = Inr secret"
    and "trim (hex_encode secret) = hex_encode secret" "hex_decode X ''zz'' = Inl e"
  shows "hex_round_trip X hex_encode k"
proof -
  have "trim ''zz'' = ''zz''" by code_simp
  with assms show ?thesis
    by (simp add: hex_round_trip_def from_hex_str_def key_codec_ok_def keypair_from_secret_bytes_def)
qed

section \<open>Messages\<close>

definition round_trips :: "'m bincode \<Rightarrow> 'm \<Rightarrow> bool" where
  "round_trips B m = (case encode B m of Inr bs \<Rightarrow> decode B bs = Inr m | Inl _ \<Rightarrow> False)"

definition wire_round_trip :: "nux_request bincode \<Rightarrow> nux_response bincode \<Rightarrow> tunnel_header bincode \<Rightarrow> bool" where
  "wire_round_trip Q R B =
     (list_all (round_trips Q) [HandshakeInit, ChallengeAnswer (replicate 64 7) 1780000000] \<and>
      round_trips R (Challenge (replicate NONCE_LEN 42) 1780000000) \<and>
      round_trips B \<lparr>service = ''postgres'', binary_sha256 = replicate 32 9\<rparr>)"

lemma test_of_the_wire:
  assumes "bincode_ok Q" "bincode_ok R" "bincode_ok B"
    and "is_ok (encode Q HandshakeInit)" "is_ok (encode Q (ChallengeAnswer (replicate 64 7) 1780000000))"
    and "is_ok (encode R (Challenge (replicate NONCE_LEN 42) 1780000000))"
    and "is_ok (encode B \<lparr>service = ''postgres'', binary_sha256 = replicate 32 9\<rparr>)"
  shows "wire_round_trip Q R B"
  using assms(4-7) bincode_okD(2) [OF assms(1)] bincode_okD(2) [OF assms(2)] bincode_okD(2) [OF assms(3)]
  by (auto simp: wire_round_trip_def round_trips_def is_ok_iff)

section \<open>Configuration files\<close>

text \<open>What \<^verbatim>\<open>write_config\<close> writes and \<^verbatim>\<open>load\<close> reads: lines of a key and a string.\<close>

definition toml_lines :: "(string \<times> string) list \<Rightarrow> string" where
  "toml_lines kvs = concat (map (\<lambda>(k, v). k @ '' = '' @ [CHR 0x22] @ v @ [CHR 0x22, CHR 10]) kvs)"

definition LISTEN_ADDR :: string where "LISTEN_ADDR = ''/ip4/127.0.0.1/tcp/4588''"
definition RELAY_ADDR :: string where
  "RELAY_ADDR = ''/ip4/203.0.113.9/tcp/4001/p2p/12D3KooWKSWkFyEvNTLdch2vGZbvcyxNQBUpFrpccW3nrHPtRWQ4''"

definition only_listen :: "(string \<times> string) list" where "only_listen = [(''listen'', LISTEN_ADDR)]"
definition with_relay :: "(string \<times> string) list" where "with_relay = [(''listen'', LISTEN_ADDR), (''relay'', RELAY_ADDR)]"
definition bad_relay :: "(string \<times> string) list" where "bad_relay = [(''relay'', ''not-a-multiaddr'')]"
definition only_namespace :: "(string \<times> string) list" where "only_namespace = [(''listen'', LISTEN_ADDR), (''namespace'', ''prod-db'')]"
definition with_namespace :: "(string \<times> string) list" where
  "with_namespace = [(''listen'', LISTEN_ADDR), (''relay'', RELAY_ADDR), (''namespace'', ''prod-db'')]"

lemmas test_files = only_listen_def with_relay_def bad_relay_def only_namespace_def with_namespace_def

definition loaded :: "config_lib \<Rightarrow> string \<Rightarrow> (string \<times> string) list \<Rightarrow> nux_error + guard_config" where
  "loaded L path kvs = load L path (Inr (toml_lines kvs))"

definition relay_absent_by_default :: "config_lib \<Rightarrow> string \<Rightarrow> bool" where
  "relay_absent_by_default L path =
     (case loaded L path only_listen of Inr cfg \<Rightarrow> cfg_relay cfg = None | Inl _ \<Rightarrow> False)"

definition valid_relay_is_parsed :: "config_lib \<Rightarrow> string \<Rightarrow> bool" where
  "valid_relay_is_parsed L path =
     (case loaded L path with_relay of
        Inr cfg \<Rightarrow> (case parse_multiaddr L RELAY_ADDR of Inr a \<Rightarrow> cfg_relay cfg = Some a | Inl _ \<Rightarrow> False)
      | Inl _ \<Rightarrow> False)"

text \<open>The message names the field and the value.\<close>

definition malformed_relay_is_rejected_by_name :: "config_lib \<Rightarrow> string \<Rightarrow> bool" where
  "malformed_relay_is_rejected_by_name L path =
     (case loaded L path bad_relay of
        Inl (Config (FieldInvalid field value _)) \<Rightarrow> field = ''relay'' \<and> value = ''not-a-multiaddr'' | _ \<Rightarrow> False)"

definition namespace_without_relay_is_rejected :: "config_lib \<Rightarrow> string \<Rightarrow> bool" where
  "namespace_without_relay_is_rejected L path =
     (loaded L path only_namespace = Inl (Config NamespaceNeedsRelay))"

definition namespace_with_relay_is_parsed :: "config_lib \<Rightarrow> string \<Rightarrow> bool" where
  "namespace_with_relay_is_parsed L path =
     (case loaded L path with_namespace of
        Inr cfg \<Rightarrow> cfg_namespace cfg = Some ''prod-db'' | Inl _ \<Rightarrow> False)"

text \<open>What the libraries say of these files: toml reads the lines, the addresses parse and the malformed one does not, and the namespace fits.\<close>

definition reads_the_tests :: "config_lib \<Rightarrow> bool" where
  "reads_the_tests L \<longleftrightarrow>
     (\<forall>kvs \<in> {only_listen, with_relay, bad_relay, only_namespace, with_namespace}.
        toml_parse L (toml_lines kvs) = Inr (map (\<lambda>(k, v). (k, TomlString v)) kvs)) \<and>
     is_ok (parse_multiaddr L LISTEN_ADDR) \<and> is_ok (parse_multiaddr L RELAY_ADDR) \<and> is_ok (parse_multiaddr L default_listen) \<and>
     \<not> is_ok (parse_multiaddr L ''not-a-multiaddr'') \<and> namespace_fits L ''prod-db''"

lemma loaded_eq:
  assumes "toml_parse L (toml_lines kvs) = Inr (map (\<lambda>(k, v). (k, TomlString v)) kvs)"
    and "set (map fst kvs) \<subseteq> {''listen'', ''relay'', ''namespace''}"
  shows "loaded L path kvs = validate L \<lparr>raw_listen = (case map_of kvs ''listen'' of Some a \<Rightarrow> a | None \<Rightarrow> default_listen),
     raw_rate = raw_rate_limit_default, raw_allows = [], raw_exposes = [], raw_checksums = [],
     raw_relay = map_of kvs ''relay'', raw_namespace = map_of kvs ''namespace''\<rparr>"
proof -
  have look: "map_of (map (\<lambda>(k, v). (k, TomlString v)) kvs) k = map_option TomlString (map_of kvs k)" for k
    by (induction kvs) auto
  have none: "map_of kvs k = None" if "k \<notin> {''listen'', ''relay'', ''namespace''}" for k
    using that assms(2) by (auto simp: map_of_eq_None_iff)
  have absent: "map_of kvs ''rate_limit'' = None" "map_of kvs ''allow'' = None" "map_of kvs ''expose'' = None" "map_of kvs ''checksum_bin'' = None"
    by (rule none, simp)+
  show ?thesis
    using assms(1) by (auto simp: loaded_def load_def read_doc_def de_config_def defaulted_def optional_def
        de_string_def look absent split: option.split)
qed

lemma tests_of_the_file:
  assumes "reads_the_tests L"
  shows "relay_absent_by_default L path" "valid_relay_is_parsed L path" "malformed_relay_is_rejected_by_name L path"
    "namespace_without_relay_is_rejected L path" "namespace_with_relay_is_parsed L path"
proof -
  from assms have parsed: "\<And>kvs. kvs \<in> {only_listen, with_relay, bad_relay, only_namespace, with_namespace} \<Longrightarrow>
      loaded L path kvs = validate L \<lparr>raw_listen = (case map_of kvs ''listen'' of Some a \<Rightarrow> a | None \<Rightarrow> default_listen),
        raw_rate = raw_rate_limit_default, raw_allows = [], raw_exposes = [], raw_checksums = [],
        raw_relay = map_of kvs ''relay'', raw_namespace = map_of kvs ''namespace''\<rparr>"
    by (intro loaded_eq) (auto simp: reads_the_tests_def test_files)
  have files: "rl_window_secs raw_rate_limit_default \<noteq> 0" "rl_exempt raw_rate_limit_default = []"
    by (simp_all add: raw_rate_limit_default_def default_rate_window_secs_def DEFAULT_WINDOW_def as_secs_def from_secs_def)
  note validated = parsed validate_def files load_exempt_def load_checksums_def test_files
  from assms obtain a b c e where "parse_multiaddr L LISTEN_ADDR = Inr a" "parse_multiaddr L RELAY_ADDR = Inr b"
    "parse_multiaddr L default_listen = Inr c" "parse_multiaddr L ''not-a-multiaddr'' = Inl e" "namespace_fits L ''prod-db''"
    by (cases "parse_multiaddr L ''not-a-multiaddr''") (auto simp: reads_the_tests_def is_ok_iff)
  then show "relay_absent_by_default L path" "valid_relay_is_parsed L path" "malformed_relay_is_rejected_by_name L path"
    "namespace_without_relay_is_rejected L path" "namespace_with_relay_is_parsed L path"
    by (simp_all add: relay_absent_by_default_def valid_relay_is_parsed_def malformed_relay_is_rejected_by_name_def
        namespace_without_relay_is_rejected_def namespace_with_relay_is_parsed_def validated invalid_def)
qed

text \<open>Such libraries exist: the five files are different texts.\<close>

lemma tests_can_be_read: "\<exists>L. reads_the_tests L"
proof -
  let ?fs = "[only_listen, with_relay, bad_relay, only_namespace, with_namespace]"
  let ?L = "sample_lib\<lparr>toml_parse := (\<lambda>s. case map_of (map (\<lambda>kvs. (toml_lines kvs, kvs)) ?fs) s of
      Some kvs \<Rightarrow> Inr (map (\<lambda>(k, v). (k, TomlString v)) kvs) | None \<Rightarrow> Inl ''other''),
    parse_multiaddr := (\<lambda>s. if s = ''not-a-multiaddr'' then Inl ''multiaddr'' else Inr [])\<rparr>"
  have "distinct (map toml_lines ?fs)" by code_simp
  then have "reads_the_tests ?L"
    by (auto simp: reads_the_tests_def sample_lib_def LISTEN_ADDR_def RELAY_ADDR_def default_listen_def)
  then show ?thesis ..
qed

end
