(* ===== verification/Spec2Isabelle.thy ===== *)
theory Spec2Isabelle imports Visit Node_Handle Guard_Daemon Client_Process Daemon_Files Cli_Main Rate_Behaviour Fuzz_Targets
  Gateway_Tasks Gateway_Database Gateway_Race Constant_Time Relay Tests_Auth Tests_Limits Tests_Tunnel begin

text \<open>
  A verification library for nux-auth: peer-to-peer tunnels, authenticated by keys, whose Guards expose
  local services to listed peers only.

  \<^bold>\<open>The program.\<close> \<^verbatim>\<open>crates/nux-core\<close> is the engine: a node is a Guard, which listens and protects services, or a
  Client, which dials a Guard. A Client proves its key by a challenge (\<^verbatim>\<open>/nux/auth\<close>), then opens streams
  (\<^verbatim>\<open>/nux/tunnel\<close>) that the Guard relays to the service they name. \<^verbatim>\<open>crates/nux-cli\<close> is the command \<^verbatim>\<open>nux\<close>:
  \<^verbatim>\<open>keygen\<close>, \<^verbatim>\<open>guard\<close>, \<^verbatim>\<open>client\<close>, \<^verbatim>\<open>sync-config\<close>. \<^verbatim>\<open>nodes_relay\<close> is the relay and rendezvous point.
  \<^verbatim>\<open>nux_gateway\<close> stores the configurations of the Guards, serves them through tunnels of its own and relays
  the state of nodes to a dashboard.

  \<^bold>\<open>Theories and code\<close> (paths under \<^verbatim>\<open>src\<close>; \<^verbatim>\<open>core\<close> is \<^verbatim>\<open>crates/nux-core/src\<close>, \<^verbatim>\<open>cli\<close> is \<^verbatim>\<open>crates/nux-cli/src\<close>, \<^verbatim>\<open>gw\<close> is \<^verbatim>\<open>nux_gateway/src\<close>).

  \<^item> \<open>Nux_Prelude\<close>: machine integers, results as sums (\<open>and_then\<close> is the operator \<^verbatim>\<open>?\<close>), bytes in big-endian order, decimal
    numbers. \<open>Hash_Map\<close>: \<^verbatim>\<open>HashMap\<close> as association lists, behind the locale \<open>map_interface\<close>. \<open>Machine\<close>: the locales of an
    invariant kept by every step of a machine and of an implementation whose steps are steps of a specification. \<open>Text\<close>: \<^verbatim>\<open>split_once\<close>, \<^verbatim>\<open>trim\<close>, \<^verbatim>\<open>lines\<close> and the parsing of numbers.
  \<^item> \<open>Messages\<close> (\<^verbatim>\<open>core/protocol/mod.rs\<close>, \<^verbatim>\<open>core/error.rs\<close>) and \<open>Codec\<close> (\<^verbatim>\<open>core/protocol/codec.rs\<close>).
  \<^item> \<open>Whitelist\<close> (\<^verbatim>\<open>core/auth/whitelist.rs\<close>), \<open>Auth\<close> (\<^verbatim>\<open>core/auth/mod.rs\<close>): the authority of a Guard, one definition per method;
    \<open>Auth_Trace\<close>: its runs over any sequence of calls.
  \<^item> \<open>Rate_Limit\<close> and \<open>Rate_Behaviour\<close> (\<^verbatim>\<open>core/rate_limit.rs\<close>: the limiter, and as a behaviour of the swarm), \<open>Tunnel\<close> (\<^verbatim>\<open>core/tunnel/mod.rs\<close>, \<^verbatim>\<open>core/attestation.rs\<close>), \<open>Metrics\<close> (\<^verbatim>\<open>core/metrics.rs\<close>).
  \<^item> \<open>Guard\<close> (\<^verbatim>\<open>run_guard_loop\<close> of \<^verbatim>\<open>core/node.rs\<close>): one label per branch of the select, \<open>guard_step\<close> for a turn, the
    inductive relation \<open>guard_turn\<close> for the enabled turns; \<open>Guard_Properties\<close>: what holds over its runs.
  \<^item> \<open>Guard_Refinement\<close>: the access policy that the loop implements, over plain sets. \<open>Embedded_Guard\<close>: the locale of the programs that
    run the loop among other tasks, interpreted by the daemon and by the Gateway.
  \<^item> \<open>Node\<close> and \<open>Node_Handle\<close> (the other entry points of \<^verbatim>\<open>core/node.rs\<close>, and the handle over the swarm), \<open>Daemon_Files\<close> (the metrics and readiness files of the two daemons).
  \<^item> \<open>Client\<close> (the Client half of \<^verbatim>\<open>core/node.rs\<close>): every waiting loop consumes a list of swarm events and is \<open>Pending\<close> when it
    runs out; \<open>Waiting\<close>: the locale of such loops, which take of the events what they need and leave the rest; \<open>Session_Steps\<close>: the
    session as a machine of single events; \<open>Handshake\<close>: Client and Guard together; \<open>Visit\<close>: from the handshake to the service.
  \<^item> \<open>File_System\<close>, \<open>Identity\<close> (\<^verbatim>\<open>core/identity.rs\<close>, \<^verbatim>\<open>core/hardening.rs\<close>, \<^verbatim>\<open>bind_forward_socket\<close>, \<^verbatim>\<open>nodes_relay/src/manage_key/key.rs\<close>),
    \<open>Builder\<close> (\<^verbatim>\<open>core/builder.rs\<close>).
  \<^item> \<open>Guard_Config\<close> (\<^verbatim>\<open>cli/guard_config.rs\<close>); of \<^verbatim>\<open>cli/main.rs\<close>, \<open>Cli_Args\<close> (the parsers), \<open>Startup\<close> (the commands up to their
    loops), \<open>Guard_Daemon\<close> (the running Guard with its signals, its file and its channel), \<open>Client_Process\<close> (the running Client with its
    session, its forwards and its signals), \<open>Sync_Config\<close> and \<open>Sync_Process\<close> (the
    turns of \<^verbatim>\<open>sync-config\<close>, and the process with its signals), \<open>Cli_Main\<close> (the journals and the dispatch).
  \<^item> \<open>Constant_Time\<close>: the four comparisons of secrets again, with the trace of what takes time. \<open>Fuzz_Targets\<close> (\<^verbatim>\<open>fuzz\<close>).
    \<open>Tests_Auth\<close>, \<open>Tests_Limits\<close> and \<open>Tests_Tunnel\<close>: the unit tests of the repository, as predicates that the model satisfies.
  \<^item> \<open>Relay\<close> (\<^verbatim>\<open>nodes_relay/src/main.rs\<close>, \<^verbatim>\<open>nodes_relay/src/metrics.rs\<close>).
  \<^item> \<open>Gateway_Limit\<close> and \<open>Gateway_Race\<close> (\<^verbatim>\<open>gw/rate_limit.rs\<close>, call by call and atomic step by step), \<open>Gateway\<close> (\<^verbatim>\<open>gw/models.rs\<close>, \<^verbatim>\<open>gw/error.rs\<close>, \<^verbatim>\<open>gw/roles.rs\<close>, \<^verbatim>\<open>gw/handlers\<close>, \<^verbatim>\<open>gw/api\<close>),
    \<open>Gateway_Properties\<close>, \<open>Gateway_Store\<close> (the three ports as a plain store), \<open>Gateway_Start\<close> (\<^verbatim>\<open>gw/config.rs\<close>, \<^verbatim>\<open>gw/main.rs\<close>),
    \<open>Gateway_Database\<close> (\<^verbatim>\<open>gw/db/database.rs\<close>, \<open>serve\<close>), \<open>Gateway_System\<close> (the state of the running system and its start) and
    \<open>Gateway_Tasks\<close> (its steps: the ports, the channel of commands and the embedded Guard, interleaved, with the writes in flight
    stage by stage).

  \<^bold>\<open>What is shown.\<close>

  \<^item> Refinement: the loop of the Guard implements an access policy (\<open>guard_refines_policy\<close>), the ports of the Gateway a store of
    configurations (\<open>gateway_refines_store\<close>); both through the locale \<open>implementation\<close> of \<open>Machine\<close>.
  \<^item> Authentication: a grant of the running Guard answers a challenge it sent to that peer, unused and fresh
    (\<open>guard_grants_agree\<close>, \<open>revoked_stays_out\<close>); on the other side \<open>authenticate_sound\<close>; together
    \<open>handshake_end_to_end\<close>, and up to the service \<open>visit_reaches_the_service_iff\<close>. The comparisons of secrets show nothing but lengths (\<open>comparisons_are_oblivious\<close>).
  \<^item> Tunnels: a relay needs a live session (\<open>guard_tunnel_needs_session\<close>), an exposed service, its role and the hash of the binary
    (\<open>served_only_if_allowed\<close>); refusals are silent (\<open>refusal_is_silent\<close>, \<open>guard_reply_or_silence\<close>); the caps, of which the one of
    a peer starts again when it departs, and the gauge agree (\<open>guard_tunnel_caps\<close>, \<open>peer_cap_starts_again\<close>); framing and opening (\<open>header_roundtrip\<close>, \<open>opening_succeeds_iff_allowed\<close>);
    over the life of the daemon, whom a tunnel leads where (\<open>daemon_serves_the_listed\<close>).
  \<^item> Limits: the sliding window exactly (\<open>rate_limit_exact\<close>, \<open>behaviour_limits_connections\<close>) and the fixed window of the Gateway (\<open>window_limiter_bound\<close>, and
    \<open>racing_requests_bounded\<close> when requests race).
  \<^item> Life cycle: the loop of the Guard returns exactly when drained or late (\<open>guard_returns_iff\<close>), the daemon follows its file and
    stops in time (\<open>daemon_follows_its_file\<close>, \<open>daemon_stops_in_time\<close>); the Client accounts for every connection, spares its relays
    and stops in time (\<open>client_connections_account\<close>, \<open>client_spares_relays\<close>, \<open>client_stops_in_time\<close>); its session regains the Guard
    by a new handshake only (\<open>session_regains_the_guard\<close>, \<open>session_shutdown\<close>), and the machine of events runs as the loop does
    (\<open>session_steps_agree\<close>); \<open>signal_to_sync_config\<close>; starts
    (\<open>guard_serves_its_configuration\<close>, \<open>relay_is_optional\<close>, \<open>client_reaches_the_named_guard\<close>, \<open>keygen_gives_the_identity\<close>,
    \<open>gateway_fails_closed\<close>).
  \<^item> Keys, files, configurations: round trips, exact acceptance, privacy of keys and sockets, convergence of \<^verbatim>\<open>sync-config\<close>, a metrics file that
    is never partial.
  \<^item> Gateway: who writes, what is read back, what a Guard can load, which roles result live and after a restart, what the
    dashboard is asked; and over the whole system, who reaches which port and which roles are live at any moment
    (\<open>served_by_admin_consent\<close>, \<open>live_roles_follow_the_writes\<close>, \<open>finished_writes_are_live\<close>).

  \<^bold>\<open>Conventions.\<close> Words keep the width of the code (\<^verbatim>\<open>u8\<close>, \<^verbatim>\<open>u16\<close>, \<^verbatim>\<open>u32\<close>, \<^verbatim>\<open>u64\<close>) and wrap; \<^verbatim>\<open>usize\<close>, \<^verbatim>\<open>Instant\<close> and \<^verbatim>\<open>Duration\<close>
  are natural numbers (instants and durations in milliseconds; wall-clock times in Unix seconds, as the code keeps them).
  Errors are values of a sum type. Diagnostics keep their shape, not their wording. Concurrency is the order of a list of
  labels, events or requests, over which the theorems quantify. Fuel occurs in two places: \<open>run_client_session\<close> counts the turns of its
  loop, and \<open>resolve\<close> follows at most 40 symbolic links, as the kernel does.

  \<^bold>\<open>Parameters\<close>, with the hypotheses named where they are used: bincode (\<open>bincode_ok\<close>), the Ed25519 functions of libp2p, \<^verbatim>\<open>Semaphore\<close>
  (\<open>sem_ok\<close>), toml and toml\_edit (\<open>toml_ok\<close>), serde\_json (\<open>json_ok\<close>), the codec of keys (\<open>key_codec_ok\<close>), the parsers of addresses, peers
  and hexadecimal, TCP and the relay of bytes, SQLite, reqwest, the clocks, the random nonces. Each property that rests on
  one has a witness with a concrete function in its place.

  \<^bold>\<open>Not modelled.\<close> The text of the journals, clap, axum and the sockets under the routers, diesel under the pool, the behaviours of libp2p
  (Noise, relay, rendezvous, ping, DCUtR), the erasure of secrets in memory, and the tests that run them: those under
  \<^verbatim>\<open>tests\<close>, the one of \<^verbatim>\<open>/proc\<close> in \<^verbatim>\<open>core/hardening.rs\<close> and the one that decodes garbage with bincode. The process of the Client starts
  once all its forwards are bound: when a later one fails to bind, \<open>client_command\<close> is an error, and what the earlier ones relayed in the
  meantime is not followed. That \<^verbatim>\<open>constant_time_eq\<close> takes a time that depends on the length alone is its documented behaviour.
\<close>

section \<open>The request of sync-config at the Gateway\<close>

text \<open>The path that \<^verbatim>\<open>fetch_remote_config\<close> asks for is not a route of the router behind the tunnel of the Guards, which serves
  the configurations without the segment \<^verbatim>\<open>private\<close>; so the poll never gets a configuration from this Gateway.\<close>

definition polled_path :: "string \<Rightarrow> string list" where
  "polled_path u = [''api'', ''v1'', ''private'', ''configs'', u]"

lemma polled_path_of_url:
  "config_url port u = ''http://127.0.0.1:'' @ decimal (unat port) @ concat (map (\<lambda>s. CHR ''/'' # s) (polled_path u))"
  by (simp add: config_url_def polled_path_def)

lemma polled_path_is_not_routed:
  "req_path req = polled_path u \<Longrightarrow> guard_router L J D db_fails tick req g = (Rejected, g)"
  by (simp add: guard_router_def guard_route_def node_state_route_def polled_path_def)

lemma served_path_is_routed:
  "gets meth \<Longrightarrow> guard_route meth [''api'', ''v1'', ''configs'', u] = Some (GetConfig u)"
  by (simp add: guard_route_def)

end
